(* ===== verification/SimPrelude.thy ===== *)
theory SimPrelude
  imports Main "HOL-Library.Word"
begin

text \<open>
  Shared vocabulary of the sim2023 development: the result type of code that may end the
  process, the integer type synonyms of \<^verbatim>\<open>common/include/sim/common.hpp\<close>, the collections
  the component proofs simplify with, and generic lemmas on words and lists.

  Every C++ function whose body can reach \<^verbatim>\<open>std::terminate\<close> (a failed \<open>SIM_ASSERT\<close>, a
  \<open>SIM_UNREACHABLE\<close>, an uncaught \<^verbatim>\<open>std::bad_alloc\<close>) or undefined behaviour returns a value
  of type \<open>'a res\<close>: \<open>Inr x\<close> is a normal return, \<open>Inl e\<close> the reason the process stopped.
\<close>

unbundle bit_operations_syntax

named_theorems res_simps \<open>equations of the result monad\<close>
named_theorems status_simps \<open>case distinctions on status values\<close>

section \<open>Results of code that may end the process\<close>

datatype abort =
    AssertFailed     \<comment> \<open>\<open>SIM_ASSERT(cond)\<close> with a false condition\<close>
  | Unreachable      \<comment> \<open>\<open>SIM_UNREACHABLE()\<close>\<close>
  | BadAlloc         \<comment> \<open>an uncaught \<^verbatim>\<open>std::bad_alloc\<close>\<close>
  | NullDeref        \<comment> \<open>a load or store through \<^verbatim>\<open>nullptr\<close>\<close>
  | NullCall         \<comment> \<open>a call through a null function pointer\<close>
  | ShiftUB          \<comment> \<open>a shift by at least the width of the promoted operand\<close>
  | SignedOverflow   \<comment> \<open>an overflow of \<open>+\<close> or \<open>-\<close> on a signed type, undefined in C++\<close>
  | OutOfBounds      \<comment> \<open>an access outside an array\<close>
  | BadEnum          \<comment> \<open>an enumeration value that names no enumerator\<close>

type_synonym 'a res = "abort + 'a"

definition bindR :: "'a res \<Rightarrow> ('a \<Rightarrow> 'b res) \<Rightarrow> 'b res" where
  "bindR m f = (case m of Inl e \<Rightarrow> Inl e | Inr x \<Rightarrow> f x)"

lemma bindR_simps [simp, res_simps]:
  "bindR (Inr x) f = f x"
  "bindR (Inl e) f = Inl e"
  by (simp_all add: bindR_def)

lemma bindR_eq_Inr_iff [res_simps]:
  "bindR m f = Inr y \<longleftrightarrow> (\<exists>x. m = Inr x \<and> f x = Inr y)"
  by (cases m) auto

lemma bindR_eq_Inl_iff:
  "bindR m f = Inl e \<longleftrightarrow> m = Inl e \<or> (\<exists>x. m = Inr x \<and> f x = Inl e)"
  by (cases m) auto

lemma bindR_assoc: "bindR (bindR m f) g = bindR m (\<lambda>x. bindR (f x) g)"
  by (cases m) auto

lemma bindR_InrE:
  assumes "bindR m f = Inr y"
  obtains x where "m = Inr x" and "f x = Inr y"
  using assms by (auto simp: bindR_eq_Inr_iff)

lemma bindR_cong [fundef_cong]:
  "m = m' \<Longrightarrow> (\<And>x. m' = Inr x \<Longrightarrow> f x = g x) \<Longrightarrow> bindR m f = bindR m' g"
  by (cases m') auto

lemma bindR_if_distrib:
  "bindR (if b then m else m') f = (if b then bindR m f else bindR m' f)"
  by simp

text \<open>A change of the state in a result that carries one, for operations that do not look at the change.\<close>

definition mapR :: "('s \<Rightarrow> 't) \<Rightarrow> ('x \<times> 's) res \<Rightarrow> ('x \<times> 't) res" where
  "mapR h r = bindR r (\<lambda>(x, s). Inr (x, h s))"

lemma mapR_simps [simp]: "mapR h (Inl e) = Inl e" "mapR h (Inr (x, s)) = Inr (x, h s)"
  by (simp_all add: mapR_def)

lemma mapR_bind: "mapR h (bindR m f) = bindR m (\<lambda>x. mapR h (f x))"
  by (simp add: mapR_def bindR_assoc)

lemma bind_mapR: "bindR (mapR h m) f = bindR m (\<lambda>(x, s). f (x, h s))"
  by (cases m) (auto simp: mapR_def)

section \<open>Integer types\<close>

type_synonym RegValue = "64 word"
type_synonym PhysAddr = "64 word"
type_synonym VirtAddr = "64 word"
type_synonym InstrCode = "32 word"
type_synonym PPN = "64 word"
type_synonym VPN = "64 word"
type_synonym byte = "8 word"

section \<open>Words\<close>

lemma word_eq_bitI:
  fixes v w :: "'a::len word"
  assumes "\<And>n. n < LENGTH('a) \<Longrightarrow> bit v n = bit w n"
  shows "v = w"
  using assms by (rule bit_word_eqI)

lemma bit_word_out [simp]: "LENGTH('a) \<le> n \<Longrightarrow> \<not> bit (w :: 'a::len word) n"
  using bit_imp_le_length [of w n] by auto

lemma bit_not_wordI:
  fixes w :: "'a::len word"
  shows "bit (NOT w) n \<longleftrightarrow> n < LENGTH('a) \<and> \<not> bit w n"
  by (simp add: bit_not_iff)

lemma unat_two_power: "n < LENGTH('a) \<Longrightarrow> unat (2 ^ n :: 'a::len word) = 2 ^ n"
proof -
  assume n: "n < LENGTH('a)"
  have "unat (2 ^ n :: 'a word) = unat (of_nat (2 ^ n) :: 'a word)" by simp
  also have "\<dots> = 2 ^ n" using n by (simp only: unat_of_nat) simp
  finally show ?thesis .
qed

text \<open>A field of a word, as the code means it: bits \<open>lo .. hi\<close> moved to position 0.\<close>

definition field :: "nat \<Rightarrow> nat \<Rightarrow> 'a::len word \<Rightarrow> 'a word" where
  "field hi lo w = take_bit (hi + 1 - lo) (drop_bit lo w)"

lemma bit_field_iff [bit_simps]:
  "bit (field hi lo w) n \<longleftrightarrow> n < hi + 1 - lo \<and> bit w (lo + n)"
  by (simp add: field_def bit_simps)

lemma unat_field_less: "unat (field hi lo w) < 2 ^ (hi + 1 - lo)"
  using take_bit_nat_less_exp [of "hi + 1 - lo"] by (simp add: field_def unsigned_take_bit_eq)

end
