(* ===== verification/Common.thy ===== *)
theory Common
  imports SimPrelude
begin

text \<open>
  \<^verbatim>\<open>common/include/sim/common.hpp\<close>: the assertion macros, the status codes, the privilege
  levels and the bit-field helpers of namespace \<^verbatim>\<open>sim::bit\<close>. The helpers are templates over
  an unsigned integer type \<open>UInt\<close>; here they are polymorphic in the word length, and
  \<open>LENGTH('a)\<close> is \<open>bitSize<UInt>()\<close>. Bit indices (\<open>BitIdx\<close>, a \<open>size_t\<close>) are natural
  numbers: the assertions bound them by the width before any arithmetic on them.
\<close>

section \<open>Assertions and statuses\<close>

text \<open>The macro as a debug build expands it (no build type defines \<open>NDEBUG\<close>).\<close>

definition SIM_ASSERT :: "bool \<Rightarrow> unit res" where
  "SIM_ASSERT cond = (if cond then Inr () else Inl AssertFailed)"

definition SIM_UNREACHABLE :: "'a res" where
  "SIM_UNREACHABLE = Inl Unreachable"

lemma SIM_ASSERT_True [simp, res_simps]: "cond \<Longrightarrow> SIM_ASSERT cond = Inr ()"
  by (simp add: SIM_ASSERT_def)

lemma SIM_ASSERT_Inr_iff [simp]: "SIM_ASSERT c = Inr u \<longleftrightarrow> c"
  by (simp add: SIM_ASSERT_def)

lemma bindR_SIM_ASSERT_Inr_iff [simp]:
  "bindR (SIM_ASSERT c) f = Inr y \<longleftrightarrow> c \<and> f () = Inr y"
  by (simp add: SIM_ASSERT_def)

datatype SimStatus =
    OK
  | CSR_NOT_SUPPORTED
  | PHYS_MEM_PAGE_ALIGN_ERROR
  | PHYS_MEM_ACCESS_FAULT
  | MMU64_PAGE_FAULT
  | MAPPER_ALREADY_MAPPED
  | MAPPER_TABLE_REGION_END
  | MAPPER_TABLE_REGION_PAGE_MAPPED
  | SIM_EXIT
  | SIM_NOT_IMPLEMENTED_INSTR
  | SIM_PC_ALIGN_ERROR
  | SIM_UNALIGNED_LOAD
  | SIM_UNALIGNED_STORE

datatype PrivLevel = USER | SUPERVISOR | MACHINE

definition INSTR_CODE_SIZE :: "64 word" where
  "INSTR_CODE_SIZE = 4"

text \<open>\<open>to_underlying(SimStatus)\<close>: enumerators are numbered from 0 in their order.\<close>

primrec to_underlying :: "SimStatus \<Rightarrow> 32 word" where
  "to_underlying OK = 0"
| "to_underlying CSR_NOT_SUPPORTED = 1"
| "to_underlying PHYS_MEM_PAGE_ALIGN_ERROR = 2"
| "to_underlying PHYS_MEM_ACCESS_FAULT = 3"
| "to_underlying MMU64_PAGE_FAULT = 4"
| "to_underlying MAPPER_ALREADY_MAPPED = 5"
| "to_underlying MAPPER_TABLE_REGION_END = 6"
| "to_underlying MAPPER_TABLE_REGION_PAGE_MAPPED = 7"
| "to_underlying SIM_EXIT = 8"
| "to_underlying SIM_NOT_IMPLEMENTED_INSTR = 9"
| "to_underlying SIM_PC_ALIGN_ERROR = 10"
| "to_underlying SIM_UNALIGNED_LOAD = 11"
| "to_underlying SIM_UNALIGNED_STORE = 12"

definition SimStatus_list :: "SimStatus list" where
  "SimStatus_list =
     [OK, CSR_NOT_SUPPORTED, PHYS_MEM_PAGE_ALIGN_ERROR, PHYS_MEM_ACCESS_FAULT,
      MMU64_PAGE_FAULT, MAPPER_ALREADY_MAPPED, MAPPER_TABLE_REGION_END,
      MAPPER_TABLE_REGION_PAGE_MAPPED, SIM_EXIT, SIM_NOT_IMPLEMENTED_INSTR,
      SIM_PC_ALIGN_ERROR, SIM_UNALIGNED_LOAD, SIM_UNALIGNED_STORE]"

text \<open>\<open>static_cast<SimStatus>(code)\<close>, where \<open>code\<close> names an enumerator.\<close>

definition SimStatus_of_code :: "32 word \<Rightarrow> SimStatus res" where
  "SimStatus_of_code code =
     (case find (\<lambda>s. to_underlying s = code) SimStatus_list of
        Some s \<Rightarrow> Inr s | None \<Rightarrow> Inl BadEnum)"

lemma SimStatus_of_code_to_underlying [simp]: "SimStatus_of_code (to_underlying s) = Inr s"
  by (cases s) (simp_all add: SimStatus_of_code_def SimStatus_list_def)

section \<open>Namespace bit\<close>

definition onesMask :: "'a::len word" where
  "onesMask = - 1"

definition bitSize :: "'a::len itself \<Rightarrow> nat" where
  "bitSize _ = (LENGTH('a) div 8) * 8"

definition signExtend :: "nat \<Rightarrow> 'a::len word \<Rightarrow> 'a word res" where
  "signExtend sign_idx value =
     bindR (SIM_ASSERT (sign_idx < LENGTH('a))) (\<lambda>_.
       if sign_idx = LENGTH('a) - 1 then Inr value
       else
         let value = value AND (push_bit (sign_idx + 1) 1 - 1);
             sign_mask = push_bit sign_idx 1
         in Inr ((value XOR sign_mask) - sign_mask))"

text \<open>
  \<open>value << left_shift >> (left_shift + lo)\<close>. A type narrower than \<open>int\<close> is promoted to the
  32-bit \<open>int\<close> before the shifts, which therefore do not drop the bits above the type's width;
  the value is non-negative and below \<open>2 ^ 31\<close> after the left shift, so the arithmetic right
  shift is the logical one. The result is converted back to \<open>UInt\<close>.
\<close>

definition shift_field :: "nat \<Rightarrow> nat \<Rightarrow> 'a::len word \<Rightarrow> 'a word" where
  "shift_field left_shift lo value =
     (if LENGTH('a) < 32
      then ucast (drop_bit (left_shift + lo) (push_bit left_shift (ucast value :: 32 word)))
      else drop_bit (left_shift + lo) (push_bit left_shift value))"

definition getBitField :: "nat \<Rightarrow> nat \<Rightarrow> 'a::len word \<Rightarrow> 'a word res" where
  "getBitField hi lo value =
     bindR (SIM_ASSERT (LENGTH('a) > hi)) (\<lambda>_.
     bindR (SIM_ASSERT (hi \<ge> lo)) (\<lambda>_.
       let left_shift = LENGTH('a) - hi - 1
       in Inr (shift_field left_shift lo value)))"

definition setBitField :: "nat \<Rightarrow> nat \<Rightarrow> 'a::len word \<Rightarrow> 'a word \<Rightarrow> 'a word res" where
  "setBitField hi lo value bit_field =
     bindR (SIM_ASSERT (LENGTH('a) > hi)) (\<lambda>_.
     bindR (SIM_ASSERT (hi \<ge> lo)) (\<lambda>_.
       let hi_shift = (if hi + 1 = LENGTH('a) then 0 else push_bit (hi + 1) 1);
           bit_field_mask = hi_shift - push_bit lo 1;
           bit_field = push_bit lo bit_field AND bit_field_mask
       in Inr ((value AND NOT bit_field_mask) OR bit_field)))"

definition maskBits :: "nat \<Rightarrow> nat \<Rightarrow> 'a::len word \<Rightarrow> 'a word res" where
  "maskBits hi lo value =
     bindR (SIM_ASSERT (LENGTH('a) > hi)) (\<lambda>_.
     bindR (SIM_ASSERT (hi \<ge> lo)) (\<lambda>_.
     bindR (getBitField hi lo value) (\<lambda>f. Inr (push_bit lo f))))"

section \<open>What the helpers compute\<close>

lemma shift_field_wide:
  assumes "32 \<le> LENGTH('a)" and "hi < LENGTH('a)" and "lo \<le> hi"
  shows "shift_field (LENGTH('a) - hi - 1) lo (v :: 'a::len word) = field hi lo v"
  using assms by (intro bit_word_eqI) (auto simp: shift_field_def bit_simps)

lemma getBitField_wide [simp]:
  assumes "32 \<le> LENGTH('a)" and "hi < LENGTH('a)" and "lo \<le> hi"
  shows "getBitField hi lo (v :: 'a::len word) = Inr (field hi lo v)"
  using assms shift_field_wide [OF assms, of v] by (simp add: getBitField_def)

text \<open>On a type narrower than \<open>int\<close> the upper index has no effect: nothing is cut off.\<close>

lemma getBitField_narrow:
  assumes "LENGTH('a) \<le> 16" and "hi < LENGTH('a)" and "lo \<le> hi"
  shows "getBitField hi lo (v :: 'a::len word) = Inr (drop_bit lo v)"
proof -
  have "shift_field (LENGTH('a) - hi - 1) lo v = drop_bit lo v"
    using assms by (intro bit_word_eqI) (auto simp: shift_field_def bit_simps)
  then show ?thesis using assms by (simp add: getBitField_def)
qed

lemma getBitField_abort:
  "LENGTH('a) \<le> hi \<or> hi < lo \<Longrightarrow> getBitField hi lo (v :: 'a::len word) = Inl AssertFailed"
  by (auto simp: getBitField_def SIM_ASSERT_def)

lemma push_bit_minus_one_mask: "push_bit n (1 :: 'a::len word) - 1 = mask n"
  by (simp add: mask_eq_exp_minus_1 push_bit_of_1)

lemma field_mask_eq:
  assumes "hi < LENGTH('a)" and "lo \<le> hi"
  shows "(if hi + 1 = LENGTH('a) then 0 else push_bit (hi + 1) 1) - push_bit lo 1
         = (mask (hi + 1) AND NOT (mask lo) :: 'a::len word)"
proof -
  have "mask (hi + 1) AND NOT (mask lo) = (mask (hi + 1) - mask lo :: 'a word)"
  proof -
    have "mask (hi + 1) = (mask (hi + 1) AND NOT (mask lo)) + (mask lo :: 'a word)"
      using assms by (subst disjunctive_add) (auto simp: bit_simps intro!: bit_word_eqI)
    then show ?thesis by (metis add_diff_cancel_right')
  qed
  moreover have "(if hi + 1 = LENGTH('a) then 0 else push_bit (hi + 1) 1) = (2 ^ (hi + 1) :: 'a word)"
    by (auto simp: push_bit_of_1 exp_eq_zero_iff simp del: power_Suc)
  ultimately show ?thesis
    by (simp add: mask_eq_exp_minus_1 push_bit_of_1)
qed

definition put_field :: "nat \<Rightarrow> nat \<Rightarrow> 'a::len word \<Rightarrow> 'a word \<Rightarrow> 'a word" where
  "put_field hi lo v f =
     (let m = mask (hi + 1) AND NOT (mask lo) in (v AND NOT m) OR (push_bit lo f AND m))"

lemma bit_put_field_iff [bit_simps]:
  "bit (put_field hi lo v f) n \<longleftrightarrow>
     n < LENGTH('a) \<and> (if lo \<le> n \<and> n \<le> hi then bit f (n - lo) else bit (v :: 'a::len word) n)"
  by (auto simp: put_field_def Let_def bit_simps)

lemma setBitField_ok [simp]:
  assumes "hi < LENGTH('a)" and "lo \<le> hi"
  shows "setBitField hi lo v f = Inr (put_field hi lo v (f :: 'a::len word))"
  using assms unfolding setBitField_def Let_def put_field_def field_mask_eq [OF assms]
  by simp

lemma field_put_field [simp]:
  assumes "hi < LENGTH('a)" and "lo \<le> hi"
  shows "field hi lo (put_field hi lo v (f :: 'a::len word)) = take_bit (hi + 1 - lo) f"
  using assms by (intro bit_word_eqI) (auto simp: bit_simps)

lemma field_put_field_other [simp]:
  assumes "hi < lo' \<or> hi' < lo"
  shows "field hi lo (put_field hi' lo' v (f :: 'a::len word)) = field hi lo v"
  using assms by (intro bit_word_eqI) (auto simp: bit_simps dest: bit_imp_le_length)

text \<open>
  \<open>(x ^ m) - m\<close> with \<open>m\<close> the sign bit: bits above the sign bit become copies of it, bits
  below stay.
\<close>

lemma xor_minus_sign_mask:
  fixes v :: "'a::len word"
  assumes "n < LENGTH('a)"
  shows "(take_bit (Suc n) v XOR 2 ^ n) - 2 ^ n = signed_take_bit n v"
proof (cases "bit v n")
  case True
  have "take_bit (Suc n) v XOR 2 ^ n = take_bit n v"
    using True assms by (intro bit_word_eqI) (auto simp: bit_simps less_Suc_eq)
  moreover have "signed_take_bit n v = take_bit n v OR NOT (mask n)"
    using True by (intro bit_word_eqI) (auto simp: bit_simps min_def)
  moreover have "take_bit n v OR NOT (mask n) = take_bit n v + NOT (mask n)"
    by (subst disjunctive_add) (auto simp: bit_simps)
  moreover have "NOT (mask n) = (- (2 ^ n) :: 'a word)"
    by (simp add: minus_exp_eq_not_mask)
  ultimately show ?thesis by simp
next
  case False
  have "take_bit (Suc n) v XOR 2 ^ n = take_bit n v OR 2 ^ n"
    using False assms by (intro bit_word_eqI) (auto simp: bit_simps less_Suc_eq)
  moreover have "take_bit n v OR 2 ^ n = take_bit n v + 2 ^ n"
    by (subst disjunctive_add) (auto simp: bit_simps)
  moreover have "signed_take_bit n v = take_bit n v"
    using False by (intro bit_word_eqI) (auto simp: bit_simps min_def)
  ultimately show ?thesis by simp
qed

lemma signExtend_ok [simp]:
  assumes "sign_idx < LENGTH('a)"
  shows "signExtend sign_idx (v :: 'a::len word) = Inr (signed_take_bit sign_idx v)"
proof (cases "sign_idx = LENGTH('a) - 1")
  case True
  have "signed_take_bit sign_idx v = v"
  proof (rule bit_word_eqI)
    fix n
    assume "n < LENGTH('a)"
    with True have "min sign_idx n = n" by arith
    then show "bit (signed_take_bit sign_idx v) n = bit v n"
      using assms \<open>n < LENGTH('a)\<close> by (simp add: bit_simps)
  qed
  with True assms show ?thesis by (simp add: signExtend_def)
next
  case False
  have "v AND (push_bit (sign_idx + 1) 1 - 1) = take_bit (Suc sign_idx) v"
    by (simp only: push_bit_minus_one_mask take_bit_eq_mask Suc_eq_plus1)
  with False assms xor_minus_sign_mask [OF assms, of v] show ?thesis
    by (simp add: signExtend_def push_bit_of_1)
qed

lemma maskBits_wide [simp]:
  assumes "32 \<le> LENGTH('a)" and "hi < LENGTH('a)" and "lo \<le> hi"
  shows "maskBits hi lo (v :: 'a::len word) = Inr (v AND (mask (hi + 1) AND NOT (mask lo)))"
  using assms by (auto simp: maskBits_def bit_simps intro!: bit_word_eqI)

lemma maskBits_narrow:
  assumes "LENGTH('a) \<le> 16" and "hi < LENGTH('a)" and "lo \<le> hi"
  shows "maskBits hi lo (v :: 'a::len word) = Inr (v AND NOT (mask lo))"
  using assms by (auto simp: maskBits_def getBitField_narrow bit_simps intro!: bit_word_eqI)

end
