(* ===== verification/Gpr.thy ===== *)
theory Gpr
  imports Common
begin

text \<open>
  \<^verbatim>\<open>gpr/include/sim/gpr.hpp\<close>: the general purpose register file. \<open>m_gpr\<close> is the
  \<open>std::array\<close> of 32 registers; \<open>read\<close> is a template over the integer type the register is
  converted to, here the result word length (a signed type of the same width has the same
  bits; the conversions back are written where they happen).
\<close>

definition GPR_NUMBER :: nat where
  "GPR_NUMBER = 32"

text \<open>The enumerators of \<open>GPR_IDX\<close> with their values, and the ones the program uses by name.\<close>

definition GPR_IDX :: "(string \<times> nat) list" where
  "GPR_IDX =
    [(''ZERO'', 0), (''RA'', 1), (''SP'', 2), (''GP'', 3), (''TP'', 4), (''T0'', 5), (''T1'', 6), (''T2'', 7),
     (''S0'', 8), (''S1'', 9), (''A0'', 10), (''A1'', 11), (''A2'', 12), (''A3'', 13), (''A4'', 14), (''A5'', 15),
     (''A6'', 16), (''A7'', 17), (''S2'', 18), (''S3'', 19), (''S4'', 20), (''S5'', 21), (''S6'', 22), (''S7'', 23),
     (''S8'', 24), (''S9'', 25), (''S10'', 26), (''S11'', 27), (''T3'', 28), (''T4'', 29), (''T5'', 30), (''T6'', 31)]"

definition ZERO :: nat where "ZERO = 0"

definition SP :: nat where "SP = 2"

text \<open>Every register has exactly one name.\<close>

lemma GPR_IDX_names: "distinct (map fst GPR_IDX)" "map snd GPR_IDX = [0..<GPR_NUMBER]"
  "map_of GPR_IDX ''ZERO'' = Some ZERO" "map_of GPR_IDX ''SP'' = Some SP"
  by (simp_all add: GPR_IDX_def GPR_NUMBER_def ZERO_def SP_def upt_rec)

record GPRFile =
  m_gpr :: "RegValue list"

definition GPRFile_init :: GPRFile where
  "GPRFile_init = \<lparr>m_gpr = replicate GPR_NUMBER 0\<rparr>"

definition GPRFile_write :: "nat \<Rightarrow> RegValue \<Rightarrow> GPRFile \<Rightarrow> GPRFile res" where
  "GPRFile_write idx value g =
     bindR (SIM_ASSERT (idx < GPR_NUMBER)) (\<lambda>_.
       let g = g\<lparr>m_gpr := (m_gpr g)[idx := value]\<rparr>;
           g = g\<lparr>m_gpr := (m_gpr g)[ZERO := 0]\<rparr>
       in Inr g)"

definition GPRFile_read :: "nat \<Rightarrow> GPRFile \<Rightarrow> 'a::len word res" where
  "GPRFile_read idx g =
     bindR (SIM_ASSERT (idx < GPR_NUMBER)) (\<lambda>_. Inr (ucast (m_gpr g ! idx)))"

definition gpr_inv :: "GPRFile \<Rightarrow> bool" where
  "gpr_inv g \<longleftrightarrow> length (m_gpr g) = GPR_NUMBER \<and> m_gpr g ! ZERO = 0"

section \<open>The contract of a register file\<close>

text \<open>
  What the instruction handlers rely on: registers below the count can be read and written,
  register 0 reads as 0, a write is seen by reads of that register and of no other one.
\<close>

locale register_file =
  fixes inv :: "'f \<Rightarrow> bool"
    and rd :: "nat \<Rightarrow> 'f \<Rightarrow> 'v::zero res"
    and wr :: "nat \<Rightarrow> 'v \<Rightarrow> 'f \<Rightarrow> 'f res"
    and count :: nat
  assumes rd_total: "inv f \<Longrightarrow> i < count \<Longrightarrow> \<exists>v. rd i f = Inr v"
    and rd_zero: "inv f \<Longrightarrow> rd 0 f = Inr 0"
    and wr_total: "inv f \<Longrightarrow> i < count \<Longrightarrow> \<exists>f'. wr i v f = Inr f'"
    and wr_inv: "inv f \<Longrightarrow> wr i v f = Inr f' \<Longrightarrow> inv f'"
    and rd_wr_same: "inv f \<Longrightarrow> 0 < i \<Longrightarrow> wr i v f = Inr f' \<Longrightarrow> rd i f' = Inr v"
    and rd_wr_other: "inv f \<Longrightarrow> i \<noteq> j \<Longrightarrow> wr i v f = Inr f' \<Longrightarrow> rd j f' = rd j f"
    and out_of_range: "count \<le> i \<Longrightarrow> wr i v f = Inl AssertFailed \<and> rd i f = Inl AssertFailed"
begin

lemma rd_wr:
  assumes "inv f" and "wr i v f = Inr f'"
  shows "rd j f' = (if j = 0 then Inr 0 else if j = i then Inr v else rd j f)"
  using assms wr_inv rd_zero rd_wr_same rd_wr_other [OF assms(1) _ assms(2)] by auto

text \<open>The destination register 0 discards a result: every register reads as before.\<close>

lemma wr_zero_discards:
  assumes "inv f" and "wr 0 v f = Inr f'"
  shows "rd j f' = rd j f"
  using assms rd_wr [OF assms] rd_zero by simp

text \<open>Of two writes to the same register the second one counts.\<close>

lemma rd_wr_wr:
  assumes "inv f" and "wr i v f = Inr f'" and "wr i w f' = Inr f''"
  shows "rd j f'' = (if j = 0 then Inr 0 else if j = i then Inr w else rd j f)"
  using rd_wr [OF assms(1,2)] rd_wr [OF wr_inv [OF assms(1,2)] assms(3)] by simp

end

lemma GPRFile_write_ok:
  "i < GPR_NUMBER \<Longrightarrow> GPRFile_write i v g = Inr (g\<lparr>m_gpr := (m_gpr g)[i := v, 0 := 0]\<rparr>)"
  by (simp add: GPRFile_write_def ZERO_def)

lemma GPRFile_write_Inr_iff:
  "GPRFile_write i v g = Inr g' \<longleftrightarrow>
     i < GPR_NUMBER \<and> g' = g\<lparr>m_gpr := (m_gpr g)[i := v, 0 := 0]\<rparr>"
  by (auto simp: GPRFile_write_def ZERO_def)

lemma GPRFile_read_ok:
  "i < GPR_NUMBER \<Longrightarrow> GPRFile_read i g = Inr (ucast (m_gpr g ! i))"
  by (simp add: GPRFile_read_def)

lemma gpr_inv_init [simp]: "gpr_inv GPRFile_init"
  by (simp add: gpr_inv_def GPRFile_init_def GPR_NUMBER_def ZERO_def)

lemma GPRFile_out_of_range:
  "GPR_NUMBER \<le> i \<Longrightarrow> GPRFile_write i v g = Inl AssertFailed \<and> GPRFile_read i g = Inl AssertFailed"
  by (simp add: GPRFile_write_def GPRFile_read_def SIM_ASSERT_def)

interpretation gpr: register_file gpr_inv "GPRFile_read :: nat \<Rightarrow> GPRFile \<Rightarrow> RegValue res"
    GPRFile_write GPR_NUMBER
  by unfold_locales
    (auto simp: gpr_inv_def GPRFile_write_Inr_iff GPRFile_read_def SIM_ASSERT_def ZERO_def
       GPR_NUMBER_def GPRFile_out_of_range nth_list_update)

text \<open>
  C32: after a register write, reading any register at any integer width gives the truncation
  of the written value for that register, 0 for register 0 and the old value elsewhere; the
  write itself succeeds exactly for indices below 32.
\<close>

theorem gpr_read_after_write:
  assumes "gpr_inv g" and "i < 32" and "j < 32"
  shows "\<exists>g'. GPRFile_write i v g = Inr g' \<and> gpr_inv g' \<and>
     GPRFile_read j g' = Inr (ucast (if j = 0 then 0 else if j = i then v else m_gpr g ! j) :: 'a::len word) \<and>
     (\<forall>k. GPRFile_write k v g = Inl AssertFailed \<longleftrightarrow> 32 \<le> k)"
proof -
  from assms obtain g' where g': "GPRFile_write i v g = Inr g'"
    using gpr.wr_total [OF assms(1), of i v] by (auto simp: GPR_NUMBER_def)
  have "GPRFile_read j g' = Inr (if j = 0 then 0 else if j = i then v else m_gpr g ! j)"
    using gpr.rd_wr [OF assms(1) g', of j] assms
    by (auto simp: GPRFile_read_ok GPR_NUMBER_def)
  then show ?thesis
    using g' gpr.wr_inv [OF assms(1) g'] assms
    by (auto simp: GPRFile_read_ok GPRFile_write_def SIM_ASSERT_def GPR_NUMBER_def)
qed

end
