(* ===== verification/Csr.thy ===== *)
theory Csr
  imports Common
begin

text \<open>
  \<^verbatim>\<open>csr/include/sim/csr.hpp\<close>, \<^verbatim>\<open>csr/src/csr.cpp\<close> and the two register classes that
  \<^verbatim>\<open>csr/gen_csr_value.py\<close> generates from \<^verbatim>\<open>csr/csr.yaml\<close>: \<open>SATP64\<close> (fields \<open>mode\<close> at
  [63, 60] with the enumeration \<open>MODEValue\<close>, \<open>asid\<close> at [59, 44], \<open>ppn\<close> at [43, 0]) and
  \<open>MSTATUS64\<close> (\<open>sum\<close> at bit 18, \<open>mxr\<close> at bit 19). The bodies below are the generator's
  templates (\<open>gen_set_value\<close>, \<open>gen_get_value\<close>, \<open>gen_is_legal\<close>) filled in with those fields,
  in the order of the description.
\<close>

section \<open>CSR indices\<close>

type_synonym CSRIdx = "16 word"

definition CSRIdx_MSTATUS :: CSRIdx where "CSRIdx_MSTATUS = 0x300"

definition CSRIdx_SATP :: CSRIdx where "CSRIdx_SATP = 0x180"

definition isCSRWritable :: "CSRIdx \<Rightarrow> bool res" where
  "isCSRWritable idx =
     bindR (getBitField 11 10 idx) (\<lambda>f.
       let READ_ONLY_CODE = 3 in Inr (f = READ_ONLY_CODE))"

definition PrivLevel_of_code :: "16 word \<Rightarrow> PrivLevel res" where
  "PrivLevel_of_code c =
     (if c = 0 then Inr USER else if c = 1 then Inr SUPERVISOR
      else if c = 3 then Inr MACHINE else Inl BadEnum)"

definition getCSRPrivLevel :: "CSRIdx \<Rightarrow> PrivLevel res" where
  "getCSRPrivLevel idx =
     bindR (getBitField 9 8 idx) (\<lambda>raw_priv_level.
       let HYPERVISOR_CODE = 2 in
       if raw_priv_level = HYPERVISOR_CODE then Inr MACHINE
       else PrivLevel_of_code raw_priv_level)"

section \<open>The generated register classes\<close>

datatype MODEValue = BARE | SV39 | SV48 | SV57

definition MODEValue_of_raw :: "8 word \<Rightarrow> MODEValue res" where
  "MODEValue_of_raw r =
     (if r = 0 then Inr BARE else if r = 8 then Inr SV39
      else if r = 9 then Inr SV48 else if r = 10 then Inr SV57 else Inl BadEnum)"

primrec raw_of_MODEValue :: "MODEValue \<Rightarrow> 8 word" where
  "raw_of_MODEValue BARE = 0"
| "raw_of_MODEValue SV39 = 8"
| "raw_of_MODEValue SV48 = 9"
| "raw_of_MODEValue SV57 = 10"

definition isMODELegal :: "8 word \<Rightarrow> bool" where
  "isMODELegal raw_value \<longleftrightarrow>
     raw_value = 0 \<or> raw_value = 8 \<or> raw_value = 9 \<or> raw_value = 10"

record SATP64 =
  m_mode :: MODEValue
  m_asid :: "16 word"
  m_ppn :: "64 word"

definition SATP64_setValue :: "64 word \<Rightarrow> SATP64 \<Rightarrow> SATP64 res" where
  "SATP64_setValue raw_value v =
     bindR (getBitField 63 60 raw_value) (\<lambda>raw_mode_value.
     let raw_mode_value = (if \<not> isMODELegal (ucast raw_mode_value) then 0 else raw_mode_value) in
     bindR (MODEValue_of_raw (ucast raw_mode_value)) (\<lambda>mode.
     let v = v\<lparr>m_mode := mode\<rparr> in
     bindR (getBitField 59 44 raw_value) (\<lambda>asid.
     let v = v\<lparr>m_asid := ucast asid\<rparr> in
     bindR (getBitField 43 0 raw_value) (\<lambda>ppn.
     Inr (v\<lparr>m_ppn := ppn\<rparr>)))))"

text \<open>The constructor: the fields' defaults, then \<open>setValue\<close>.\<close>

definition SATP64_new :: "64 word \<Rightarrow> SATP64 res" where
  "SATP64_new raw_value = SATP64_setValue raw_value \<lparr>m_mode = BARE, m_asid = 0, m_ppn = 0\<rparr>"

definition SATP64_getValue :: "SATP64 \<Rightarrow> 64 word res" where
  "SATP64_getValue v =
     bindR (setBitField 63 60 0 (ucast (raw_of_MODEValue (m_mode v)))) (\<lambda>value.
     bindR (setBitField 59 44 value (ucast (m_asid v))) (\<lambda>value.
     setBitField 43 0 value (m_ppn v)))"

definition SATP64_setMODE :: "MODEValue \<Rightarrow> SATP64 \<Rightarrow> SATP64" where
  "SATP64_setMODE value v = v\<lparr>m_mode := value\<rparr>"

definition SATP64_setPPN :: "64 word \<Rightarrow> SATP64 \<Rightarrow> SATP64" where
  "SATP64_setPPN value v = v\<lparr>m_ppn := value\<rparr>"

record MSTATUS64 =
  m_sum :: "8 word"
  m_mxr :: "8 word"

definition MSTATUS64_setValue :: "64 word \<Rightarrow> MSTATUS64 \<Rightarrow> MSTATUS64 res" where
  "MSTATUS64_setValue raw_value v =
     bindR (getBitField 18 18 raw_value) (\<lambda>sum.
     let v = v\<lparr>m_sum := ucast sum\<rparr> in
     bindR (getBitField 19 19 raw_value) (\<lambda>mxr.
     Inr (v\<lparr>m_mxr := ucast mxr\<rparr>)))"

definition MSTATUS64_new :: "64 word \<Rightarrow> MSTATUS64 res" where
  "MSTATUS64_new raw_value = MSTATUS64_setValue raw_value \<lparr>m_sum = 0, m_mxr = 0\<rparr>"

definition MSTATUS64_getValue :: "MSTATUS64 \<Rightarrow> 64 word res" where
  "MSTATUS64_getValue v =
     bindR (setBitField 18 18 0 (ucast (m_sum v))) (\<lambda>value.
     setBitField 19 19 value (ucast (m_mxr v)))"

section \<open>CSRFile\<close>

record CSRFile =
  m_satp64 :: SATP64
  m_mstatus64 :: MSTATUS64

definition CSRFile_init :: CSRFile where
  "CSRFile_init = \<lparr>m_satp64 = \<lparr>m_mode = BARE, m_asid = 0, m_ppn = 0\<rparr>,
                   m_mstatus64 = \<lparr>m_sum = 0, m_mxr = 0\<rparr>\<rparr>"

definition CSRFile_set_satp :: "SATP64 \<Rightarrow> CSRFile \<Rightarrow> CSRFile" where
  "CSRFile_set_satp value c = c\<lparr>m_satp64 := value\<rparr>"

definition CSRFile_set_mstatus :: "MSTATUS64 \<Rightarrow> CSRFile \<Rightarrow> CSRFile" where
  "CSRFile_set_mstatus value c = c\<lparr>m_mstatus64 := value\<rparr>"

text \<open>The out parameter \<open>dst\<close> is passed in and returned; an error leaves it as it was.\<close>

definition CSRFile_read :: "CSRIdx \<Rightarrow> 64 word \<Rightarrow> CSRFile \<Rightarrow> (SimStatus \<times> 64 word) res" where
  "CSRFile_read idx dst c =
     (if idx = CSRIdx_SATP then
        bindR (SATP64_getValue (m_satp64 c)) (\<lambda>dst. Inr (OK, dst))
      else if idx = CSRIdx_MSTATUS then
        bindR (MSTATUS64_getValue (m_mstatus64 c)) (\<lambda>dst. Inr (OK, dst))
      else Inr (CSR_NOT_SUPPORTED, dst))"

definition CSRFile_write :: "CSRIdx \<Rightarrow> 64 word \<Rightarrow> CSRFile \<Rightarrow> (SimStatus \<times> CSRFile) res" where
  "CSRFile_write idx value c =
     (if idx = CSRIdx_SATP then
        bindR (SATP64_new value) (\<lambda>v. Inr (OK, CSRFile_set_satp v c))
      else if idx = CSRIdx_MSTATUS then
        bindR (MSTATUS64_new value) (\<lambda>v. Inr (OK, CSRFile_set_mstatus v c))
      else Inr (CSR_NOT_SUPPORTED, c))"

section \<open>The contract of a register class\<close>

text \<open>
  A register class turns any raw value into a legal register value (write any, read legal),
  and its legal values survive a round trip through the raw form.
\<close>

locale csr_class =
  fixes of_raw :: "64 word \<Rightarrow> 'v res"
    and to_raw :: "'v \<Rightarrow> 64 word res"
    and legal :: "'v \<Rightarrow> bool"
  assumes of_raw_total: "\<exists>v. of_raw r = Inr v \<and> legal v"
    and of_raw_to_raw: "legal v \<Longrightarrow> \<exists>r. to_raw v = Inr r \<and> of_raw r = Inr v"
begin

lemma write_read_stable:
  "\<exists>v r'. of_raw r = Inr v \<and> to_raw v = Inr r' \<and> of_raw r' = Inr v"
  using of_raw_total [of r] of_raw_to_raw by blast

lemma to_raw_inj:
  assumes "legal v" and "legal w" and "to_raw v = to_raw w"
  shows "v = w"
  using of_raw_to_raw [OF assms(1)] of_raw_to_raw [OF assms(2)] assms(3) by auto

end

definition satp_legal :: "SATP64 \<Rightarrow> bool" where
  "satp_legal v \<longleftrightarrow> take_bit 44 (m_ppn v) = m_ppn v"

definition mstatus_legal :: "MSTATUS64 \<Rightarrow> bool" where
  "mstatus_legal v \<longleftrightarrow> take_bit 1 (m_sum v) = m_sum v \<and> take_bit 1 (m_mxr v) = m_mxr v"

lemma MODEValue_of_raw_legal [simp]:
  "MODEValue_of_raw (raw_of_MODEValue m) = Inr m" "isMODELegal (raw_of_MODEValue m)"
  by (cases m; simp add: MODEValue_of_raw_def isMODELegal_def)+

lemma MODEValue_of_raw_total:
  "\<exists>m. MODEValue_of_raw (ucast (if \<not> isMODELegal (ucast r) then 0 else (r :: 64 word))) = Inr m"
  by (auto simp: MODEValue_of_raw_def isMODELegal_def)

lemma ucast_take_bit_ucast:
  fixes w :: "'b::len word"
  assumes "LENGTH('b) \<le> LENGTH('a)" and "take_bit n w = w"
  shows "ucast (take_bit n (ucast w :: 'a::len word)) = w"
proof -
  have "bit w m = bit (take_bit n w) m" for m using assms(2) by simp
  then show ?thesis
    using assms(1) by (intro bit_word_eqI) (auto simp: bit_simps dest: bit_imp_le_length)
qed

lemma take_bit_field [simp]: "hi + 1 - lo \<le> n \<Longrightarrow> take_bit n (field hi lo w) = field hi lo w"
  by (simp add: field_def min_absorb2)

lemma take_bit_ucast_field:
  "hi + 1 - lo \<le> n \<Longrightarrow> take_bit n (ucast (field hi lo w) :: 'b::len word) = ucast (field hi lo w)"
  by (intro bit_word_eqI) (auto simp: bit_simps)

lemma SATP64_new_ok:
  "\<exists>m. SATP64_new r = Inr \<lparr>m_mode = m, m_asid = ucast (field 59 44 r), m_ppn = field 43 0 r\<rparr> \<and>
       MODEValue_of_raw (ucast (if \<not> isMODELegal (ucast (field 63 60 r)) then 0 else field 63 60 r))
       = Inr m"
  using MODEValue_of_raw_total [of "field 63 60 r"]
  by (auto simp: SATP64_new_def SATP64_setValue_def Let_def)

lemma SATP64_getValue_ok:
  "SATP64_getValue v =
     Inr (put_field 43 0 (put_field 59 44 (put_field 63 60 0 (ucast (raw_of_MODEValue (m_mode v))))
            (ucast (m_asid v))) (m_ppn v))"
  by (simp add: SATP64_getValue_def)

lemma mode_field_roundtrip:
  "ucast (take_bit 4 (ucast (raw_of_MODEValue m) :: 64 word)) = raw_of_MODEValue m"
  by (rule ucast_take_bit_ucast) (cases m; simp)+

interpretation satp_csr: csr_class SATP64_new SATP64_getValue satp_legal
proof
  show "\<exists>v. SATP64_new r = Inr v \<and> satp_legal v" for r
    using SATP64_new_ok [of r] by (auto simp: satp_legal_def)
next
  fix v assume legal: "satp_legal v"
  show "\<exists>r. SATP64_getValue v = Inr r \<and> SATP64_new r = Inr v"
    using legal SATP64_new_ok [of "put_field 43 0 (put_field 59 44 (put_field 63 60 0
      (ucast (raw_of_MODEValue (m_mode v)))) (ucast (m_asid v))) (m_ppn v)"]
    by (auto simp: SATP64_getValue_ok mode_field_roundtrip satp_legal_def
        ucast_take_bit_ucast [of 16 "m_asid v"] take_bit_word_eq_self)
qed

interpretation mstatus_csr: csr_class MSTATUS64_new MSTATUS64_getValue mstatus_legal
proof
  show "\<exists>v. MSTATUS64_new r = Inr v \<and> mstatus_legal v" for r
    using take_bit_ucast_field [of 18 18 1 r, where 'b = 8]
      take_bit_ucast_field [of 19 19 1 r, where 'b = 8]
    by (auto simp: MSTATUS64_new_def MSTATUS64_setValue_def mstatus_legal_def Let_def)
next
  fix v assume "mstatus_legal v"
  then show "\<exists>r. MSTATUS64_getValue v = Inr r \<and> MSTATUS64_new r = Inr v"
    using ucast_take_bit_ucast [of 1 "m_sum v", where 'a = 64]
      ucast_take_bit_ucast [of 1 "m_mxr v", where 'a = 64]
    by (simp add: MSTATUS64_getValue_def MSTATUS64_new_def MSTATUS64_setValue_def mstatus_legal_def)
qed

text \<open>What a written value leaves: the mode field is kept or becomes 0, the other fields are kept.\<close>

lemma field_top: "field 63 60 (r :: 64 word) = drop_bit 60 r"
  by (rule bit_word_eqI) (auto simp: bit_simps dest: bit_imp_le_length)

lemma field_low: "field 43 0 (r :: 64 word) = take_bit 44 r"
  by (rule bit_word_eqI) (auto simp: bit_simps)

lemma satp_fields:
  "put_field 43 0 (put_field 59 44 (put_field 63 60 0 m) (field 59 44 r)) (field 43 0 r) = push_bit 60 m OR take_bit 60 (r :: 64 word)"
  by (rule bit_word_eqI) (auto simp: bit_simps)

lemma ucast_asid: "ucast (ucast (field 59 44 (r :: 64 word)) :: 16 word) = field 59 44 r"
  by (rule bit_word_eqI) (auto simp: bit_simps)

lemma ucast_top: "(ucast (ucast (drop_bit 60 (r :: 64 word)) :: 8 word) :: 64 word) = drop_bit 60 r"
  by (rule bit_word_eqI) (auto simp: bit_simps dest: bit_imp_le_length)

lemma word64_halves: "push_bit 60 (drop_bit 60 r) OR take_bit 60 r = (r :: 64 word)"
  by (rule bit_word_eqI) (auto simp: bit_simps)

lemma isMODELegal_top: "isMODELegal (ucast (drop_bit 60 (r :: 64 word))) \<longleftrightarrow> drop_bit 60 r \<in> {0, 8, 9, 10}"
proof -
  have "(ucast (drop_bit 60 r) :: 8 word) = ucast k \<longleftrightarrow> drop_bit 60 r = k" if "ucast (ucast k :: 8 word) = k" for k :: "64 word"
    using that ucast_top [of r] by metis
  from this [of 0] this [of 8] this [of 9] this [of 10] show ?thesis by (simp add: isMODELegal_def)
qed

lemma MODEValue_of_raw_inv: "MODEValue_of_raw r = Inr m \<Longrightarrow> raw_of_MODEValue m = r"
  by (auto simp: MODEValue_of_raw_def split: if_splits)

lemma satp_write_read:
  assumes "SATP64_new value = Inr v"
  shows "SATP64_getValue v = Inr (if drop_bit 60 value \<in> {0, 8, 9, 10} then value else take_bit 60 value)"
    and "m_asid v = ucast (drop_bit 44 value)" and "m_ppn v = take_bit 44 value"
    and "raw_of_MODEValue (m_mode v) = ucast (if drop_bit 60 value \<in> {0, 8, 9, 10} then drop_bit 60 value else 0)"
proof -
  obtain m where m: "v = \<lparr>m_mode = m, m_asid = ucast (field 59 44 value), m_ppn = field 43 0 value\<rparr>"
    "MODEValue_of_raw (ucast (if \<not> isMODELegal (ucast (field 63 60 value)) then 0 else field 63 60 value)) = Inr m"
    using SATP64_new_ok [of "value"] assms by auto
  have raw: "raw_of_MODEValue m = ucast (if drop_bit 60 value \<in> {0, 8, 9, 10} then drop_bit 60 value else 0)"
    using MODEValue_of_raw_inv [OF m(2)] by (simp add: field_top isMODELegal_top if_distrib)
  then have "ucast (raw_of_MODEValue m) = (if drop_bit 60 value \<in> {0, 8, 9, 10} then drop_bit 60 value else 0)"
    by (simp add: ucast_top)
  then show "SATP64_getValue v = Inr (if drop_bit 60 value \<in> {0, 8, 9, 10} then value else take_bit 60 value)"
    using word64_halves [of "value"] by (simp add: SATP64_getValue_ok m(1) ucast_asid satp_fields)
  show "m_asid v = ucast (drop_bit 44 value)" unfolding m(1) SATP64.select_convs by (rule bit_word_eqI) (auto simp: bit_simps)
  show "m_ppn v = take_bit 44 value" by (simp add: m(1) field_low)
  show "raw_of_MODEValue (m_mode v) = ucast (if drop_bit 60 value \<in> {0, 8, 9, 10} then drop_bit 60 value else 0)"
    using raw by (simp add: m(1))
qed

lemma mstatus_write_read:
  assumes "MSTATUS64_new value = Inr v"
  shows "MSTATUS64_getValue v = Inr (value AND 0xC0000)"
    and "m_sum v = of_bool (bit value 18)" and "m_mxr v = of_bool (bit value 19)"
proof -
  have mask: "0xC0000 = (push_bit 18 (mask 2) :: 64 word)" by (simp add: mask_eq_exp_minus_1)
  have v: "v = \<lparr>m_sum = ucast (field 18 18 value), m_mxr = ucast (field 19 19 value)\<rparr>"
    using assms by (simp add: MSTATUS64_new_def MSTATUS64_setValue_def Let_def)
  have "put_field 19 19 (put_field 18 18 0 (ucast (ucast (field 18 18 value) :: 8 word))) (ucast (ucast (field 19 19 value) :: 8 word)) =
      value AND push_bit 18 (mask 2)"
    by (rule bit_word_eqI) (auto simp: bit_simps le_less_Suc_eq)
  then show "MSTATUS64_getValue v = Inr (value AND 0xC0000)" unfolding mask by (simp add: MSTATUS64_getValue_def v)
  show "m_sum v = of_bool (bit value 18)" unfolding v MSTATUS64.select_convs by (rule bit_word_eqI) (auto simp: bit_simps)
  show "m_mxr v = of_bool (bit value 19)" unfolding v MSTATUS64.select_convs by (rule bit_word_eqI) (auto simp: bit_simps)
qed

text \<open>
  C33: which value a CSR write leaves to be read. After a write of SATP the read returns the written value if its
  mode field (bits 63 to 60) is one of the legal codes 0, 8, 9 and 10, and otherwise the value with that
  field cleared; ASID and PPN are the written ones either way. After a write of MSTATUS it returns the
  bits 18 and 19 of the value. The fields that the MMU uses are those bits, the other register is as
  before, and writing the value read again changes nothing (write any, read legal). Any other index
  is refused by both operations and changes nothing.
\<close>

theorem csr_write_read_legal:
  "\<exists>s c' s' r. CSRFile_write idx value c = Inr (s, c') \<and> CSRFile_read idx dst c' = Inr (s', r) \<and>
     (if idx = 0x180
      then s = OK \<and> s' = OK \<and> r = (if drop_bit 60 value \<in> {0, 8, 9, 10} then value else take_bit 60 value) \<and>
        m_asid (m_satp64 c') = ucast (drop_bit 44 value) \<and> m_ppn (m_satp64 c') = take_bit 44 value \<and>
        raw_of_MODEValue (m_mode (m_satp64 c')) = ucast (if drop_bit 60 value \<in> {0, 8, 9, 10} then drop_bit 60 value else 0) \<and>
        m_mstatus64 c' = m_mstatus64 c \<and> CSRFile_write idx r c = Inr (OK, c')
      else if idx = 0x300
      then s = OK \<and> s' = OK \<and> r = value AND 0xC0000 \<and>
        m_sum (m_mstatus64 c') = of_bool (bit value 18) \<and> m_mxr (m_mstatus64 c') = of_bool (bit value 19) \<and>
        m_satp64 c' = m_satp64 c \<and> CSRFile_write idx r c = Inr (OK, c')
      else s = CSR_NOT_SUPPORTED \<and> s' = CSR_NOT_SUPPORTED \<and> c' = c \<and> r = dst)"
proof -
  obtain v r where v: "SATP64_new value = Inr v" "SATP64_getValue v = Inr r" "SATP64_new r = Inr v"
    using satp_csr.write_read_stable by blast
  obtain w q where w: "MSTATUS64_new value = Inr w" "MSTATUS64_getValue w = Inr q" "MSTATUS64_new q = Inr w"
    using mstatus_csr.write_read_stable by blast
  note facts = v w satp_write_read [OF v(1)] mstatus_write_read [OF w(1)]
  consider (satp) "idx = 0x180" | (mstatus) "idx = 0x300" | (other) "idx \<noteq> 0x180" "idx \<noteq> 0x300" by blast
  then show ?thesis
    by cases (use facts in \<open>simp_all add: CSRFile_write_def CSRFile_read_def CSRIdx_SATP_def CSRIdx_MSTATUS_def
        CSRFile_set_satp_def CSRFile_set_mstatus_def\<close>)
qed

text \<open>
  \<open>isCSRWritable\<close> is true exactly for the indices whose bits [11, 10] are the read-only
  code 3, so it holds of read-only CSRs and fails for the two writable ones the simulator has.
\<close>

theorem isCSRWritable_inverted:
  "take_bit 12 idx = idx \<Longrightarrow>
     isCSRWritable idx = Inr (bit idx 10 \<and> bit idx 11) \<and>
     isCSRWritable CSRIdx_MSTATUS = Inr False \<and> isCSRWritable CSRIdx_SATP = Inr False"
proof -
  assume idx: "take_bit 12 idx = idx"
  have bits: "bit idx n \<longrightarrow> n < 12" for n
    using arg_cong [OF idx, of "\<lambda>w. bit w n"] by (auto simp: bit_simps)
  have "drop_bit 10 idx = mask 2 \<longleftrightarrow> bit idx 10 \<and> bit idx 11"
  proof
    assume "drop_bit 10 idx = mask 2"
    then have "bit (drop_bit 10 idx) n = bit (mask 2 :: CSRIdx) n" for n by simp
    from this [of 0] this [of 1] show "bit idx 10 \<and> bit idx 11" by (simp add: bit_simps)
  next
    assume set: "bit idx 10 \<and> bit idx 11"
    show "drop_bit 10 idx = mask 2"
    proof (rule bit_word_eqI)
      fix n :: nat
      consider "n = 0" | "n = 1" | "2 \<le> n" by linarith
      then show "bit (drop_bit 10 idx) n = bit (mask 2 :: CSRIdx) n"
        using set bits [of "n + 10"] by cases (auto simp: bit_simps add.commute)
    qed
  qed
  moreover have "mask 2 = (3 :: CSRIdx)" by (simp add: mask_eq_exp_minus_1)
  ultimately show ?thesis
    by (simp add: isCSRWritable_def getBitField_narrow CSRIdx_MSTATUS_def CSRIdx_SATP_def Let_def)
qed

theorem isCSRWritable_inverted_witness:
  "isCSRWritable 0xC00 = Inr True \<and> isCSRWritable CSRIdx_MSTATUS = Inr False"
  using isCSRWritable_inverted [of "0xC00"] by (simp add: bit_numeral_rec)

end
