(* ===== verification/PhysMem.thy ===== *)
theory PhysMem
  imports Common
begin

text \<open>
  \<^verbatim>\<open>memory/include/sim/memory/common.hpp\<close> and \<^verbatim>\<open>memory/include/sim/memory/phys_memory.hpp\<close>:
  the host page allocator, the RAM page map and the physical memory.

  Host memory is an explicit store. A host address is a block (the region one \<open>mmap\<close> call
  returned) and a byte offset in it; pointer arithmetic stays in the block. A C++ pointer that
  may be \<^verbatim>\<open>nullptr\<close> is an \<open>option\<close>. The system call \<open>mmap\<close> is a parameter \<open>mm\<close> of the
  definitions that reach it: \<open>mm n len\<close> is the block the \<open>n\<close>-th call of an allocator returns for
  \<open>len\<close> bytes, \<open>None\<close> for \<open>MAP_FAILED\<close>. What the code relies on is \<open>mmap_contract\<close>: the
  mappings of different calls are disjoint, and a length of 0 is an error. Anonymous mappings
  are zero-filled, so the store starts as 0 everywhere.
\<close>

section \<open>Pages\<close>

definition addrAlignMask :: "'a::len itself \<Rightarrow> VirtAddr" where
  "addrAlignMask _ = of_nat (LENGTH('a) div 8) - 1"

definition PAGE_BIT_SIZE :: nat where "PAGE_BIT_SIZE = 12"

definition PAGE_SIZE :: "64 word" where "PAGE_SIZE = 4096"

definition PAGE_OFFSET_MASK :: PhysAddr where "PAGE_OFFSET_MASK = PAGE_SIZE - 1"

text \<open>The two parts of an address that the code forms with \<open>PAGE_OFFSET_MASK\<close>.\<close>

abbreviation page_offset :: "64 word \<Rightarrow> 64 word" where
  "page_offset a \<equiv> a AND PAGE_OFFSET_MASK"

abbreviation page_base :: "64 word \<Rightarrow> 64 word" where
  "page_base a \<equiv> a AND NOT PAGE_OFFSET_MASK"

section \<open>Host memory\<close>

datatype host_addr = HostAddr (ha_block: nat) (ha_off: "64 word")

type_synonym HostPtr = "host_addr option"
type_synonym host_store = "host_addr \<Rightarrow> byte"
type_synonym mmap_fn = "nat \<Rightarrow> 64 word \<Rightarrow> nat option"

definition ptr_add :: "host_addr \<Rightarrow> 64 word \<Rightarrow> host_addr" where
  "ptr_add p n = HostAddr (ha_block p) (ha_off p + n)"

text \<open>Access through a reinterpreted pointer, on a little-endian host.\<close>

fun word_of_bytes :: "byte list \<Rightarrow> 'a::len word" where
  "word_of_bytes [] = 0"
| "word_of_bytes (b # bs) = ucast b OR push_bit 8 (word_of_bytes bs)"

definition byte_of_word :: "nat \<Rightarrow> 'a::len word \<Rightarrow> byte" where
  "byte_of_word i w = ucast (drop_bit (8 * i) w)"

definition host_load :: "host_addr \<Rightarrow> host_store \<Rightarrow> 'a::len word" where
  "host_load p h = word_of_bytes (map (\<lambda>i. h (ptr_add p (of_nat i))) [0..<LENGTH('a) div 8])"

definition host_write :: "host_addr \<Rightarrow> 'a::len word \<Rightarrow> host_store \<Rightarrow> host_store" where
  "host_write p v h =
     fold (\<lambda>i h. h(ptr_add p (of_nat i) := byte_of_word i v)) [0..<LENGTH('a) div 8] h"

section \<open>Page allocator\<close>

definition mmap_contract :: "mmap_fn \<Rightarrow> bool" where
  "mmap_contract mm \<longleftrightarrow>
     (\<forall>n n' len len' b. mm n len = Some b \<and> mm n' len' = Some b \<longrightarrow> n = n') \<and>
     (\<forall>n. mm n 0 = None)"

record MMap =
  mm_ppn :: PPN
  mm_ptr :: host_addr

text \<open>The constructor maps first, then asserts, then checks \<open>MAP_FAILED\<close>.\<close>

definition MMap_new :: "mmap_fn \<Rightarrow> nat \<Rightarrow> PPN \<Rightarrow> MMap res" where
  "MMap_new mm n ppn =
     (let ptr = mm n (ppn * PAGE_SIZE) in
      bindR (SIM_ASSERT (ppn \<noteq> 0)) (\<lambda>_.
        case ptr of
          None \<Rightarrow> Inl BadAlloc
        | Some b \<Rightarrow> Inr \<lparr>mm_ppn = ppn, mm_ptr = HostAddr b 0\<rparr>))"

record PageAllocator =
  m_mmaps :: "MMap list"
  m_curr_ppn :: PPN

definition PageAllocator_new :: "mmap_fn \<Rightarrow> PPN \<Rightarrow> PageAllocator res" where
  "PageAllocator_new mm ppn =
     bindR (SIM_ASSERT (ppn \<noteq> 0)) (\<lambda>_.
     bindR (MMap_new mm 0 ppn) (\<lambda>m. Inr \<lparr>m_mmaps = [m], m_curr_ppn = 0\<rparr>))"

definition allocPage :: "mmap_fn \<Rightarrow> PageAllocator \<Rightarrow> (host_addr \<times> PageAllocator) res" where
  "allocPage mm a =
     (let ALLOC_FACTOR = 2; end_ppn = mm_ppn (last (m_mmaps a)) in
      bindR (if m_curr_ppn a = end_ppn then
               (let new_ppn = end_ppn * ALLOC_FACTOR in
                bindR (MMap_new mm (length (m_mmaps a)) new_ppn) (\<lambda>m.
                  Inr (a\<lparr>m_mmaps := m_mmaps a @ [m], m_curr_ppn := 0\<rparr>)))
             else Inr a)
        (\<lambda>a. Inr (ptr_add (mm_ptr (last (m_mmaps a))) (m_curr_ppn a * PAGE_SIZE),
                  a\<lparr>m_curr_ppn := m_curr_ppn a + 1\<rparr>)))"

section \<open>RAM\<close>

definition PPN_16MB :: PPN where "PPN_16MB = push_bit 12 1"

record RAM =
  m_page_allocator :: PageAllocator
  m_mapping :: "PhysAddr \<rightharpoonup> host_addr"

definition RAM_new :: "mmap_fn \<Rightarrow> RAM res" where
  "RAM_new mm =
     bindR (PageAllocator_new mm PPN_16MB) (\<lambda>a.
       Inr \<lparr>m_page_allocator = a, m_mapping = Map.empty\<rparr>)"

text \<open>
  \<open>try_emplace\<close> takes the page as an argument, so a page is allocated before the lookup, also
  where the key exists and nothing is inserted.
\<close>

definition addPage :: "mmap_fn \<Rightarrow> PhysAddr \<Rightarrow> RAM \<Rightarrow> (bool \<times> RAM) res" where
  "addPage mm page_pa r =
     bindR (SIM_ASSERT (page_offset page_pa = 0)) (\<lambda>_.
     bindR (allocPage mm (m_page_allocator r)) (\<lambda>(p, a).
       let r = r\<lparr>m_page_allocator := a\<rparr> in
       case m_mapping r page_pa of
         Some _ \<Rightarrow> Inr (False, r)
       | None \<Rightarrow> Inr (True, r\<lparr>m_mapping := (m_mapping r)(page_pa \<mapsto> p)\<rparr>)))"

text \<open>\<open>getHostPagePtr\<close> and \<open>getConstHostPagePtr\<close> differ in constness only.\<close>

definition getHostPagePtr :: "PhysAddr \<Rightarrow> RAM \<Rightarrow> HostPtr res" where
  "getHostPagePtr page_pa r =
     bindR (SIM_ASSERT (page_offset page_pa = 0)) (\<lambda>_. Inr (m_mapping r page_pa))"

section \<open>PhysMemory\<close>

record PhysMemory =
  m_ram :: RAM
  host_mem :: host_store

definition PhysMemory_new :: "mmap_fn \<Rightarrow> PhysMemory res" where
  "PhysMemory_new mm =
     bindR (RAM_new mm) (\<lambda>r. Inr \<lparr>m_ram = r, host_mem = (\<lambda>_. 0)\<rparr>)"

definition addRAMPage :: "mmap_fn \<Rightarrow> PhysAddr \<Rightarrow> PhysMemory \<Rightarrow> (bool \<times> PhysMemory) res" where
  "addRAMPage mm page_pa pm =
     bindR (addPage mm page_pa (m_ram pm)) (\<lambda>(b, r). Inr (b, pm\<lparr>m_ram := r\<rparr>))"

record ReadResult =
  rd_status :: SimStatus
  rd_host_page_ptr :: HostPtr

text \<open>\<open>dst\<close> is the out parameter, returned unchanged where the read fails.\<close>

definition PhysMemory_read ::
  "PhysAddr \<Rightarrow> 'a::len word \<Rightarrow> PhysMemory \<Rightarrow> (ReadResult \<times> 'a word) res" where
  "PhysMemory_read phys_addr dst pm =
     (let page_off = page_offset phys_addr in
      if page_off + of_nat (LENGTH('a) div 8) > PAGE_SIZE
      then Inr (\<lparr>rd_status = PHYS_MEM_PAGE_ALIGN_ERROR, rd_host_page_ptr = None\<rparr>, dst)
      else
        let page_pa = page_base phys_addr in
        bindR (getHostPagePtr page_pa (m_ram pm)) (\<lambda>host_page_ptr.
          case host_page_ptr of
            Some p \<Rightarrow> Inr (\<lparr>rd_status = OK, rd_host_page_ptr = Some p\<rparr>,
                           host_load (ptr_add p page_off) (host_mem pm))
          | None \<Rightarrow> Inr (\<lparr>rd_status = PHYS_MEM_ACCESS_FAULT, rd_host_page_ptr = None\<rparr>, dst)))"

record WriteResult =
  wr_status :: SimStatus
  wr_host_page_ptr :: HostPtr

definition PhysMemory_write ::
  "PhysAddr \<Rightarrow> 'a::len word \<Rightarrow> PhysMemory \<Rightarrow> (WriteResult \<times> PhysMemory) res" where
  "PhysMemory_write phys_addr value pm =
     (let page_off = page_offset phys_addr in
      if page_off + of_nat (LENGTH('a) div 8) > PAGE_SIZE
      then Inr (\<lparr>wr_status = PHYS_MEM_PAGE_ALIGN_ERROR, wr_host_page_ptr = None\<rparr>, pm)
      else
        let page_pa = page_base phys_addr in
        bindR (getHostPagePtr page_pa (m_ram pm)) (\<lambda>host_page_ptr.
          case host_page_ptr of
            Some p \<Rightarrow> Inr (\<lparr>wr_status = OK, wr_host_page_ptr = Some p\<rparr>,
                           pm\<lparr>host_mem := host_write (ptr_add p page_off) value (host_mem pm)\<rparr>)
          | None \<Rightarrow> Inr (\<lparr>wr_status = PHYS_MEM_ACCESS_FAULT, wr_host_page_ptr = None\<rparr>, pm)))"

section \<open>Page arithmetic\<close>

lemma PAGE_OFFSET_MASK_mask: "PAGE_OFFSET_MASK = mask 12"
  by (simp add: PAGE_OFFSET_MASK_def PAGE_SIZE_def mask_eq_exp_minus_1)

lemma page_offset_eq_take_bit: "page_offset a = take_bit 12 a"
  by (simp add: PAGE_OFFSET_MASK_mask take_bit_eq_mask)

lemma bit_page_offset_iff [bit_simps]: "bit (page_offset a) n \<longleftrightarrow> n < 12 \<and> bit a n"
  by (simp add: page_offset_eq_take_bit bit_simps)

lemma bit_page_base_iff [bit_simps]: "bit (page_base a) n \<longleftrightarrow> 12 \<le> n \<and> bit a n"
  by (auto simp: PAGE_OFFSET_MASK_mask bit_simps dest: bit_imp_le_length)

lemma page_base_plus_offset: "page_base a + page_offset a = a"
  by (subst disjunctive_add) (auto simp: bit_simps intro!: bit_word_eqI)

lemma page_base_eq_minus: "page_base a = a - page_offset a"
  using page_base_plus_offset [of a] by (metis add_diff_cancel_right')

lemma unat_page_offset: "unat (page_offset a) = unat a mod 4096"
  by (simp add: page_offset_eq_take_bit unsigned_take_bit_eq take_bit_nat_def)

lemma unat_page_offset_less: "unat (page_offset a) < 4096"
  by (simp add: unat_page_offset)

lemma unat_page_base: "unat (page_base va) = unat va div 4096 * 4096"
proof -
  have "unat (page_base va) + unat (page_offset va) = unat va"
  proof -
    have "page_offset va \<le> va" by (simp add: word_le_nat_alt unat_page_offset)
    then show ?thesis by (simp add: page_base_eq_minus unat_sub word_le_nat_alt)
  qed
  then show ?thesis using minus_mod_eq_div_mult [of "unat va" 4096] by (simp add: unat_page_offset)
qed

lemma page_offset_base [simp]: "page_offset (page_base a) = 0"
  by (rule bit_word_eqI) (simp add: bit_simps)

lemma page_base_base [simp]: "page_base (page_base a) = page_base a"
  by (rule bit_word_eqI) (simp add: bit_simps)

lemma page_offset_offset [simp]: "page_offset (page_offset a) = page_offset a"
  by (rule bit_word_eqI) (simp add: bit_simps)

lemma page_base_aligned: "page_offset a = 0 \<Longrightarrow> page_base a = a"
  by (simp add: page_base_eq_minus)

lemma word_eq_page_iff: "a = b \<longleftrightarrow> page_base a = page_base b \<and> page_offset a = page_offset b"
  by (metis page_base_plus_offset)

text \<open>Moving inside a page.\<close>

lemma page_offset_add:
  assumes "unat (page_offset a) + i < 4096"
  shows "page_offset (a + of_nat i) = page_offset a + of_nat i"
proof -
  have "unat (page_offset (a + of_nat i)) = (unat a + i) mod 4096"
    by (simp add: unat_page_offset unat_word_ariths unat_of_nat mod_mod_cancel mod_simps)
  also have "\<dots> = (unat a mod 4096 + i) mod 4096"
    by (rule mod_add_left_eq [symmetric])
  also have "\<dots> = unat a mod 4096 + i"
    using assms by (intro mod_less) (simp add: unat_page_offset)
  also have "\<dots> = unat (page_offset a + of_nat i)"
    using assms by (simp add: unat_word_ariths unat_of_nat unat_page_offset)
  finally show ?thesis by (simp add: word_unat_eq_iff)
qed

lemma page_base_add:
  assumes "unat (page_offset a) + i < 4096"
  shows "page_base (a + of_nat i) = page_base a"
  using page_offset_add [OF assms] by (simp add: page_base_eq_minus)

lemma page_add_offset:
  assumes "page_offset b = 0" and "unat n < 4096"
  shows "page_base (b + n) = b" and "page_offset (b + n) = n"
proof -
  have "unat (page_offset b) + unat n < 4096" using assms by simp
  from page_base_add [OF this] page_offset_add [OF this] assms
  show "page_base (b + n) = b" and "page_offset (b + n) = n"
    by (simp_all add: page_base_aligned)
qed

section \<open>Host loads and stores\<close>

text \<open>The integer types the program instantiates its templates with.\<close>

definition int_type :: "'a::len itself \<Rightarrow> bool" where
  "int_type _ \<longleftrightarrow> LENGTH('a) = 8 \<or> LENGTH('a) = 16 \<or> LENGTH('a) = 32 \<or> LENGTH('a) = 64"

lemma int_type_simps [simp]:
  "int_type TYPE(8)" "int_type TYPE(16)" "int_type TYPE(32)" "int_type TYPE(64)"
  by (simp_all add: int_type_def)

lemma bit_word_of_bytes_iff [bit_simps]:
  "bit (word_of_bytes bs :: 'a::len word) k \<longleftrightarrow>
     k < LENGTH('a) \<and> k < 8 * length bs \<and> bit (bs ! (k div 8)) (k mod 8)"
proof (induction bs arbitrary: k)
  case Nil
  then show ?case by simp
next
  case (Cons b bs)
  show ?case
  proof (cases "k < 8")
    case True
    then show ?thesis by (auto simp: bit_simps)
  next
    case False
    then have "k div 8 = Suc ((k - 8) div 8)" and "k mod 8 = (k - 8) mod 8"
      by (simp_all add: le_div_geq le_mod_geq)
    with False show ?thesis by (auto simp: bit_simps Cons.IH)
  qed
qed

lemma fold_byte_writes:
  assumes "m \<le> 2 ^ 64"
  shows "fold (\<lambda>i h. h(ptr_add p (of_nat i) := f i)) [0..<m] h q =
    (if ha_block q = ha_block p \<and> unat (ha_off q - ha_off p) < m then f (unat (ha_off q - ha_off p)) else h q)"
  using assms
proof (induction m)
  case 0
  then show ?case by simp
next
  case (Suc m)
  have "q = ptr_add p (of_nat m) \<longleftrightarrow> ha_block q = ha_block p \<and> unat (ha_off q - ha_off p) = m"
  proof -
    have "ha_off q = ha_off p + of_nat m \<longleftrightarrow> ha_off q - ha_off p = of_nat m"
      by (simp add: algebra_simps)
    also have "\<dots> \<longleftrightarrow> unat (ha_off q - ha_off p) = m"
      using Suc.prems by (auto simp: unat_of_nat)
    finally show ?thesis by (cases q) (auto simp: ptr_add_def)
  qed
  with Suc show ?case by auto
qed

lemma host_write_apply:
  assumes "int_type TYPE('a)"
  shows "host_write p (v :: 'a::len word) h q =
    (if ha_block q = ha_block p \<and> unat (ha_off q - ha_off p) < LENGTH('a) div 8
     then byte_of_word (unat (ha_off q - ha_off p)) v else h q)"
  unfolding host_write_def
  using assms by (intro fold_byte_writes) (auto simp: int_type_def)

lemma host_load_cong:
  assumes "\<And>i. i < LENGTH('a) div 8 \<Longrightarrow> h (ptr_add p (of_nat i)) = h' (ptr_add q (of_nat i))"
  shows "(host_load p h :: 'a::len word) = host_load q h'"
  unfolding host_load_def using assms by (intro arg_cong [where f = word_of_bytes] map_cong) auto

lemma bit_byte_of_word_iff [bit_simps]: "bit (byte_of_word i w) n \<longleftrightarrow> n < 8 \<and> bit w (8 * i + n)"
  by (auto simp: byte_of_word_def bit_simps)

lemma word_of_bytes_of_word:
  assumes "int_type TYPE('a)"
  shows "word_of_bytes (map (\<lambda>i. byte_of_word i v) [0..<LENGTH('a) div 8]) = (v :: 'a::len word)"
proof (rule bit_word_eqI)
  fix k
  assume k: "k < LENGTH('a)"
  have "8 * (k div 8) + k mod 8 = k" by simp
  with assms k show "bit (word_of_bytes (map (\<lambda>i. byte_of_word i v) [0..<LENGTH('a) div 8]) :: 'a word) k
      = bit v k"
    by (auto simp: bit_simps int_type_def)
qed

lemma host_load_write_same:
  assumes "int_type TYPE('a)"
  shows "host_load p (host_write p (v :: 'a::len word) h) = v"
proof -
  have "host_write p v h (ptr_add p (of_nat i)) = byte_of_word i v" if "i < LENGTH('a) div 8" for i
    using that assms by (auto simp: host_write_apply ptr_add_def unat_of_nat int_type_def)
  then have "(host_load p (host_write p v h) :: 'a word)
      = word_of_bytes (map (\<lambda>i. byte_of_word i v) [0..<LENGTH('a) div 8])"
    unfolding host_load_def by (intro arg_cong [where f = word_of_bytes] map_cong) auto
  then show ?thesis using word_of_bytes_of_word [OF assms] by simp
qed

section \<open>Physical memory as a map from addresses to bytes\<close>

definition in_page :: "64 word \<Rightarrow> nat \<Rightarrow> bool" where
  "in_page a n \<longleftrightarrow> unat (page_offset a) + n \<le> 4096"

definition mem_word :: "(64 word \<rightharpoonup> byte) \<Rightarrow> 64 word \<Rightarrow> 'a::len word" where
  "mem_word c a = word_of_bytes (map (\<lambda>i. the (c (a + of_nat i))) [0..<LENGTH('a) div 8])"

definition mem_put :: "64 word \<Rightarrow> 'a::len word \<Rightarrow> (64 word \<rightharpoonup> byte) \<Rightarrow> (64 word \<rightharpoonup> byte)" where
  "mem_put a v c b =
     (if uint (b - a) < int (LENGTH('a) div 8) then Some (byte_of_word (unat (b - a)) v) else c b)"

lemma mem_put_unat:
  "mem_put a v c = (\<lambda>b. if unat (b - a) < LENGTH('a) div 8
                       then Some (byte_of_word (unat (b - a)) (v :: 'a::len word)) else c b)"
  unfolding fun_eq_iff mem_put_def uint_nat of_nat_less_iff by simp

definition pm_contents :: "PhysMemory \<Rightarrow> 64 word \<rightharpoonup> byte" where
  "pm_contents pm a =
     (case m_mapping (m_ram pm) (page_base a) of
        None \<Rightarrow> None
      | Some p \<Rightarrow> Some (host_mem pm (ptr_add p (page_offset a))))"

text \<open>RAM pages and host pages are page-aligned, and no host page serves two RAM pages.\<close>

definition ram_ok :: "RAM \<Rightarrow> bool" where
  "ram_ok r \<longleftrightarrow>
     (\<forall>a p. m_mapping r a = Some p \<longrightarrow> page_offset a = 0 \<and> page_offset (ha_off p) = 0) \<and>
     (\<forall>a b p. m_mapping r a = Some p \<longrightarrow> m_mapping r b = Some p \<longrightarrow> a = b)"

lemma ram_ok_aligned:
  "ram_ok r \<Longrightarrow> m_mapping r a = Some p \<Longrightarrow> page_offset a = 0 \<and> page_offset (ha_off p) = 0"
  unfolding ram_ok_def by blast

lemma ram_ok_inj: "ram_ok r \<Longrightarrow> m_mapping r a = Some p \<Longrightarrow> m_mapping r b = Some p \<Longrightarrow> a = b"
  unfolding ram_ok_def by blast

abbreviation pm_ok :: "PhysMemory \<Rightarrow> bool" where
  "pm_ok pm \<equiv> ram_ok (m_ram pm)"

lemma page_guard_iff:
  assumes "n \<le> 8"
  shows "page_offset a + of_nat n > PAGE_SIZE \<longleftrightarrow> \<not> in_page a n"
proof -
  have "unat (page_offset a + of_nat n) = unat (page_offset a) + n"
    using assms unat_page_offset_less [of a] by (simp add: unat_word_ariths unat_of_nat)
  then show ?thesis by (simp add: word_less_nat_alt in_page_def PAGE_SIZE_def not_le)
qed

lemma int_type_bytes_le: "int_type TYPE('a::len) \<Longrightarrow> LENGTH('a) div 8 \<le> 8"
  by (auto simp: int_type_def)

lemma int_type_bytes_pos: "int_type TYPE('a::len) \<Longrightarrow> 0 < LENGTH('a) div 8"
  by (auto simp: int_type_def)

lemma PhysMemory_read_eq:
  assumes "int_type TYPE('a)"
  shows "PhysMemory_read a (dst :: 'a::len word) pm =
    Inr (if \<not> in_page a (LENGTH('a) div 8)
         then (\<lparr>rd_status = PHYS_MEM_PAGE_ALIGN_ERROR, rd_host_page_ptr = None\<rparr>, dst)
         else case m_mapping (m_ram pm) (page_base a) of
           None \<Rightarrow> (\<lparr>rd_status = PHYS_MEM_ACCESS_FAULT, rd_host_page_ptr = None\<rparr>, dst)
         | Some p \<Rightarrow> (\<lparr>rd_status = OK, rd_host_page_ptr = Some p\<rparr>,
                      host_load (ptr_add p (page_offset a)) (host_mem pm)))"
  using page_guard_iff [OF int_type_bytes_le [OF assms], of a]
  by (simp add: PhysMemory_read_def Let_def getHostPagePtr_def split: option.split)

lemma PhysMemory_write_eq:
  assumes "int_type TYPE('a)"
  shows "PhysMemory_write a (v :: 'a::len word) pm =
    Inr (if \<not> in_page a (LENGTH('a) div 8)
         then (\<lparr>wr_status = PHYS_MEM_PAGE_ALIGN_ERROR, wr_host_page_ptr = None\<rparr>, pm)
         else case m_mapping (m_ram pm) (page_base a) of
           None \<Rightarrow> (\<lparr>wr_status = PHYS_MEM_ACCESS_FAULT, wr_host_page_ptr = None\<rparr>, pm)
         | Some p \<Rightarrow> (\<lparr>wr_status = OK, wr_host_page_ptr = Some p\<rparr>,
                      pm\<lparr>host_mem := host_write (ptr_add p (page_offset a)) v (host_mem pm)\<rparr>))"
  using page_guard_iff [OF int_type_bytes_le [OF assms], of a]
  by (simp add: PhysMemory_write_def Let_def getHostPagePtr_def split: option.split)

lemma in_page_step:
  assumes "in_page a n" and "i < n"
  shows "page_base (a + of_nat i) = page_base a" and "page_offset (a + of_nat i) = page_offset a + of_nat i"
  using assms page_base_add [of a i] page_offset_add [of a i] by (auto simp: in_page_def)

lemma pm_contents_page:
  assumes "page_base a = page_base b"
  shows "pm_contents pm a = None \<longleftrightarrow> pm_contents pm b = None"
  using assms by (simp add: pm_contents_def split: option.split)

lemma host_load_mem_word:
  assumes "in_page a (LENGTH('a) div 8)" and "m_mapping (m_ram pm) (page_base a) = Some p"
  shows "host_load (ptr_add p (page_offset a)) (host_mem pm) = (mem_word (pm_contents pm) a :: 'a::len word)"
proof -
  have "host_mem pm (ptr_add (ptr_add p (page_offset a)) (of_nat i)) = the (pm_contents pm (a + of_nat i))"
    if "i < LENGTH('a) div 8" for i
    using in_page_step [OF assms(1) that] assms(2)
    by (simp add: pm_contents_def ptr_add_def add.assoc)
  then show ?thesis
    unfolding host_load_def mem_word_def by (intro arg_cong [where f = word_of_bytes] map_cong) auto
qed

text \<open>A store through a host pointer changes the bytes of its own physical range and no others.\<close>

lemma pm_contents_host_write:
  assumes ok: "pm_ok pm" and ty: "int_type TYPE('a)" and inp: "in_page a (LENGTH('a) div 8)"
    and p: "m_mapping (m_ram pm) (page_base a) = Some p"
  shows "pm_contents (pm\<lparr>host_mem := host_write (ptr_add p (page_offset a)) (v :: 'a::len word) (host_mem pm)\<rparr>)
         = mem_put a v (pm_contents pm)"
proof
  fix b
  let ?n = "LENGTH('a) div 8" and ?pm' = "pm\<lparr>host_mem := host_write (ptr_add p (page_offset a)) v (host_mem pm)\<rparr>"
  have same_page: "page_base b = page_base a" if "unat (b - a) < ?n"
    using in_page_step(1) [OF inp that] by simp
  show "pm_contents ?pm' b = mem_put a v (pm_contents pm) b"
  proof (cases "m_mapping (m_ram pm) (page_base b)")
    case None
    with p same_page have "\<not> unat (b - a) < ?n" by auto
    with None show ?thesis by (simp add: pm_contents_def mem_put_unat)
  next
    case (Some q)
    show ?thesis
    proof (cases "q = p")
      case True
      with ok Some p have "page_base b = page_base a" by (auto intro: ram_ok_inj)
      then have "page_offset b - page_offset a = b - a" by (simp add: page_base_eq_minus algebra_simps)
      with True Some show ?thesis
        by (simp add: pm_contents_def mem_put_unat host_write_apply [OF ty] ptr_add_def)
    next
      case False
      with Some p same_page have far: "\<not> unat (b - a) < ?n" by auto
      have "\<not> (ha_block q = ha_block p \<and> unat ((ha_off q + page_offset b) - (ha_off p + page_offset a)) < ?n)"
      proof
        assume asm: "ha_block q = ha_block p \<and> unat ((ha_off q + page_offset b) - (ha_off p + page_offset a)) < ?n"
        define i where "i = unat ((ha_off q + page_offset b) - (ha_off p + page_offset a))"
        have "ha_off q + page_offset b = ha_off p + (page_offset a + of_nat i)"
          by (simp add: i_def algebra_simps)
        moreover have "unat (page_offset a + of_nat i) < 4096"
          using in_page_step(2) [OF inp, of i] asm unat_page_offset_less [of "a + of_nat i"]
          by (simp add: i_def)
        moreover have "page_offset (ha_off q) = 0" "page_offset (ha_off p) = 0"
          using ram_ok_aligned [OF ok] Some p by blast+
        ultimately have "ha_off q = ha_off p"
          using page_add_offset(1) [of "ha_off q" "page_offset b"] unat_page_offset_less [of b]
            page_add_offset(1) [of "ha_off p" "page_offset a + of_nat i"] by simp
        with asm False show False by (simp add: host_addr.expand)
      qed
      with Some far show ?thesis
        by (auto simp: pm_contents_def mem_put_unat host_write_apply [OF ty] ptr_add_def)
    qed
  qed
qed

section \<open>The contract of a memory accessed by words\<close>

text \<open>
  What the page table walk, the mapper and the simulator rely on, for one access width: an
  access inside a mapped page succeeds and reads or replaces exactly its bytes; the two ways
  to fail are a page-crossing access and an unmapped page, and a failed write changes nothing.
\<close>

locale word_memory =
  fixes inv :: "'m \<Rightarrow> bool"
    and contents :: "'m \<Rightarrow> 64 word \<rightharpoonup> byte"
    and rd :: "64 word \<Rightarrow> 'm \<Rightarrow> (SimStatus \<times> 'a::len word) res"
    and wr :: "64 word \<Rightarrow> 'a word \<Rightarrow> 'm \<Rightarrow> (SimStatus \<times> 'm) res"
  assumes width: "int_type TYPE('a)"
    and by_pages: "page_base a = page_base b \<Longrightarrow> contents m a = None \<longleftrightarrow> contents m b = None"
    and rd_cross: "\<not> in_page a (LENGTH('a) div 8) \<Longrightarrow> rd a m = Inr (PHYS_MEM_PAGE_ALIGN_ERROR, 0)"
    and rd_unmapped: "in_page a (LENGTH('a) div 8) \<Longrightarrow> contents m a = None \<Longrightarrow>
          rd a m = Inr (PHYS_MEM_ACCESS_FAULT, 0)"
    and rd_mapped: "in_page a (LENGTH('a) div 8) \<Longrightarrow> contents m a \<noteq> None \<Longrightarrow>
          rd a m = Inr (OK, mem_word (contents m) a)"
    and wr_cross: "\<not> in_page a (LENGTH('a) div 8) \<Longrightarrow> wr a v m = Inr (PHYS_MEM_PAGE_ALIGN_ERROR, m)"
    and wr_unmapped: "in_page a (LENGTH('a) div 8) \<Longrightarrow> contents m a = None \<Longrightarrow>
          wr a v m = Inr (PHYS_MEM_ACCESS_FAULT, m)"
    and wr_mapped: "inv m \<Longrightarrow> in_page a (LENGTH('a) div 8) \<Longrightarrow> contents m a \<noteq> None \<Longrightarrow>
          \<exists>m'. wr a v m = Inr (OK, m') \<and> inv m' \<and> contents m' = mem_put a v (contents m)"
begin

text \<open>Reads and writes fail together and for the same reason.\<close>

lemma rd_wr_status:
  assumes "inv m"
  shows "\<exists>s x m'. rd a m = Inr (s, x) \<and> wr a v m = Inr (s, m') \<and> inv m' \<and> (s \<noteq> OK \<longrightarrow> m' = m)"
proof (cases "in_page a (LENGTH('a) div 8) \<and> contents m a \<noteq> None")
  case True
  then show ?thesis using rd_mapped [of a m] wr_mapped [OF assms, of a v] by auto
next
  case False
  then show ?thesis
    using assms rd_cross [of a m] rd_unmapped [of a m] wr_cross [of a v m] wr_unmapped [of a m v]
    by (cases "in_page a (LENGTH('a) div 8)") auto
qed

lemma wr_OK_iff:
  assumes "inv m"
  shows "wr a v m = Inr (OK, m') \<Longrightarrow>
     in_page a (LENGTH('a) div 8) \<and> contents m a \<noteq> None \<and> inv m' \<and> contents m' = mem_put a v (contents m)"
  using wr_mapped [OF assms, of a v] wr_cross [of a v m] wr_unmapped [of a m v] by fastforce

lemma mem_word_put_same: "mem_word (mem_put a v c) a = (v :: 'a word)"
proof -
  have "map (\<lambda>i. the (mem_put a v c (a + of_nat i))) [0..<LENGTH('a) div 8]
      = map (\<lambda>i. byte_of_word i v) [0..<LENGTH('a) div 8]"
    using width by (intro map_cong) (auto simp: mem_put_unat unat_of_nat int_type_def)
  then show ?thesis unfolding mem_word_def by (simp only: word_of_bytes_of_word [OF width])
qed

lemma rd_wr_same:
  assumes "inv m" and "wr a v m = Inr (OK, m')"
  shows "rd a m' = Inr (OK, v)"
proof -
  from wr_OK_iff [OF assms] have "in_page a (LENGTH('a) div 8)" and c: "contents m' = mem_put a v (contents m)"
    by auto
  moreover have "contents m' a \<noteq> None"
    using width c by (auto simp: mem_put_unat int_type_def)
  ultimately show ?thesis using rd_mapped [of a m'] mem_word_put_same by simp
qed

end

text \<open>The status and the value of an access, as the contract has them.\<close>

definition pm_rd :: "64 word \<Rightarrow> PhysMemory \<Rightarrow> (SimStatus \<times> 'a::len word) res" where
  "pm_rd a pm = bindR (PhysMemory_read a 0 pm) (\<lambda>(r, v). Inr (rd_status r, v))"

definition pm_wr :: "64 word \<Rightarrow> 'a::len word \<Rightarrow> PhysMemory \<Rightarrow> (SimStatus \<times> PhysMemory) res" where
  "pm_wr a v pm = bindR (PhysMemory_write a v pm) (\<lambda>(r, pm'). Inr (wr_status r, pm'))"

lemma pm_word_memory:
  assumes "int_type TYPE('a::len)"
  shows "word_memory pm_ok pm_contents (pm_rd :: 64 word \<Rightarrow> PhysMemory \<Rightarrow> (SimStatus \<times> 'a word) res) pm_wr"
proof
  show "int_type TYPE('a)" by (rule assms)
  show "page_base a = page_base b \<Longrightarrow> pm_contents m a = None \<longleftrightarrow> pm_contents m b = None" for a b m
    by (rule pm_contents_page)
  show "pm_ok m \<Longrightarrow> in_page a (LENGTH('a) div 8) \<Longrightarrow> pm_contents m a \<noteq> None \<Longrightarrow>
          \<exists>m'. pm_wr a v m = Inr (OK, m') \<and> pm_ok m' \<and> pm_contents m' = mem_put a v (pm_contents m)"
    for m a and v :: "'a word"
    using pm_contents_host_write [OF _ assms, of m a _ v]
    by (auto simp: pm_wr_def PhysMemory_write_eq [OF assms] pm_contents_def split: option.splits)
qed (auto simp: pm_rd_def pm_wr_def PhysMemory_read_eq [OF assms] PhysMemory_write_eq [OF assms]
      pm_contents_def host_load_mem_word split: option.splits)

interpretation mem8: word_memory pm_ok pm_contents
    "pm_rd :: 64 word \<Rightarrow> PhysMemory \<Rightarrow> (SimStatus \<times> 8 word) res" pm_wr
  by (rule pm_word_memory) simp

interpretation mem16: word_memory pm_ok pm_contents
    "pm_rd :: 64 word \<Rightarrow> PhysMemory \<Rightarrow> (SimStatus \<times> 16 word) res" pm_wr
  by (rule pm_word_memory) simp

interpretation mem32: word_memory pm_ok pm_contents
    "pm_rd :: 64 word \<Rightarrow> PhysMemory \<Rightarrow> (SimStatus \<times> 32 word) res" pm_wr
  by (rule pm_word_memory) simp

interpretation mem64: word_memory pm_ok pm_contents
    "pm_rd :: 64 word \<Rightarrow> PhysMemory \<Rightarrow> (SimStatus \<times> 64 word) res" pm_wr
  by (rule pm_word_memory) simp

section \<open>The allocator hands out fresh pages\<close>

text \<open>The pages an allocator has handed out: all of the full blocks, the first ones of the last.\<close>

definition allocated :: "PageAllocator \<Rightarrow> host_addr \<Rightarrow> bool" where
  "allocated a p \<longleftrightarrow>
     (\<exists>k < length (m_mmaps a). ha_block p = ha_block (mm_ptr (m_mmaps a ! k)) \<and>
        (\<exists>j. ha_off p = j * PAGE_SIZE \<and>
           j < (if Suc k = length (m_mmaps a) then m_curr_ppn a else mm_ppn (m_mmaps a ! k))))"

definition alloc_ok :: "mmap_fn \<Rightarrow> PageAllocator \<Rightarrow> bool" where
  "alloc_ok mm a \<longleftrightarrow> m_mmaps a \<noteq> [] \<and>
     (\<forall>k < length (m_mmaps a). let m = m_mmaps a ! k in
        ha_off (mm_ptr m) = 0 \<and> mm k (mm_ppn m * PAGE_SIZE) = Some (ha_block (mm_ptr m))) \<and>
     m_curr_ppn a \<le> mm_ppn (last (m_mmaps a)) \<and>
     (\<exists>e < 52. mm_ppn (last (m_mmaps a)) = 2 ^ e)"

lemma page_mult_inj:
  fixes i j :: "64 word"
  assumes "i < 2 ^ 52" and "j < 2 ^ 52" and "i * PAGE_SIZE = j * PAGE_SIZE"
  shows "i = j"
proof -
  have "unat (k * PAGE_SIZE) = unat k * 4096" if "k < 2 ^ 52" for k :: "64 word"
    using that by (simp add: PAGE_SIZE_def unat_word_ariths word_less_nat_alt)
  with assms have "unat i * 4096 = unat j * 4096" by metis
  then show ?thesis by (simp add: word_unat_eq_iff)
qed

lemma page_offset_mult [simp]: "page_offset (j * PAGE_SIZE) = 0"
  by (simp add: word_unat_eq_iff unat_page_offset PAGE_SIZE_def unat_word_ariths mod_mod_cancel)

lemma allocated_split:
  assumes "m_mmaps a \<noteq> []"
  shows "allocated a q \<longleftrightarrow>
    (\<exists>k < length (m_mmaps a) - 1. ha_block q = ha_block (mm_ptr (m_mmaps a ! k)) \<and>
       (\<exists>j. ha_off q = j * PAGE_SIZE \<and> j < mm_ppn (m_mmaps a ! k))) \<or>
    (ha_block q = ha_block (mm_ptr (last (m_mmaps a))) \<and> (\<exists>j. ha_off q = j * PAGE_SIZE \<and> j < m_curr_ppn a))"
proof -
  obtain n where n: "length (m_mmaps a) = Suc n" using assms by (cases "m_mmaps a") auto
  then have "last (m_mmaps a) = m_mmaps a ! n" using assms by (simp add: last_conv_nth)
  with n show ?thesis unfolding allocated_def by (simp add: Ex_less_Suc disj_commute cong: conj_cong)
qed

lemma allocated_aligned: "allocated a p \<Longrightarrow> page_offset (ha_off p) = 0"
  by (auto simp: allocated_def)

text \<open>The case of a full last block: the allocator first adds a block of twice the size.\<close>

definition alloc_grow :: "mmap_fn \<Rightarrow> PageAllocator \<Rightarrow> PageAllocator res" where
  "alloc_grow mm a =
     (if m_curr_ppn a = mm_ppn (last (m_mmaps a)) then
        bindR (MMap_new mm (length (m_mmaps a)) (mm_ppn (last (m_mmaps a)) * 2)) (\<lambda>m.
          Inr (a\<lparr>m_mmaps := m_mmaps a @ [m], m_curr_ppn := 0\<rparr>))
      else Inr a)"

lemma allocPage_grow:
  "allocPage mm a = bindR (alloc_grow mm a) (\<lambda>a.
     Inr (ptr_add (mm_ptr (last (m_mmaps a))) (m_curr_ppn a * PAGE_SIZE), a\<lparr>m_curr_ppn := m_curr_ppn a + 1\<rparr>))"
  by (simp add: allocPage_def alloc_grow_def Let_def)

lemma MMap_new_Inr:
  "MMap_new mm n ppn = Inr m \<longleftrightarrow>
     ppn \<noteq> 0 \<and> (\<exists>b. mm n (ppn * PAGE_SIZE) = Some b \<and> m = \<lparr>mm_ppn = ppn, mm_ptr = HostAddr b 0\<rparr>)"
  by (auto simp: MMap_new_def Let_def split: option.splits)

lemma alloc_grow_ok:
  assumes mm: "mmap_contract mm" and ok: "alloc_ok mm a" and grow: "alloc_grow mm a = Inr a'"
  shows "alloc_ok mm a' \<and> m_curr_ppn a' < mm_ppn (last (m_mmaps a')) \<and>
         (\<forall>p. allocated a p \<longleftrightarrow> allocated a' p)"
proof (cases "m_curr_ppn a = mm_ppn (last (m_mmaps a))")
  case False
  with grow have "a' = a" by (simp add: alloc_grow_def)
  with False ok show ?thesis by (auto simp: alloc_ok_def Let_def)
next
  case True
  obtain e where e: "e < 52" "mm_ppn (last (m_mmaps a)) = 2 ^ e"
    using ok by (auto simp: alloc_ok_def)
  from True grow e obtain b where b: "mm (length (m_mmaps a)) (2 ^ e * 2 * PAGE_SIZE) = Some b"
    and a': "a' = a\<lparr>m_mmaps := m_mmaps a @ [\<lparr>mm_ppn = 2 ^ e * 2, mm_ptr = HostAddr b 0\<rparr>], m_curr_ppn := 0\<rparr>"
    by (auto simp: alloc_grow_def res_simps MMap_new_Inr)
  have "Suc e < 52"
  proof (rule ccontr)
    assume "\<not> Suc e < 52"
    with e(1) have "e = 51" by simp
    then have "(2 ^ e * 2 * PAGE_SIZE :: 64 word) = 0" by (simp add: PAGE_SIZE_def)
    with b mm show False by (simp add: mmap_contract_def)
  qed
  then have pow: "(2 ^ e * 2 :: 64 word) = 2 ^ Suc e" and pos: "(0 :: 64 word) < 2 ^ Suc e"
    by (auto simp: word_neq_0_conv [symmetric] exp_eq_zero_iff simp del: power_Suc) simp
  have "alloc_ok mm a'"
    using ok b \<open>Suc e < 52\<close> unfolding a' pow
    by (auto simp: alloc_ok_def Let_def nth_append less_Suc_eq simp del: power_Suc intro!: exI [of _ "Suc e"])
  moreover have "allocated a p \<longleftrightarrow> allocated a' p" for p
  proof -
    obtain n where n: "length (m_mmaps a) = Suc n" and ne: "m_mmaps a \<noteq> []"
      using ok by (cases "m_mmaps a") (auto simp: alloc_ok_def)
    then have "last (m_mmaps a) = m_mmaps a ! n" by (simp add: last_conv_nth)
    with n ne True show ?thesis
      unfolding allocated_split [OF ne] a'
      by (simp add: allocated_split nth_append Ex_less_Suc disj_commute cong: conj_cong)
  qed
  ultimately show ?thesis using pos unfolding a' pow by simp
qed

lemma alloc_ok_block_unique:
  assumes "mmap_contract mm" and "alloc_ok mm a"
    and "k < length (m_mmaps a)" and "k' < length (m_mmaps a)"
    and "ha_block (mm_ptr (m_mmaps a ! k)) = ha_block (mm_ptr (m_mmaps a ! k'))"
  shows "k = k'"
  using assms unfolding alloc_ok_def mmap_contract_def Let_def by metis

lemma alloc_bump_ok:
  assumes mm: "mmap_contract mm" and ok: "alloc_ok mm a"
    and room: "m_curr_ppn a < mm_ppn (last (m_mmaps a))"
  defines "p \<equiv> ptr_add (mm_ptr (last (m_mmaps a))) (m_curr_ppn a * PAGE_SIZE)"
    and "a' \<equiv> a\<lparr>m_curr_ppn := m_curr_ppn a + 1\<rparr>"
  shows "alloc_ok mm a' \<and> \<not> allocated a p \<and> (\<forall>q. allocated a' q \<longleftrightarrow> allocated a q \<or> q = p)"
proof -
  let ?last = "length (m_mmaps a) - 1"
  have ne: "m_mmaps a \<noteq> []" and last: "last (m_mmaps a) = m_mmaps a ! ?last"
    and zero: "ha_off (mm_ptr (m_mmaps a ! ?last)) = 0"
    using ok by (auto simp: alloc_ok_def Let_def last_conv_nth)
  obtain e where e: "e < 52" "mm_ppn (last (m_mmaps a)) = 2 ^ e"
    using ok by (auto simp: alloc_ok_def)
  have "(2 ^ e :: 64 word) \<le> 2 ^ 51"
    using e(1) power_increasing [of e 51 "2 :: nat"] by (simp add: word_le_nat_alt unat_two_power)
  then have small: "m_curr_ppn a < 2 ^ 52" using room e(2) by (simp add: word_less_nat_alt word_le_nat_alt)
  have p: "p = HostAddr (ha_block (mm_ptr (m_mmaps a ! ?last))) (m_curr_ppn a * PAGE_SIZE)"
    using last zero by (simp add: p_def ptr_add_def)
  have fresh: "\<not> allocated a p"
  proof
    assume "allocated a p"
    then obtain k j where k: "k < length (m_mmaps a)" "ha_block p = ha_block (mm_ptr (m_mmaps a ! k))"
      and j: "ha_off p = j * PAGE_SIZE"
        "j < (if Suc k = length (m_mmaps a) then m_curr_ppn a else mm_ppn (m_mmaps a ! k))"
      by (auto simp: allocated_def)
    have "k = ?last" using alloc_ok_block_unique [OF mm ok k(1), of ?last] k(2) p ne by simp
    with j(2) ne have "j < m_curr_ppn a" by simp
    moreover have "j = m_curr_ppn a"
      using page_mult_inj [of j "m_curr_ppn a"] j(1) p small \<open>j < m_curr_ppn a\<close> by simp
    ultimately show False by simp
  qed
  have inc: "j < m_curr_ppn a + 1 \<longleftrightarrow> j < m_curr_ppn a \<or> j = m_curr_ppn a" for j
    using room by unat_arith
  have "allocated a' q \<longleftrightarrow> allocated a q \<or> q = p" for q
    using ne unfolding p allocated_split [OF ne] last [symmetric]
    by (cases q) (auto simp: allocated_split a'_def inc)
  moreover have "alloc_ok mm a'"
    using ok room by (auto simp: alloc_ok_def a'_def inc_le)
  ultimately show ?thesis using fresh by blast
qed

text \<open>Every page the allocator returns is new, and earlier pages stay allocated.\<close>

lemma allocPage_fresh:
  assumes "mmap_contract mm" and "alloc_ok mm a" and "allocPage mm a = Inr (p, a')"
  shows "alloc_ok mm a' \<and> \<not> allocated a p \<and> (\<forall>q. allocated a' q \<longleftrightarrow> allocated a q \<or> q = p)"
proof -
  from assms(3) obtain g where g: "alloc_grow mm a = Inr g"
    and p: "p = ptr_add (mm_ptr (last (m_mmaps g))) (m_curr_ppn g * PAGE_SIZE)"
    and a': "a' = g\<lparr>m_curr_ppn := m_curr_ppn g + 1\<rparr>"
    by (auto simp: allocPage_grow res_simps)
  from alloc_grow_ok [OF assms(1,2) g] alloc_bump_ok [OF assms(1), of g]
  show ?thesis unfolding p a' by blast
qed

definition ram_inv :: "mmap_fn \<Rightarrow> RAM \<Rightarrow> bool" where
  "ram_inv mm r \<longleftrightarrow> alloc_ok mm (m_page_allocator r) \<and> ram_ok r \<and>
     (\<forall>a p. m_mapping r a = Some p \<longrightarrow> allocated (m_page_allocator r) p)"

lemma RAM_new_inv:
  assumes "RAM_new mm = Inr r"
  shows "ram_inv mm r" and "m_mapping r = Map.empty"
proof -
  have "\<exists>e < 52. (4096 :: 64 word) = 2 ^ e" by (rule exI [of _ 12]) simp
  with assms show "ram_inv mm r" and "m_mapping r = Map.empty"
    by (auto simp: RAM_new_def PageAllocator_new_def PPN_16MB_def res_simps MMap_new_Inr
        ram_inv_def alloc_ok_def ram_ok_def)
qed

lemma addPage_cases:
  assumes "addPage mm page_pa r = Inr (b, r')"
  obtains p a where "page_offset page_pa = 0" and "allocPage mm (m_page_allocator r) = Inr (p, a)"
    and "b \<longleftrightarrow> m_mapping r page_pa = None"
    and "r' = (if b then r\<lparr>m_page_allocator := a, m_mapping := (m_mapping r)(page_pa \<mapsto> p)\<rparr>
               else r\<lparr>m_page_allocator := a\<rparr>)"
  using assms by (auto simp: addPage_def res_simps Let_def split: option.splits)

lemma addPage_inv:
  assumes mm: "mmap_contract mm" and inv: "ram_inv mm r" and add: "addPage mm page_pa r = Inr (b, r')"
  shows "ram_inv mm r'"
  using add
proof (cases rule: addPage_cases)
  case (1 p a)
  from allocPage_fresh [OF mm _ 1(2)] inv have fresh: "alloc_ok mm a" "\<not> allocated (m_page_allocator r) p"
    "\<And>q. allocated a q \<longleftrightarrow> allocated (m_page_allocator r) q \<or> q = p"
    by (auto simp: ram_inv_def)
  have new: "m_mapping r x \<noteq> Some p" for x using inv fresh(2) by (auto simp: ram_inv_def)
  have "page_offset (ha_off p) = 0" using fresh(3) [of p] allocated_aligned by blast
  with inv fresh new 1(1) have "ram_ok r'"
    unfolding 1(4) ram_inv_def ram_ok_def by (auto split: if_splits)
  with inv fresh show ?thesis unfolding 1(4) ram_inv_def by (auto split: if_splits)
qed

section \<open>Invariant of the physical memory\<close>

text \<open>Host pages that were never handed out still hold the zeros \<open>mmap\<close> filled them with.\<close>

abbreviation host_page :: "host_addr \<Rightarrow> host_addr" where
  "host_page q \<equiv> HostAddr (ha_block q) (page_base (ha_off q))"

definition pm_inv :: "mmap_fn \<Rightarrow> PhysMemory \<Rightarrow> bool" where
  "pm_inv mm pm \<longleftrightarrow> ram_inv mm (m_ram pm) \<and>
     (\<forall>q. \<not> allocated (m_page_allocator (m_ram pm)) (host_page q) \<longrightarrow> host_mem pm q = 0)"

lemma pm_inv_ok: "pm_inv mm pm \<Longrightarrow> pm_ok pm"
  by (simp add: pm_inv_def ram_inv_def)

lemma host_page_ptr_add:
  assumes "page_offset (ha_off p) = 0" and "unat n < 4096"
  shows "host_page (ptr_add p n) = p"
  using page_add_offset(1) [OF assms] by (cases p) (simp add: ptr_add_def)

lemma PhysMemory_new_inv:
  assumes "PhysMemory_new mm = Inr pm"
  shows "pm_inv mm pm \<and> pm_contents pm = Map.empty"
  using assms RAM_new_inv
  by (auto simp: PhysMemory_new_def res_simps pm_inv_def pm_contents_def fun_eq_iff)

lemma addRAMPage_spec:
  assumes mm: "mmap_contract mm" and inv: "pm_inv mm pm" and add: "addRAMPage mm pa pm = Inr (b, pm')"
  shows "pm_inv mm pm' \<and> (b \<longleftrightarrow> pm_contents pm pa = None) \<and> page_offset pa = 0 \<and>
    pm_contents pm' = (\<lambda>a. if b \<and> page_base a = pa then Some 0 else pm_contents pm a)"
proof -
  from add obtain r where r: "addPage mm pa (m_ram pm) = Inr (b, r)" and pm': "pm' = pm\<lparr>m_ram := r\<rparr>"
    by (auto simp: addRAMPage_def res_simps)
  from r show ?thesis
  proof (cases rule: addPage_cases)
    case (1 p a)
    from inv have ram: "ram_inv mm (m_ram pm)" and alloc: "alloc_ok mm (m_page_allocator (m_ram pm))"
      by (auto simp: pm_inv_def ram_inv_def)
    note fresh = allocPage_fresh [OF mm alloc 1(2)]
    have r_alloc: "m_page_allocator r = a" using 1(4) by simp
    have "pm_inv mm pm'"
      using addPage_inv [OF mm ram r] inv fresh by (auto simp: pm_inv_def pm' r_alloc)
    moreover have "b \<longleftrightarrow> pm_contents pm pa = None"
      using 1 by (simp add: pm_contents_def page_base_aligned split: option.split)
    moreover have "host_mem pm (ptr_add p (page_offset x)) = 0" for x
    proof -
      have "page_offset (ha_off p) = 0" using fresh allocated_aligned by blast
      then have "host_page (ptr_add p (page_offset x)) = p"
        by (rule host_page_ptr_add) (simp add: unat_page_offset_less)
      then show ?thesis using inv fresh by (simp add: pm_inv_def)
    qed
    ultimately show ?thesis
      using 1 by (auto simp: pm_contents_def pm' fun_eq_iff split: option.split)
  qed
qed

lemma PhysMemory_write_inv:
  assumes inv: "pm_inv mm pm" and ty: "int_type TYPE('a)"
    and wr: "PhysMemory_write a (v :: 'a::len word) pm = Inr (r, pm')"
  shows "pm_inv mm pm' \<and> m_ram pm' = m_ram pm"
proof (cases "in_page a (LENGTH('a) div 8) \<and> m_mapping (m_ram pm) (page_base a) \<noteq> None")
  case False
  then have "pm' = pm" using wr by (auto simp: PhysMemory_write_eq [OF ty] split: if_splits option.splits)
  with inv show ?thesis by simp
next
  case True
  then obtain p where inp: "in_page a (LENGTH('a) div 8)"
    and p: "m_mapping (m_ram pm) (page_base a) = Some p"
    and pm': "pm' = pm\<lparr>host_mem := host_write (ptr_add p (page_offset a)) v (host_mem pm)\<rparr>"
    using wr by (auto simp: PhysMemory_write_eq [OF ty])
  have alloc: "allocated (m_page_allocator (m_ram pm)) p" and al: "page_offset (ha_off p) = 0"
    using inv p ram_ok_aligned by (auto simp: pm_inv_def ram_inv_def)
  have "host_mem pm' q = 0" if "\<not> allocated (m_page_allocator (m_ram pm)) (host_page q)" for q
  proof (cases "ha_block q = ha_block p \<and> unat (ha_off q - (ha_off p + page_offset a)) < LENGTH('a) div 8")
    case True
    define i where "i = unat (ha_off q - (ha_off p + page_offset a))"
    have "ha_off q = ha_off p + (page_offset a + of_nat i)" by (simp add: i_def algebra_simps)
    moreover have "page_offset a + of_nat i = page_offset (a + of_nat i)"
      using True inp by (intro in_page_step(2) [symmetric]) (auto simp: i_def)
    ultimately have "q = ptr_add p (page_offset (a + of_nat i))"
      using True by (cases q) (simp add: ptr_add_def)
    then have "host_page q = p"
      using host_page_ptr_add [OF al] unat_page_offset_less by simp
    with that alloc show ?thesis by simp
  next
    case False
    with that inv show ?thesis
      by (auto simp: pm' pm_inv_def host_write_apply [OF ty] ptr_add_def)
  qed
  with inv show ?thesis by (simp add: pm_inv_def pm')
qed

section \<open>Properties\<close>

text \<open>
  C25: physical memory is an array of bytes: a write that reports \<open>OK\<close> changes exactly the bytes of its
  range, and a read of the same address and width then returns the value, at every integer width.
\<close>

theorem phys_write_then_read:
  fixes v :: "'a::len word"
  assumes ty: "int_type TYPE('a)" and ok: "pm_ok pm" and wr: "PhysMemory_write a v pm = Inr (r, pm')" and st: "wr_status r = OK"
  shows "pm_contents pm' = mem_put a v (pm_contents pm) \<and> m_ram pm' = m_ram pm \<and>
    (\<exists>p. PhysMemory_read a dst pm' = Inr (\<lparr>rd_status = OK, rd_host_page_ptr = Some p\<rparr>, v))"
proof -
  from wr st obtain p where inp: "in_page a (LENGTH('a) div 8)" and p: "m_mapping (m_ram pm) (page_base a) = Some p"
    and pm': "pm' = pm\<lparr>host_mem := host_write (ptr_add p (page_offset a)) v (host_mem pm)\<rparr>"
    by (auto simp: PhysMemory_write_eq [OF ty] split: if_splits option.splits)
  have c: "pm_contents pm' = mem_put a v (pm_contents pm)"
    unfolding pm' by (rule pm_contents_host_write [OF ok ty inp p])
  have "word_memory pm_ok pm_contents (pm_rd :: 64 word \<Rightarrow> PhysMemory \<Rightarrow> (SimStatus \<times> 'a word) res) pm_wr"
    using ty by (rule pm_word_memory)
  then have "mem_word (mem_put a v (pm_contents pm)) a = v"
    by (rule word_memory.mem_word_put_same)
  then have "host_load (ptr_add p (page_offset a)) (host_mem pm') = v"
    using host_load_mem_word [OF inp, of pm' p] p c by (simp add: pm')
  then show ?thesis using c inp p by (simp add: PhysMemory_read_eq [OF ty] pm')
qed

text \<open>
  C26: adding a RAM page succeeds exactly if there was none at the address. The new page reads as zero and
  shares no byte with any page added before, so no other byte of memory changes.
\<close>

theorem ram_page_fresh:
  assumes "mmap_contract mm" and "pm_inv mm pm" and "addRAMPage mm pa pm = Inr (b, pm')"
  shows "pm_inv mm pm' \<and> (b \<longleftrightarrow> pm_contents pm pa = None) \<and>
    pm_contents pm' = (\<lambda>a. if b \<and> page_base a = pa then Some 0 else pm_contents pm a)"
  using addRAMPage_spec [OF assms] by blast

end
