(* ===== verification/Mmu.thy ===== *)
theory Mmu
  imports PhysMem Csr
begin

text \<open>
  \<^verbatim>\<open>memory/include/sim/memory/pte.hpp\<close>, \<^verbatim>\<open>mmu64.hpp\<close> and the \<open>MMU64\<close> part of
  \<^verbatim>\<open>memory/src/memory.cpp\<close>: page table entries and the Sv39/Sv48/Sv57 page table walk. The
  endless \<open>for\<close> loop of \<open>translate\<close> counts \<open>i\<close> down and leaves at \<open>i = 0\<close> at the latest; it is
  the recursive \<open>pt_walk\<close>, which returns the leaf entry and its level or the status the loop
  body returns. The hart's \<open>mstatus\<close> and \<open>satp\<close>, which the class holds by reference, are
  arguments.
\<close>

section \<open>Page table entries\<close>

type_synonym PTE = "64 word"
type_synonym PTEFlags = "8 word"

definition PTE_RESERWED_MASK :: PTE where
  "PTE_RESERWED_MASK = push_bit 54 0x3FF OR push_bit 8 3"

definition V_MASK :: PTEFlags where "V_MASK = push_bit 0 1"

definition R_MASK :: PTEFlags where "R_MASK = push_bit 1 1"

definition W_MASK :: PTEFlags where "W_MASK = push_bit 2 1"

definition X_MASK :: PTEFlags where "X_MASK = push_bit 3 1"

definition U_MASK :: PTEFlags where "U_MASK = push_bit 4 1"

definition A_MASK :: PTEFlags where "A_MASK = push_bit 6 1"

definition D_MASK :: PTEFlags where "D_MASK = push_bit 7 1"

definition flag_v :: "PTEFlags \<Rightarrow> bool" where "flag_v f \<longleftrightarrow> f AND V_MASK \<noteq> 0"

definition flag_r :: "PTEFlags \<Rightarrow> bool" where "flag_r f \<longleftrightarrow> f AND R_MASK \<noteq> 0"

definition flag_w :: "PTEFlags \<Rightarrow> bool" where "flag_w f \<longleftrightarrow> f AND W_MASK \<noteq> 0"

definition flag_x :: "PTEFlags \<Rightarrow> bool" where "flag_x f \<longleftrightarrow> f AND X_MASK \<noteq> 0"

definition flag_u :: "PTEFlags \<Rightarrow> bool" where "flag_u f \<longleftrightarrow> f AND U_MASK \<noteq> 0"

definition flag_a :: "PTEFlags \<Rightarrow> bool" where "flag_a f \<longleftrightarrow> f AND A_MASK \<noteq> 0"

definition flag_d :: "PTEFlags \<Rightarrow> bool" where "flag_d f \<longleftrightarrow> f AND D_MASK \<noteq> 0"

definition PTE_PPN_HI :: nat where "PTE_PPN_HI = 53"

definition PTE_PPN_LO :: nat where "PTE_PPN_LO = 10"

definition createPTE :: "PPN \<Rightarrow> PTEFlags \<Rightarrow> PTE res" where
  "createPTE ppn flags =
     bindR (setBitField PTE_PPN_HI PTE_PPN_LO (ucast flags) ppn) (\<lambda>pte.
     bindR (SIM_ASSERT (pte AND PTE_RESERWED_MASK = 0)) (\<lambda>_. Inr pte))"

section \<open>MMU64\<close>

datatype AccessType = READ | WRITE | FETCH

record MMU64_Result =
  mmu_status :: SimStatus
  phys_addr :: PhysAddr

definition VPN_BIT_STEP :: nat where "VPN_BIT_STEP = 9"

definition PPN_BIT_STEP :: nat where "PPN_BIT_STEP = 9"

definition modeToLevels :: "MODEValue \<Rightarrow> nat res" where
  "modeToLevels mode =
     (case mode of SV39 \<Rightarrow> Inr 3 | SV48 \<Rightarrow> Inr 4 | SV57 \<Rightarrow> Inr 5 | BARE \<Rightarrow> SIM_UNREACHABLE)"

definition getVPN :: "VirtAddr \<Rightarrow> nat \<Rightarrow> 64 word res" where
  "getVPN va i =
     bindR (SIM_ASSERT (i < 5)) (\<lambda>_.
       let lo = PAGE_BIT_SIZE + i * VPN_BIT_STEP; hi = lo + VPN_BIT_STEP - 1
       in getBitField hi lo va)"

definition checkLeafFlags :: "PrivLevel \<Rightarrow> AccessType \<Rightarrow> PTEFlags \<Rightarrow> bool \<Rightarrow> bool \<Rightarrow> bool" where
  "checkLeafFlags priv_level access_type flags mxr sum_bit =
     (let is_user = (priv_level = USER);
          user_ok = (flag_u flags \<and> is_user);
          super_rw_ok = (\<not> is_user \<and> (\<not> flag_u flags \<or> sum_bit));
          super_x_ok = (\<not> is_user \<and> \<not> flag_u flags)
      in case access_type of
           READ \<Rightarrow> (let is_readable = (flag_r flags \<or> (flag_x flags \<and> mxr))
                    in is_readable \<and> (user_ok \<or> super_rw_ok))
         | WRITE \<Rightarrow> flag_w flags \<and> (user_ok \<or> super_rw_ok)
         | FETCH \<Rightarrow> flag_x flags \<and> (user_ok \<or> super_x_ok))"

definition calcPhysAddr :: "PTE \<Rightarrow> VirtAddr \<Rightarrow> nat \<Rightarrow> PhysAddr res" where
  "calcPhysAddr pte va i =
     bindR (SIM_ASSERT (i < 5)) (\<lambda>_.
       let super_page_bits = i * PPN_BIT_STEP;
           ppn_lo = PTE_PPN_LO + super_page_bits;
           offset_bits = PAGE_BIT_SIZE + super_page_bits
       in bindR (getBitField (offset_bits - 1) 0 va) (\<lambda>offset.
          bindR (getBitField PTE_PPN_HI ppn_lo pte) (\<lambda>ppn.
          Inr (offset + push_bit offset_bits ppn))))"

datatype walk_end = WalkLeaf PTE nat | WalkFail SimStatus

fun pt_walk :: "PhysMemory \<Rightarrow> VirtAddr \<Rightarrow> nat \<Rightarrow> PPN \<Rightarrow> walk_end res" where
  "pt_walk pm va i table_ppn =
     bindR (getVPN va i) (\<lambda>vpn.
     let pte_pa = table_ppn * PAGE_SIZE + vpn * 8 in
     bindR (PhysMemory_read pte_pa (0 :: PTE) pm) (\<lambda>(res, pte).
     if rd_status res \<noteq> OK then Inr (WalkFail (rd_status res))
     else
       let flags = ucast pte in
       if \<not> flag_v flags \<or> (\<not> flag_r flags \<and> flag_w flags) \<or> pte AND PTE_RESERWED_MASK \<noteq> 0
       then Inr (WalkFail MMU64_PAGE_FAULT)
       else if flag_r flags \<or> flag_x flags then Inr (WalkLeaf pte i)
       else if i = 0 then Inr (WalkFail MMU64_PAGE_FAULT)
       else bindR (getBitField PTE_PPN_HI PTE_PPN_LO pte) (\<lambda>ppn. pt_walk pm va (i - 1) ppn)))"

declare pt_walk.simps [simp del]

definition PAGE_FAULT_RES :: MMU64_Result where
  "PAGE_FAULT_RES = \<lparr>mmu_status = MMU64_PAGE_FAULT, phys_addr = 0\<rparr>"

definition translate ::
  "PrivLevel \<Rightarrow> AccessType \<Rightarrow> VirtAddr \<Rightarrow> MSTATUS64 \<Rightarrow> SATP64 \<Rightarrow> PhysMemory \<Rightarrow> MMU64_Result res" where
  "translate priv_level access_type va mstatus satp pm =
     (let mode = m_mode satp in
      if mode = BARE then Inr \<lparr>mmu_status = OK, phys_addr = va\<rparr>
      else
        bindR (modeToLevels mode) (\<lambda>levels.
        bindR (pt_walk pm va (levels - 1) (m_ppn satp)) (\<lambda>w.
        case w of
          WalkFail s \<Rightarrow> Inr \<lparr>mmu_status = s, phys_addr = 0\<rparr>
        | WalkLeaf pte i \<Rightarrow>
            let flags = ucast pte in
            if \<not> checkLeafFlags priv_level access_type flags (m_mxr mstatus \<noteq> 0) (m_sum mstatus \<noteq> 0)
            then Inr PAGE_FAULT_RES
            else
              bindR (if i > 0
                     then (let lo = 10; hi = lo + PPN_BIT_STEP * i - 1 in
                           bindR (getBitField hi lo pte) (\<lambda>f. Inr (f \<noteq> 0)))
                     else Inr False) (\<lambda>misaligned.
              if misaligned then Inr PAGE_FAULT_RES
              else
                bindR (SIM_ASSERT (flag_d flags \<and> flag_a flags)) (\<lambda>_.
                bindR (calcPhysAddr pte va i) (\<lambda>pa.
                Inr \<lparr>mmu_status = OK, phys_addr = pa\<rparr>))))))"

section \<open>The walk over memory contents\<close>

lemmas mmu_consts = PTE_PPN_HI_def PTE_PPN_LO_def PAGE_BIT_SIZE_def VPN_BIT_STEP_def PPN_BIT_STEP_def

text \<open>The entry for level \<open>i\<close> of an address in the table at page number \<open>t\<close>.\<close>

definition vpn_field :: "VirtAddr \<Rightarrow> nat \<Rightarrow> 64 word" where
  "vpn_field va i = field (20 + 9 * i) (12 + 9 * i) va"

definition pte_addr :: "PPN \<Rightarrow> VirtAddr \<Rightarrow> nat \<Rightarrow> PhysAddr" where
  "pte_addr t va i = t * PAGE_SIZE + vpn_field va i * 8"

definition pte_bad :: "PTE \<Rightarrow> bool" where
  "pte_bad pte \<longleftrightarrow> \<not> flag_v (ucast pte) \<or> (\<not> flag_r (ucast pte) \<and> flag_w (ucast pte)) \<or>
     pte AND PTE_RESERWED_MASK \<noteq> 0"

definition pte_leaf :: "PTE \<Rightarrow> bool" where
  "pte_leaf pte \<longleftrightarrow> flag_r (ucast pte) \<or> flag_x (ucast pte)"

abbreviation pte_ppn :: "PTE \<Rightarrow> PPN" where
  "pte_ppn pte \<equiv> field 53 10 pte"

lemma getVPN_ok [simp]: "i < 5 \<Longrightarrow> getVPN va i = Inr (vpn_field va i)"
  by (simp add: getVPN_def mmu_consts vpn_field_def mult.commute add.commute Let_def)

lemma unat_vpn_field: "unat (vpn_field va i) < 512"
  using unat_field_less [of "20 + 9 * i" "12 + 9 * i" va] by (simp add: vpn_field_def)

lemma unat_vpn_times_8: "unat (vpn_field va i * 8) = unat (vpn_field va i) * 8"
  using unat_vpn_field [of va i] by (simp add: unat_word_ariths)

lemma pte_addr_page: "page_base (pte_addr t va i) = t * PAGE_SIZE"
  and pte_addr_offset: "page_offset (pte_addr t va i) = vpn_field va i * 8"
  using page_add_offset [of "t * PAGE_SIZE" "vpn_field va i * 8"] unat_vpn_field [of va i]
  by (simp_all add: pte_addr_def unat_vpn_times_8)

lemma pte_addr_in_page: "in_page (pte_addr t va i) 8"
  using unat_vpn_field [of va i] by (simp add: in_page_def pte_addr_offset unat_vpn_times_8)

lemma read_pte:
  "bindR (PhysMemory_read (pte_addr t va i) (0 :: PTE) pm) (\<lambda>(res, pte). f (rd_status res) pte) =
    (if pm_contents pm (t * PAGE_SIZE) = None then f PHYS_MEM_ACCESS_FAULT 0
     else f OK (mem_word (pm_contents pm) (pte_addr t va i)))"
proof -
  have "pm_contents pm (pte_addr t va i) = None \<longleftrightarrow> pm_contents pm (t * PAGE_SIZE) = None"
    by (rule pm_contents_page) (simp add: pte_addr_page page_base_aligned)
  then show ?thesis
    using pte_addr_in_page [of t va i] host_load_mem_word [of "pte_addr t va i" pm, where 'a = 64]
    by (auto simp: PhysMemory_read_eq pm_contents_def split: option.splits)
qed

text \<open>The walk as a function of the memory contents alone.\<close>

fun walk_c :: "(64 word \<rightharpoonup> byte) \<Rightarrow> VirtAddr \<Rightarrow> nat \<Rightarrow> PPN \<Rightarrow> walk_end" where
  "walk_c c va i t =
     (if c (t * PAGE_SIZE) = None then WalkFail PHYS_MEM_ACCESS_FAULT
      else let pte = mem_word c (pte_addr t va i) in
        if pte_bad pte then WalkFail MMU64_PAGE_FAULT
        else if pte_leaf pte then WalkLeaf pte i
        else if i = 0 then WalkFail MMU64_PAGE_FAULT
        else walk_c c va (i - 1) (pte_ppn pte))"

declare walk_c.simps [simp del]

lemma pt_walk_unfold:
  assumes "i < 5"
  shows "pt_walk pm va i t =
    (if pm_contents pm (t * PAGE_SIZE) = None then Inr (WalkFail PHYS_MEM_ACCESS_FAULT)
     else let pte = mem_word (pm_contents pm) (pte_addr t va i) in
       if pte_bad pte then Inr (WalkFail MMU64_PAGE_FAULT)
       else if pte_leaf pte then Inr (WalkLeaf pte i)
       else if i = 0 then Inr (WalkFail MMU64_PAGE_FAULT)
       else pt_walk pm va (i - 1) (pte_ppn pte))"
proof -
  have "pt_walk pm va i t =
    bindR (PhysMemory_read (pte_addr t va i) (0 :: PTE) pm) (\<lambda>(res, pte).
      if rd_status res \<noteq> OK then Inr (WalkFail (rd_status res))
      else if pte_bad pte then Inr (WalkFail MMU64_PAGE_FAULT)
      else if pte_leaf pte then Inr (WalkLeaf pte i)
      else if i = 0 then Inr (WalkFail MMU64_PAGE_FAULT)
      else pt_walk pm va (i - 1) (pte_ppn pte))"
    using assms
    by (subst pt_walk.simps)
      (auto simp: pte_addr_def pte_bad_def pte_leaf_def mmu_consts Let_def intro!: bindR_cong)
  then show ?thesis
    using read_pte [of t va i pm "\<lambda>s pte. if s \<noteq> OK then Inr (WalkFail s)
       else if pte_bad pte then Inr (WalkFail MMU64_PAGE_FAULT)
       else if pte_leaf pte then Inr (WalkLeaf pte i)
       else if i = 0 then Inr (WalkFail MMU64_PAGE_FAULT)
       else pt_walk pm va (i - 1) (pte_ppn pte)"] by (simp add: Let_def)
qed

lemma pt_walk_eq: "i < 5 \<Longrightarrow> pt_walk pm va i t = Inr (walk_c (pm_contents pm) va i t)"
  by (induction "pm_contents pm" va i t rule: walk_c.induct)
    (subst walk_c.simps, simp add: pt_walk_unfold Let_def)

text \<open>
  The walk reads the address only above the page offset, so it is the same for all addresses
  of a page.
\<close>

lemma vpn_field_page_base: "vpn_field (page_base va) i = vpn_field va i"
  unfolding vpn_field_def
  by (rule bit_word_eqI) (auto simp: bit_field_iff bit_page_base_iff)

lemma walk_c_page_base: "walk_c c (page_base va) i t = walk_c c va i t"
proof (induction c va i t rule: walk_c.induct)
  case (1 c va i t)
  then show ?case
    by (simp add: walk_c.simps [of c _ i t] Let_def pte_addr_def vpn_field_page_base)
qed

lemma walk_c_level: "walk_c c va i t = WalkLeaf pte j \<Longrightarrow> j \<le> i \<and> \<not> pte_bad pte \<and> pte_leaf pte"
proof (induction c va i t rule: walk_c.induct)
  case (1 c va i t)
  then show ?case
    by (subst (asm) walk_c.simps [of c va i t]) (auto simp: Let_def split: if_splits)
qed

section \<open>What a translation returns\<close>

definition superpage_ok :: "PTE \<Rightarrow> nat \<Rightarrow> bool" where
  "superpage_ok pte j \<longleftrightarrow> take_bit (9 * j) (pte_ppn pte) = 0"

text \<open>The physical address: the frame of the entry, the page offset of its level from the address.\<close>

definition leaf_pa :: "PTE \<Rightarrow> VirtAddr \<Rightarrow> nat \<Rightarrow> PhysAddr" where
  "leaf_pa pte va j = push_bit 12 (pte_ppn pte) OR take_bit (12 + 9 * j) va"

lemma calcPhysAddr_ok:
  assumes "j < 5" and "superpage_ok pte j"
  shows "calcPhysAddr pte va j = Inr (leaf_pa pte va j)"
proof -
  have zero: "\<not> bit (pte_ppn pte) n" if "n < 9 * j" for n
    using assms(2) that unfolding superpage_ok_def by (metis bit_take_bit_iff bit_0_eq bot_apply bot_bool_def)
  let ?o = "field (12 + j * 9 - 1) 0 va" and ?f = "push_bit (12 + j * 9) (field 53 (10 + j * 9) pte)"
  have "?o + ?f = ?o OR ?f"
    by (subst disjunctive_add) (auto simp: bit_simps)
  also have "\<dots> = leaf_pa pte va j"
  proof (rule bit_word_eqI)
    fix n assume n: "n < LENGTH(64)"
    show "bit (?o OR ?f) n = bit (leaf_pa pte va j) n"
    proof (cases "n < 12 + 9 * j")
      case True
      with zero [of "n - 12"] n show ?thesis
        unfolding leaf_pa_def by (auto simp: bit_simps)
    next
      case False
      then have "10 + (j * 9 + (n - (12 + j * 9))) = 10 + (n - 12)" by simp
      with False n show ?thesis
        unfolding leaf_pa_def by (auto simp: bit_simps)
    qed
  qed
  finally show ?thesis
    using assms(1) by (simp add: calcPhysAddr_def mmu_consts Let_def)
qed

fun mode_levels :: "MODEValue \<Rightarrow> nat" where
  "mode_levels BARE = 0"
| "mode_levels SV39 = 3"
| "mode_levels SV48 = 4"
| "mode_levels SV57 = 5"

lemma modeToLevels_ok [simp]: "mode \<noteq> BARE \<Longrightarrow> modeToLevels mode = Inr (mode_levels mode)"
  by (cases mode) (simp_all add: modeToLevels_def)

lemma mode_levels_le: "mode_levels mode - 1 < 5"
  by (cases mode) simp_all

text \<open>\<open>translate\<close> as a function of the memory contents.\<close>

definition translate_c ::
  "PrivLevel \<Rightarrow> AccessType \<Rightarrow> VirtAddr \<Rightarrow> MSTATUS64 \<Rightarrow> SATP64 \<Rightarrow> (64 word \<rightharpoonup> byte) \<Rightarrow> MMU64_Result res" where
  "translate_c priv acc va mstatus satp c =
     (if m_mode satp = BARE then Inr \<lparr>mmu_status = OK, phys_addr = va\<rparr>
      else case walk_c c va (mode_levels (m_mode satp) - 1) (m_ppn satp) of
        WalkFail s \<Rightarrow> Inr \<lparr>mmu_status = s, phys_addr = 0\<rparr>
      | WalkLeaf pte j \<Rightarrow>
          if checkLeafFlags priv acc (ucast pte) (m_mxr mstatus \<noteq> 0) (m_sum mstatus \<noteq> 0) \<and> superpage_ok pte j
          then bindR (SIM_ASSERT (flag_d (ucast pte) \<and> flag_a (ucast pte)))
                 (\<lambda>_. Inr \<lparr>mmu_status = OK, phys_addr = leaf_pa pte va j\<rparr>)
          else Inr PAGE_FAULT_RES)"

lemma superpage_check:
  assumes "0 < i" and "i < 5"
  shows "bindR (getBitField (10 + PPN_BIT_STEP * i - 1) 10 pte) (\<lambda>f. Inr (f \<noteq> 0)) = Inr (\<not> superpage_ok pte i)"
proof -
  have "field (9 + 9 * i) 10 pte = take_bit (9 * i) (pte_ppn pte)"
    using assms by (simp add: field_def min_def)
  then show ?thesis using assms by (simp add: mmu_consts superpage_ok_def)
qed

lemma translate_eq: "translate priv acc va mstatus satp pm = translate_c priv acc va mstatus satp (pm_contents pm)"
proof (cases "m_mode satp = BARE")
  case True
  then show ?thesis by (simp add: translate_def translate_c_def)
next
  case False
  let ?w = "walk_c (pm_contents pm) va (mode_levels (m_mode satp) - 1) (m_ppn satp)"
  have walk: "pt_walk pm va (mode_levels (m_mode satp) - 1) (m_ppn satp) = Inr ?w"
    using mode_levels_le by (rule pt_walk_eq)
  show ?thesis
  proof (cases ?w)
    case (WalkFail s)
    with False walk show ?thesis by (simp add: translate_def translate_c_def)
  next
    case (WalkLeaf pte j)
    have "j < 5" using walk_c_level [OF WalkLeaf] mode_levels_le [of "m_mode satp"] by simp
    moreover have "superpage_ok pte 0" by (simp add: superpage_ok_def)
    ultimately have misaligned: "(if 0 < j then let lo = 10; hi = lo + PPN_BIT_STEP * j - 1 in
        bindR (getBitField hi lo pte) (\<lambda>f. Inr (f \<noteq> 0)) else Inr False) = Inr (\<not> superpage_ok pte j)"
      using superpage_check [of j pte] by (simp add: Let_def)
    show ?thesis
      using False walk WalkLeaf calcPhysAddr_ok [OF \<open>j < 5\<close>, of pte va]
      unfolding translate_def translate_c_def Let_def
      by (simp add: misaligned [unfolded Let_def])
  qed
qed

text \<open>Translating another address of the same page gives the same page and its own offset.\<close>

lemma bit_leaf_pa_iff [bit_simps]:
  "bit (leaf_pa pte va j) n \<longleftrightarrow>
     n < 64 \<and> ((12 \<le> n \<and> bit (pte_ppn pte) (n - 12)) \<or> (n < 12 + 9 * j \<and> bit va n))"
  by (auto simp: leaf_pa_def bit_or_iff bit_push_bit_iff bit_take_bit_iff dest: bit_imp_le_length)

lemma leaf_pa_page: "page_base (leaf_pa pte va j) = leaf_pa pte (page_base va) j"
  by (rule bit_word_eqI) (auto simp only: bit_page_base_iff bit_leaf_pa_iff)

lemma leaf_pa_offset: "page_offset (leaf_pa pte va j) = page_offset va"
  by (rule bit_word_eqI) (auto simp: bit_page_offset_iff bit_leaf_pa_iff)

lemma walk_c_fail: "walk_c c va i t = WalkFail s \<Longrightarrow> s = PHYS_MEM_ACCESS_FAULT \<or> s = MMU64_PAGE_FAULT"
proof (induction c va i t rule: walk_c.induct)
  case (1 c va i t)
  then show ?case
    by (subst (asm) walk_c.simps [of c va i t]) (auto simp: Let_def split: if_splits)
qed

lemma translate_c_page:
  "translate_c priv acc (page_base va) mstatus satp c =
     bindR (translate_c priv acc va mstatus satp c) (\<lambda>r.
       Inr (if mmu_status r = OK then r\<lparr>phys_addr := page_base (phys_addr r)\<rparr> else r))"
  by (auto simp: translate_c_def walk_c_page_base leaf_pa_page PAGE_FAULT_RES_def bindR_assoc
      dest: walk_c_fail split: walk_end.split)

lemma translate_c_offset:
  assumes "translate_c priv acc va mstatus satp c = Inr r" and "mmu_status r = OK"
  shows "page_offset (phys_addr r) = page_offset va"
  using assms
  by (auto simp: translate_c_def PAGE_FAULT_RES_def leaf_pa_offset dest: walk_c_fail
      split: walk_end.splits if_splits)

section \<open>Specification of the walk\<close>

text \<open>
  The architecture's reading of a page table, as rules: the leaf for an address is the entry of
  the current table if that entry is a leaf, else the leaf in the table the entry points to.
  A table is usable if its page is present, an entry if it is valid, not write-only and has no
  reserved bit set.
\<close>

inductive leaf_at :: "(64 word \<rightharpoonup> byte) \<Rightarrow> VirtAddr \<Rightarrow> nat \<Rightarrow> PPN \<Rightarrow> PTE \<Rightarrow> nat \<Rightarrow> bool"
  for c va where
  here: "c (t * PAGE_SIZE) \<noteq> None \<Longrightarrow> pte = mem_word c (pte_addr t va i) \<Longrightarrow> \<not> pte_bad pte \<Longrightarrow>
     pte_leaf pte \<Longrightarrow> leaf_at c va i t pte i"
| below: "c (t * PAGE_SIZE) \<noteq> None \<Longrightarrow> pte = mem_word c (pte_addr t va (Suc i)) \<Longrightarrow> \<not> pte_bad pte \<Longrightarrow>
     \<not> pte_leaf pte \<Longrightarrow> leaf_at c va i (pte_ppn pte) pte' j \<Longrightarrow> leaf_at c va (Suc i) t pte' j"

inductive_cases leaf_at_0E: "leaf_at c va 0 t pte j"
inductive_cases leaf_at_SucE: "leaf_at c va (Suc i) t pte j"

lemma leaf_at_imp_walk: "leaf_at c va i t pte j \<Longrightarrow> walk_c c va i t = WalkLeaf pte j"
  by (induction rule: leaf_at.induct) (subst walk_c.simps, simp add: Let_def)+

lemma walk_imp_leaf_at: "walk_c c va i t = WalkLeaf pte j \<Longrightarrow> leaf_at c va i t pte j"
proof (induction i arbitrary: t)
  case 0
  then show ?case
    by (subst (asm) walk_c.simps) (auto simp: Let_def split: if_splits intro: leaf_at.here)
next
  case (Suc i)
  then show ?case
    by (subst (asm) walk_c.simps)
      (auto simp: Let_def split: if_splits intro: leaf_at.here leaf_at.below)
qed

lemma walk_leaf_iff: "walk_c c va i t = WalkLeaf pte j \<longleftrightarrow> leaf_at c va i t pte j"
  using leaf_at_imp_walk walk_imp_leaf_at by blast

text \<open>What an access may do with a leaf, in the words of the architecture.\<close>

definition access_allowed :: "PrivLevel \<Rightarrow> AccessType \<Rightarrow> PTEFlags \<Rightarrow> MSTATUS64 \<Rightarrow> bool" where
  "access_allowed priv acc f ms \<longleftrightarrow>
     (case acc of
        READ \<Rightarrow> flag_r f \<or> (m_mxr ms \<noteq> 0 \<and> flag_x f)
      | WRITE \<Rightarrow> flag_w f
      | FETCH \<Rightarrow> flag_x f) \<and>
     (if flag_u f then priv = USER \<or> (m_sum ms \<noteq> 0 \<and> acc \<noteq> FETCH) else priv \<noteq> USER)"

lemma checkLeafFlags_iff:
  "checkLeafFlags priv acc f (m_mxr ms \<noteq> 0) (m_sum ms \<noteq> 0) \<longleftrightarrow> access_allowed priv acc f ms"
  by (cases acc) (auto simp: checkLeafFlags_def access_allowed_def Let_def)

lemma translate_c_OK_iff:
  "translate_c priv acc va ms satp c = Inr \<lparr>mmu_status = OK, phys_addr = pa\<rparr> \<longleftrightarrow>
     (if m_mode satp = BARE then pa = va
      else \<exists>pte j. leaf_at c va (mode_levels (m_mode satp) - 1) (m_ppn satp) pte j \<and>
             access_allowed priv acc (ucast pte) ms \<and> superpage_ok pte j \<and>
             flag_a (ucast pte) \<and> flag_d (ucast pte) \<and> pa = leaf_pa pte va j)"
  by (auto simp: translate_c_def checkLeafFlags_iff PAGE_FAULT_RES_def res_simps
      simp flip: walk_leaf_iff split: walk_end.splits dest: walk_c_fail)

section \<open>Which stores can change a translation\<close>

text \<open>
  A family \<open>T\<close> of sets of pages, one for each level, is closed if every usable pointer entry of
  a table in \<open>T (Suc i)\<close> points to a page of \<open>T i\<close>. A walk that starts in \<open>T i\<close> at level \<open>i\<close>
  reads only pages of the family, so it does not see a change elsewhere.
\<close>

definition tables_closed :: "(64 word \<rightharpoonup> byte) \<Rightarrow> (nat \<Rightarrow> 64 word set) \<Rightarrow> bool" where
  "tables_closed c T \<longleftrightarrow>
     (\<forall>t va i. t * PAGE_SIZE \<in> T (Suc i) \<and> c (t * PAGE_SIZE) \<noteq> None \<longrightarrow>
        (let pte = mem_word c (pte_addr t va (Suc i)) in
         \<not> pte_bad pte \<and> \<not> pte_leaf pte \<longrightarrow> pte_ppn pte * PAGE_SIZE \<in> T i))"

lemma mem_word_page_cong:
  assumes "in_page a (LENGTH('a) div 8)" and "\<And>b. page_base b = page_base a \<Longrightarrow> c b = c' b"
  shows "(mem_word c a :: 'a::len word) = mem_word c' a"
  unfolding mem_word_def
  using assms in_page_step(1) [OF assms(1)] by (intro arg_cong [where f = word_of_bytes] map_cong) auto

lemma pte_cong:
  assumes "\<And>b. page_base b = t * PAGE_SIZE \<Longrightarrow> c b = c' b"
  shows "(mem_word c (pte_addr t va i) :: PTE) = mem_word c' (pte_addr t va i)"
  using assms pte_addr_in_page [of t va i]
  by (intro mem_word_page_cong) (simp_all add: pte_addr_page)

lemma walk_c_agree:
  assumes "tables_closed c T" and "\<And>a i. page_base a \<in> T i \<Longrightarrow> c a = c' a" and "t * PAGE_SIZE \<in> T i"
  shows "walk_c c' va i t = walk_c c va i t"
  using assms(3)
proof (induction i arbitrary: t)
  case (0 t)
  have "c' (t * PAGE_SIZE) = c (t * PAGE_SIZE)"
    using 0 assms(2) [of "t * PAGE_SIZE"] by (simp add: page_base_aligned)
  moreover have "(mem_word c' (pte_addr t va 0) :: PTE) = mem_word c (pte_addr t va 0)"
    using 0 assms(2) by (intro pte_cong) (metis (full_types))
  ultimately show ?case by (simp add: walk_c.simps [of _ va 0 t] Let_def)
next
  case (Suc i t)
  have present: "c' (t * PAGE_SIZE) = c (t * PAGE_SIZE)"
    using Suc.prems assms(2) [of "t * PAGE_SIZE"] by (simp add: page_base_aligned)
  have pte: "(mem_word c' (pte_addr t va (Suc i)) :: PTE) = mem_word c (pte_addr t va (Suc i))"
    using Suc.prems assms(2) by (intro pte_cong) (metis (full_types))
  show ?case
    using Suc.prems assms(1) Suc.IH
    unfolding walk_c.simps [of c' va "Suc i" t] walk_c.simps [of c va "Suc i" t] present pte Let_def tables_closed_def
    by auto
qed

text \<open>
  The page tables are protected from user code: they form a closed family that no user store can
  reach. Without translation there is nothing to protect.
\<close>

definition tables_protected :: "MSTATUS64 \<Rightarrow> SATP64 \<Rightarrow> (64 word \<rightharpoonup> byte) \<Rightarrow> bool" where
  "tables_protected ms satp c \<longleftrightarrow> m_mode satp = BARE \<or>
     (\<exists>T. tables_closed c T \<and> m_ppn satp * PAGE_SIZE \<in> T (mode_levels (m_mode satp) - 1) \<and>
        (\<forall>va pa i. translate_c USER WRITE va ms satp c = Inr \<lparr>mmu_status = OK, phys_addr = pa\<rparr> \<longrightarrow>
           page_base pa \<notin> T i))"

lemma translate_c_agree:
  assumes "m_mode satp \<noteq> BARE \<Longrightarrow> tables_closed c T \<and> m_ppn satp * PAGE_SIZE \<in> T (mode_levels (m_mode satp) - 1)"
    and "m_mode satp \<noteq> BARE \<Longrightarrow> \<forall>a i. page_base a \<in> T i \<longrightarrow> c a = c' a"
  shows "translate_c priv acc va ms satp c' = translate_c priv acc va ms satp c"
proof (cases "m_mode satp = BARE")
  case False
  have "walk_c c' va (mode_levels (m_mode satp) - 1) (m_ppn satp) = walk_c c va (mode_levels (m_mode satp) - 1) (m_ppn satp)"
    using assms False by (intro walk_c_agree [of c T c']) blast+
  with False show ?thesis by (simp add: translate_c_def)
qed (simp add: translate_c_def)

lemma tables_closed_agree:
  assumes "tables_closed c T" and "\<And>a i. page_base a \<in> T i \<Longrightarrow> c a = c' a"
  shows "tables_closed c' T"
  unfolding tables_closed_def
proof (intro allI impI)
  fix t va i
  assume t: "t * PAGE_SIZE \<in> T (Suc i) \<and> c' (t * PAGE_SIZE) \<noteq> None"
  have "c (t * PAGE_SIZE) = c' (t * PAGE_SIZE)"
    using t assms(2) [of "t * PAGE_SIZE" "Suc i"] by (simp add: page_base_aligned)
  moreover have "(mem_word c (pte_addr t va (Suc i)) :: PTE) = mem_word c' (pte_addr t va (Suc i))"
    using t assms(2) by (intro pte_cong) (metis (full_types))
  ultimately show "let pte = mem_word c' (pte_addr t va (Suc i)) in
      \<not> pte_bad pte \<and> \<not> pte_leaf pte \<longrightarrow> pte_ppn pte * PAGE_SIZE \<in> T i"
    using assms(1) t unfolding tables_closed_def by metis
qed

lemma mem_put_other_page:
  assumes "in_page a (LENGTH('a) div 8)" and "page_base b \<noteq> page_base a"
  shows "mem_put a (v :: 'a::len word) c b = c b"
proof -
  have "\<not> unat (b - a) < LENGTH('a) div 8"
    using in_page_step(1) [OF assms(1), of "unat (b - a)"] assms(2) by auto
  then show ?thesis by (simp add: mem_put_unat)
qed

text \<open>A user store through a successful translation changes no translation and keeps the protection.\<close>

lemma user_store_keeps_translation:
  fixes v :: "'a::len word"
  assumes prot: "tables_protected ms satp c"
    and tr: "translate_c USER WRITE va ms satp c = Inr \<lparr>mmu_status = OK, phys_addr = pa\<rparr>"
    and a: "page_base a = page_base pa" and inp: "in_page a (LENGTH('a) div 8)"
    and c'_def: "c' = mem_put a v c"
  shows "translate_c priv acc va' ms satp c' = translate_c priv acc va' ms satp c \<and>
         tables_protected ms satp c'"
proof (cases "m_mode satp = BARE")
  case True
  then show ?thesis by (simp add: translate_c_def tables_protected_def)
next
  case False
  with prot obtain T where T: "tables_closed c T" "m_ppn satp * PAGE_SIZE \<in> T (mode_levels (m_mode satp) - 1)"
      "\<And>va pa i. translate_c USER WRITE va ms satp c = Inr \<lparr>mmu_status = OK, phys_addr = pa\<rparr> \<Longrightarrow> page_base pa \<notin> T i"
    unfolding tables_protected_def by blast
  have agree: "c b = c' b" if "page_base b \<in> T i" for b i
    using mem_put_other_page [OF inp, of b v c] that T(3) [OF tr, of i] a by (metis c'_def)
  have same: "translate_c p ac x ms satp c' = translate_c p ac x ms satp c" for p ac x
    using T agree by (intro translate_c_agree [of _ _ T]) auto
  have "tables_closed c' T" using T(1) by (rule tables_closed_agree) (rule agree)
  then have "tables_protected ms satp c'"
    unfolding tables_protected_def same using T(2,3) by blast
  with same show ?thesis by blast
qed

text \<open>
  C22: \<open>translate\<close> returns a physical address exactly if the page tables hold a leaf for the address that
  allows the access, is aligned for its level and has its accessed and dirty bits set; the result is the
  frame of the leaf with the offset of the address. In bare mode it returns the address.
\<close>

theorem translate_spec:
  "translate priv acc va ms satp pm = Inr \<lparr>mmu_status = OK, phys_addr = pa\<rparr> \<longleftrightarrow>
     (if m_mode satp = BARE then pa = va
      else \<exists>pte j. leaf_at (pm_contents pm) va (mode_levels (m_mode satp) - 1) (m_ppn satp) pte j \<and>
             access_allowed priv acc (ucast pte) ms \<and> superpage_ok pte j \<and>
             flag_a (ucast pte) \<and> flag_d (ucast pte) \<and> pa = leaf_pa pte va j)"
  unfolding translate_eq by (rule translate_c_OK_iff)

text \<open>
  C17: all addresses of a page translate alike: with one of them, every other one translates, to the same
  offset of the same physical page.
\<close>

theorem translate_by_pages:
  assumes "translate priv acc va ms satp pm = Inr \<lparr>mmu_status = OK, phys_addr = pa\<rparr>"
    and "page_base va' = page_base va"
  shows "translate priv acc va' ms satp pm = Inr \<lparr>mmu_status = OK, phys_addr = page_base pa OR page_offset va'\<rparr>"
proof -
  have walk: "walk_c c va' i t = walk_c c va i t" for c i t
    using walk_c_page_base [of c va' i t] walk_c_page_base [of c va i t] assms(2) by simp
  have leaf: "leaf_pa pte va' j = page_base (leaf_pa pte va j) OR page_offset va'" for pte j
  proof -
    have "leaf_pa pte va' j = page_base (leaf_pa pte va' j) OR page_offset (leaf_pa pte va' j)"
      by (rule bit_word_eqI) (auto simp: bit_or_iff bit_page_base_iff bit_page_offset_iff)
    then show ?thesis by (simp add: leaf_pa_page leaf_pa_offset assms(2))
  qed
  have bare: "va' = page_base va OR page_offset va'"
    unfolding assms(2) [symmetric] by (rule bit_word_eqI) (auto simp: bit_or_iff bit_page_base_iff bit_page_offset_iff)
  show ?thesis
    using assms(1) bare unfolding translate_eq translate_c_OK_iff
    by (auto simp: leaf walk simp flip: walk_leaf_iff split: if_splits)
qed

section \<open>The bits of an address that matter\<close>

lemma vpn_field_low_bits:
  assumes "take_bit (12 + 9 * k) va = take_bit (12 + 9 * k) va'" and "i < k"
  shows "vpn_field va i = vpn_field va' i"
proof (rule bit_word_eqI)
  fix n assume "n < LENGTH(64)"
  have "bit va m = bit va' m" if "m < 12 + 9 * k" for m
    using that arg_cong [OF assms(1), of "\<lambda>w. bit w m"] by (simp add: bit_take_bit_iff)
  moreover have "12 + 9 * i + n < 12 + 9 * k" if "n < 9" using that assms(2) by simp
  ultimately show "bit (vpn_field va i) n = bit (vpn_field va' i) n"
    by (auto simp: vpn_field_def mmu_consts bit_simps)
qed

lemma walk_c_cong: "(\<And>k. k \<le> i \<Longrightarrow> vpn_field va k = vpn_field va' k) \<Longrightarrow> walk_c c va i t = walk_c c va' i t"
proof (induction i arbitrary: t)
  case 0
  have "pte_addr t va 0 = pte_addr t va' 0" using 0 by (simp add: pte_addr_def)
  then show ?case by (simp add: walk_c.simps [of c va 0] walk_c.simps [of c va' 0] Let_def)
next
  case (Suc i)
  have "pte_addr t va (Suc i) = pte_addr t va' (Suc i)" using Suc.prems [of "Suc i"] by (simp add: pte_addr_def)
  with Suc show ?case by (simp add: walk_c.simps [of c va "Suc i"] walk_c.simps [of c va' "Suc i"] Let_def)
qed

text \<open>
  C39: with translation on, the MMU looks at no more bits of an address than the levels of the mode index: two
  addresses that agree in these bits translate alike. So the address that the architecture calls
  not canonical, and for which it asks for a page fault, is an alias of a canonical one.
\<close>

theorem translate_ignores_high_bits:
  assumes mode: "m_mode satp \<noteq> BARE"
    and low: "take_bit (12 + 9 * mode_levels (m_mode satp)) va = take_bit (12 + 9 * mode_levels (m_mode satp)) va'"
  shows "translate priv acc va ms satp pm = translate priv acc va' ms satp pm"
proof -
  let ?k = "mode_levels (m_mode satp)"
  have k: "?k = Suc (?k - 1)" using mode by (cases "m_mode satp") auto
  have walk: "walk_c c va (?k - 1) t = walk_c c va' (?k - 1) t" for c t
    by (rule walk_c_cong, rule vpn_field_low_bits [OF low]) (use k in linarith)
  have leaf: "leaf_pa pte va j = leaf_pa pte va' j" if "j \<le> ?k - 1" for pte j
  proof (rule bit_word_eqI)
    have "bit va m = bit va' m" if "m < 12 + 9 * ?k" for m
      using that arg_cong [OF low, of "\<lambda>w. bit w m"] by (simp add: bit_take_bit_iff)
    moreover have "12 + 9 * j \<le> 12 + 9 * ?k" using that by simp
    ultimately show "bit (leaf_pa pte va j) n = bit (leaf_pa pte va' j) n" for n
      by (auto simp: bit_leaf_pa_iff)
  qed
  have "translate_c priv acc va ms satp c = translate_c priv acc va' ms satp c" for c
    using mode walk_c_level [of c va' "?k - 1" "m_ppn satp"] leaf
    unfolding translate_c_def walk by (auto split: walk_end.split)
  then show ?thesis by (simp add: translate_eq)
qed

end
