(* ===== verification/Tlb.thy ===== *)
theory Tlb
  imports PhysMem
begin

text \<open>
  \<^verbatim>\<open>cache/include/sim/tlb.hpp\<close>: the direct-mapped translation cache. The template parameter
  \<open>N_LOG_2\<close> is the argument \<open>k\<close>; \<open>HostPtr\<close> is a nullable host pointer in all instances. Adding an
  offset to \<^verbatim>\<open>nullptr\<close> gives a pointer that must not be used either, again \<open>None\<close>.
\<close>

section \<open>Model\<close>

definition POISON_VA :: VirtAddr where "POISON_VA = push_bit 56 1"

record TLBEntry =
  te_host :: HostPtr
  te_virt_addr :: VirtAddr

record TLB =
  m_entries :: "TLBEntry list"

definition TLB_new :: "nat \<Rightarrow> TLB" where
  "TLB_new k = \<lparr>m_entries = replicate (2 ^ k) \<lparr>te_host = None, te_virt_addr = POISON_VA\<rparr>\<rparr>"

text \<open>\<open>getEntry\<close>: the index of the entry, which \<open>operator[]\<close> does not check.\<close>

definition TLB_getEntry :: "nat \<Rightarrow> VirtAddr \<Rightarrow> TLB \<Rightarrow> nat res" where
  "TLB_getEntry k virt_addr t =
     bindR (getBitField (PAGE_BIT_SIZE + k - 1) PAGE_BIT_SIZE virt_addr) (\<lambda>i.
       if unat i < length (m_entries t) then Inr (unat i) else Inl OutOfBounds)"

definition TLB_invalidate :: "TLB \<Rightarrow> TLB" where
  "TLB_invalidate t = t\<lparr>m_entries := map (\<lambda>e. e\<lparr>te_virt_addr := POISON_VA\<rparr>) (m_entries t)\<rparr>"

definition TLB_find :: "nat \<Rightarrow> VirtAddr \<Rightarrow> TLB \<Rightarrow> (bool \<times> HostPtr) res" where
  "TLB_find k virt_addr t =
     bindR (TLB_getEntry k virt_addr t) (\<lambda>i.
       let e = m_entries t ! i;
           host = map_option (\<lambda>p. ptr_add p (virt_addr AND PAGE_OFFSET_MASK)) (te_host e)
       in Inr (virt_addr AND NOT PAGE_OFFSET_MASK = te_virt_addr e, host))"

definition TLB_update :: "nat \<Rightarrow> VirtAddr \<Rightarrow> HostPtr \<Rightarrow> TLB \<Rightarrow> TLB res" where
  "TLB_update k virt_addr host_page_ptr t =
     bindR (TLB_getEntry k virt_addr t) (\<lambda>i.
       let offset = virt_addr AND PAGE_OFFSET_MASK;
           e = \<lparr>te_host = host_page_ptr, te_virt_addr = virt_addr - offset\<rparr>
       in Inr (t\<lparr>m_entries := (m_entries t)[i := e]\<rparr>))"

section \<open>The contract of a translation cache\<close>

text \<open>
  What the simulator relies on: after an update every address of the page hits and leads to its
  offset in the host page; an update never makes another page hit that did not hit before. A
  cache may forget.
\<close>

locale translation_cache =
  fixes inv :: "'t \<Rightarrow> bool"
    and find_host :: "VirtAddr \<Rightarrow> 't \<Rightarrow> (bool \<times> HostPtr) res"
    and update :: "VirtAddr \<Rightarrow> HostPtr \<Rightarrow> 't \<Rightarrow> 't res"
    and clear :: "'t \<Rightarrow> 't"
    and poison :: VirtAddr
  assumes find_total: "inv t \<Longrightarrow> \<exists>r. find_host va t = Inr r"
    and update_total: "inv t \<Longrightarrow> \<exists>t'. update va p t = Inr t' \<and> inv t'"
    and find_update_same: "inv t \<Longrightarrow> update va p t = Inr t' \<Longrightarrow> page_base va' = page_base va \<Longrightarrow>
       find_host va' t' = Inr (True, map_option (\<lambda>q. ptr_add q (page_offset va')) p)"
    and find_update_other: "inv t \<Longrightarrow> update va p t = Inr t' \<Longrightarrow> page_base va' \<noteq> page_base va \<Longrightarrow>
       find_host va' t' = Inr (True, h) \<Longrightarrow> find_host va' t = Inr (True, h)"
    and clear_inv: "inv t \<Longrightarrow> inv (clear t)"
    and find_clear: "inv t \<Longrightarrow> find_host va (clear t) = Inr (True, h) \<Longrightarrow> page_base va = poison"
begin

text \<open>Every hit satisfies \<open>R\<close>, if the entries that were added do.\<close>

lemma hits_update:
  assumes "inv t" and "update va p t = Inr t'"
    and "\<And>va h. find_host va t = Inr (True, h) \<Longrightarrow> R va h"
    and "\<And>va'. page_base va' = page_base va \<Longrightarrow> R va' (map_option (\<lambda>q. ptr_add q (page_offset va')) p)"
    and "find_host va' t' = Inr (True, h)"
  shows "R va' h"
proof (cases "page_base va' = page_base va")
  case True
  then show ?thesis using find_update_same [OF assms(1,2) True] assms(4,5) by simp
next
  case False
  then show ?thesis using find_update_other [OF assms(1,2) False assms(5)] assms(3) by blast
qed

lemma clear_misses:
  assumes "inv t" and "page_base va \<noteq> poison"
  shows "\<exists>h. find_host va (clear t) = Inr (False, h)"
  using find_total [OF clear_inv [OF assms(1)], of va] find_clear [OF assms(1)] assms(2) by fastforce

end

section \<open>The TLB is a translation cache\<close>

definition tlb_inv :: "nat \<Rightarrow> TLB \<Rightarrow> bool" where
  "tlb_inv k t \<longleftrightarrow> length (m_entries t) = 2 ^ k"

definition tlb_index :: "nat \<Rightarrow> VirtAddr \<Rightarrow> nat" where
  "tlb_index k va = unat (field (11 + k) 12 va)"

lemma tlb_index_page: "page_base va = page_base va' \<Longrightarrow> tlb_index k va = tlb_index k va'"
proof -
  have "field (11 + k) 12 (page_base a) = field (11 + k) 12 a" for a :: "64 word"
    by (rule bit_word_eqI) (auto simp: bit_field_iff bit_page_base_iff)
  then show "page_base va = page_base va' \<Longrightarrow> ?thesis" by (metis tlb_index_def)
qed

lemma TLB_getEntry_ok:
  assumes "tlb_inv k t" and "0 < k" and "k \<le> 52"
  shows "TLB_getEntry k va t = Inr (tlb_index k va)" and "tlb_index k va < length (m_entries t)"
proof -
  have "12 + k - 1 = 11 + k" by simp
  moreover have "unat (field (11 + k) 12 va) < 2 ^ k" using unat_field_less [of "11 + k" 12 va] by simp
  ultimately show "TLB_getEntry k va t = Inr (tlb_index k va)" "tlb_index k va < length (m_entries t)"
    using assms by (simp_all add: TLB_getEntry_def PAGE_BIT_SIZE_def tlb_inv_def tlb_index_def)
qed

lemma tlb_translation_cache:
  assumes k: "0 < k" "k \<le> 52"
  shows "translation_cache (tlb_inv k) (TLB_find k) (TLB_update k) TLB_invalidate POISON_VA"
proof
  note e = TLB_getEntry_ok [OF _ k]
  fix t :: TLB and va va' p t' h
  assume inv: "tlb_inv k t"
  show "\<exists>r. TLB_find k va t = Inr r" using e [OF inv] by (simp add: TLB_find_def Let_def)
  show "\<exists>t'. TLB_update k va p t = Inr t' \<and> tlb_inv k t'"
    using e [OF inv] inv by (simp add: TLB_update_def Let_def tlb_inv_def)
  show clr: "tlb_inv k (TLB_invalidate t)" using inv by (simp add: TLB_invalidate_def tlb_inv_def)
  show "TLB_find k va (TLB_invalidate t) = Inr (True, h) \<Longrightarrow> page_base va = POISON_VA"
    using e(1) [OF clr] e(2) [OF inv, of va]
    by (simp add: TLB_find_def Let_def) (simp add: TLB_invalidate_def)
  assume upd: "TLB_update k va p t = Inr t'"
  then have t': "t' = t\<lparr>m_entries := (m_entries t)[tlb_index k va := \<lparr>te_host = p, te_virt_addr = page_base va\<rparr>]\<rparr>"
    using e(1) [OF inv] by (simp add: TLB_update_def Let_def page_base_eq_minus)
  then have inv': "tlb_inv k t'" using inv by (simp add: tlb_inv_def)
  show "page_base va' = page_base va \<Longrightarrow>
      TLB_find k va' t' = Inr (True, map_option (\<lambda>q. ptr_add q (page_offset va')) p)"
    using e(1) [OF inv'] e(2) [OF inv, of va] tlb_index_page [of va' va k]
    by (simp add: TLB_find_def Let_def) (simp add: t')
  show "TLB_find k va' t = Inr (True, h)"
    if "page_base va' \<noteq> page_base va" and "TLB_find k va' t' = Inr (True, h)"
    using that e(1) [OF inv'] e [OF inv] by (cases "tlb_index k va' = tlb_index k va")
      (auto simp: TLB_find_def Let_def t')
qed

interpretation tlb7: translation_cache "tlb_inv 7" "TLB_find 7" "TLB_update 7" TLB_invalidate POISON_VA
  by (rule tlb_translation_cache) simp_all

text \<open>
  A new or invalidated TLB hits on one page only, the one at \<open>POISON_VA\<close>; a new one answers it
  with \<^verbatim>\<open>nullptr\<close>.
\<close>

lemma TLB_new_inv [simp]: "tlb_inv k (TLB_new k)"
  by (simp add: tlb_inv_def TLB_new_def)

lemma TLB_find_new:
  assumes "0 < k" and "k \<le> 52"
  shows "TLB_find k va (TLB_new k) = Inr (page_base va = POISON_VA, None)"
  using TLB_getEntry_ok [OF TLB_new_inv assms, of va] by (simp add: TLB_find_def TLB_new_def Let_def)

text \<open>
  C29: after \<open>update\<close> every address of the page hits and leads to its own offset in the host page, and no
  other page hits that did not hit before, with the same pointer.
\<close>

theorem tlb_find_after_update:
  assumes "tlb_inv k t" and "0 < k" and "k \<le> 52"
  shows "\<exists>t'. TLB_update k va p t = Inr t' \<and> tlb_inv k t' \<and>
    (\<forall>va' h. TLB_find k va' t' = Inr (True, h) \<longleftrightarrow>
       (if page_base va' = page_base va then h = map_option (\<lambda>q. ptr_add q (page_offset va')) p
        else TLB_find k va' t = Inr (True, h) \<and> tlb_index k va' \<noteq> tlb_index k va))"
proof -
  note e = TLB_getEntry_ok [OF _ assms(2,3)]
  let ?t = "t\<lparr>m_entries := (m_entries t)[tlb_index k va := \<lparr>te_host = p, te_virt_addr = page_base va\<rparr>]\<rparr>"
  have upd: "TLB_update k va p t = Inr ?t"
    using e(1) [OF assms(1)] by (simp add: TLB_update_def Let_def page_base_eq_minus)
  have inv: "tlb_inv k ?t" using assms(1) by (simp add: tlb_inv_def)
  have "TLB_find k va' ?t = Inr (True, h) \<longleftrightarrow>
       (if page_base va' = page_base va then h = map_option (\<lambda>q. ptr_add q (page_offset va')) p
        else TLB_find k va' t = Inr (True, h) \<and> tlb_index k va' \<noteq> tlb_index k va)" for va' h
    using e(1) [OF inv] e [OF assms(1)] tlb_index_page [of va' va k]
    by (cases "tlb_index k va' = tlb_index k va") (auto simp: TLB_find_def Let_def)
  with upd inv show ?thesis by blast
qed

end
