(* ===== verification/InstrDecode.thy ===== *)
theory InstrDecode
  imports Common
begin

text \<open>
  \<^verbatim>\<open>instr/include/sim/instr.hpp\<close> and the decoder. The decoding constructor \<open>Instr(InstrCode)\<close>
  is generated by \<^verbatim>\<open>instr/gen_decode.py\<close> from \<^verbatim>\<open>risc-v.yaml\<close>; both are modelled: the
  tables of the description are data, and \<open>decode\<close> is the meaning of the code the generator emits for
  them (nested \<open>switch\<close> statements over bit fields with an empty \<open>default\<close>, then assignments to the
  members). Of the 198 instructions of the description the constructors of \<open>InstrId\<close> name the 50 that
  \<^verbatim>\<open>simulator/gen_dispatch.py\<close> gives a handler; the others are \<open>NotImpl\<close> with their enumerator.
\<close>

section \<open>Instructions\<close>

datatype InstrId =
    SIM_STATUS_INSTR
  | I_BEQ | I_BNE | I_BLT | I_BGE | I_BLTU | I_BGEU | I_JALR | I_JAL | I_LUI | I_AUIPC 
  | I_ADDI | I_SLLI | I_SLTI | I_SLTIU | I_XORI | I_SRLI | I_SRAI | I_ORI | I_ANDI 
  | I_ADD | I_SUB | I_SLL | I_SLT | I_SLTU | I_XOR | I_SRL | I_SRA | I_OR | I_AND 
  | I_ADDIW | I_SLLIW | I_SRLIW | I_SRAIW | I_ADDW | I_SUBW | I_SLLW | I_SRLW | I_SRAW 
  | I_LB | I_LH | I_LW | I_LD | I_LBU | I_LHU | I_LWU | I_SB | I_SH | I_SW | I_SD 
  | I_ECALL
  | NotImpl string

record Instr =
  m_id :: InstrId
  m_rd :: "8 word"
  m_rs1 :: "8 word"
  m_rs2 :: "8 word"
  m_imm :: "32 word"
  m_rm :: "8 word"

text \<open>The default member initialisers.\<close>

definition Instr_default :: Instr where
  "Instr_default =
     \<lparr>m_id = SIM_STATUS_INSTR, m_rd = 0, m_rs1 = 0, m_rs2 = 0,
      m_imm = to_underlying SIM_NOT_IMPLEMENTED_INSTR, m_rm = 0\<rparr>"

definition statusInstr :: "SimStatus \<Rightarrow> Instr" where
  "statusInstr status = Instr_default\<lparr>m_imm := to_underlying status\<rparr>"

definition Instr_status :: "Instr \<Rightarrow> SimStatus res" where
  "Instr_status instr =
     bindR (SIM_ASSERT (m_id instr = SIM_STATUS_INSTR)) (\<lambda>_. SimStatus_of_code (m_imm instr))"

section \<open>The description\<close>

datatype YamlField =
    Y_rd | Y_rs1 | Y_rs2 | Y_rs3 | Y_rm | Y_imm12 | Y_imm20 | Y_jimm20 | Y_storeimm | Y_bimm
  | Y_aqrl | Y_shamt | Y_shamtw | Y_pred | Y_succ | Y_fm

text \<open>A section of a field: bits \<open>msb .. lsb\<close> of the code are bits \<open>from .. to\<close> of the value.\<close>

datatype BitSection = BitSection (bs_msb: nat) (bs_lsb: nat) (bs_from: nat) (bs_to: nat)

fun yaml_fields :: "YamlField \<Rightarrow> BitSection list" where
  "yaml_fields Y_rd = [BitSection 11 7 4 0]"
| "yaml_fields Y_rs1 = [BitSection 19 15 4 0]"
| "yaml_fields Y_rs2 = [BitSection 24 20 4 0]"
| "yaml_fields Y_rs3 = [BitSection 31 27 4 0]"
| "yaml_fields Y_rm = [BitSection 14 12 2 0]"
| "yaml_fields Y_imm12 = [BitSection 31 20 11 0]"
| "yaml_fields Y_imm20 = [BitSection 31 12 31 12]"
| "yaml_fields Y_jimm20 = [BitSection 31 31 20 20, BitSection 30 21 10 1, BitSection 20 20 11 11, BitSection 19 12 19 12]"
| "yaml_fields Y_storeimm = [BitSection 31 25 11 5, BitSection 11 7 4 0]"
| "yaml_fields Y_bimm = [BitSection 31 31 12 12, BitSection 30 25 10 5, BitSection 11 8 4 1, BitSection 7 7 11 11]"
| "yaml_fields Y_aqrl = [BitSection 26 25 1 0]"
| "yaml_fields Y_shamt = [BitSection 25 20 5 0]"
| "yaml_fields Y_shamtw = [BitSection 24 20 4 0]"
| "yaml_fields Y_pred = [BitSection 27 24 3 0]"
| "yaml_fields Y_succ = [BitSection 23 20 3 0]"
| "yaml_fields Y_fm = [BitSection 31 28 3 0]"

datatype YamlInstr =
  YamlInstr (mnemonic: InstrId) (y_fields: "YamlField list") (fixedmask: "32 word") (fixedvalue: "32 word")

text \<open>
  A node of the decoder tree: an instruction (in the file an alias of an entry of \<open>instructions\<close>,
  which the loader resolves), or a range of bits to switch on.
\<close>

datatype DecoderNode = Instruction YamlInstr | Range nat nat "(32 word \<times> DecoderNode) list"

text \<open>The tree, one definition for each value of the opcode that has a node of its own.\<close>

definition opcode_99 :: DecoderNode where
  "opcode_99 =
    Range 14 12
     [(0, Instruction (YamlInstr I_BEQ [Y_rs1, Y_rs2, Y_bimm] 0x707F 0x63)),
      (1, Instruction (YamlInstr I_BNE [Y_rs1, Y_rs2, Y_bimm] 0x707F 0x1063)),
      (4, Instruction (YamlInstr I_BLT [Y_rs1, Y_rs2, Y_bimm] 0x707F 0x4063)),
      (5, Instruction (YamlInstr I_BGE [Y_rs1, Y_rs2, Y_bimm] 0x707F 0x5063)),
      (6, Instruction (YamlInstr I_BLTU [Y_rs1, Y_rs2, Y_bimm] 0x707F 0x6063)),
      (7, Instruction (YamlInstr I_BGEU [Y_rs1, Y_rs2, Y_bimm] 0x707F 0x7063))]"

definition opcode_19 :: DecoderNode where
  "opcode_19 =
    Range 14 12
     [(0, Instruction (YamlInstr I_ADDI [Y_rd, Y_rs1, Y_imm12] 0x707F 0x13)),
      (1, Instruction (YamlInstr I_SLLI [Y_rd, Y_rs1, Y_shamt] 0xFC00707F 0x1013)),
      (2, Instruction (YamlInstr I_SLTI [Y_rd, Y_rs1, Y_imm12] 0x707F 0x2013)),
      (3, Instruction (YamlInstr I_SLTIU [Y_rd, Y_rs1, Y_imm12] 0x707F 0x3013)),
      (4, Instruction (YamlInstr I_XORI [Y_rd, Y_rs1, Y_imm12] 0x707F 0x4013)),
      (5, Range 31 26
       [(0, Instruction (YamlInstr I_SRLI [Y_rd, Y_rs1, Y_shamt] 0xFC00707F 0x5013)),
        (16, Instruction (YamlInstr I_SRAI [Y_rd, Y_rs1, Y_shamt] 0xFC00707F 0x40005013))]),
      (6, Instruction (YamlInstr I_ORI [Y_rd, Y_rs1, Y_imm12] 0x707F 0x6013)),
      (7, Instruction (YamlInstr I_ANDI [Y_rd, Y_rs1, Y_imm12] 0x707F 0x7013))]"

definition opcode_51 :: DecoderNode where
  "opcode_51 =
    Range 31 25
     [(0, Range 14 12
       [(0, Instruction (YamlInstr I_ADD [Y_rd, Y_rs1, Y_rs2] 0xFE00707F 0x33)),
        (1, Instruction (YamlInstr I_SLL [Y_rd, Y_rs1, Y_rs2] 0xFE00707F 0x1033)),
        (2, Instruction (YamlInstr I_SLT [Y_rd, Y_rs1, Y_rs2] 0xFE00707F 0x2033)),
        (3, Instruction (YamlInstr I_SLTU [Y_rd, Y_rs1, Y_rs2] 0xFE00707F 0x3033)),
        (4, Instruction (YamlInstr I_XOR [Y_rd, Y_rs1, Y_rs2] 0xFE00707F 0x4033)),
        (5, Instruction (YamlInstr I_SRL [Y_rd, Y_rs1, Y_rs2] 0xFE00707F 0x5033)),
        (6, Instruction (YamlInstr I_OR [Y_rd, Y_rs1, Y_rs2] 0xFE00707F 0x6033)),
        (7, Instruction (YamlInstr I_AND [Y_rd, Y_rs1, Y_rs2] 0xFE00707F 0x7033))]),
      (32, Range 14 12
       [(0, Instruction (YamlInstr I_SUB [Y_rd, Y_rs1, Y_rs2] 0xFE00707F 0x40000033)),
        (5, Instruction (YamlInstr I_SRA [Y_rd, Y_rs1, Y_rs2] 0xFE00707F 0x40005033))]),
      (1, Range 14 12
       [(0, Instruction (YamlInstr (NotImpl ''MUL'') [Y_rd, Y_rs1, Y_rs2] 0xFE00707F 0x2000033)),
        (1, Instruction (YamlInstr (NotImpl ''MULH'') [Y_rd, Y_rs1, Y_rs2] 0xFE00707F 0x2001033)),
        (2, Instruction (YamlInstr (NotImpl ''MULHSU'') [Y_rd, Y_rs1, Y_rs2] 0xFE00707F 0x2002033)),
        (3, Instruction (YamlInstr (NotImpl ''MULHU'') [Y_rd, Y_rs1, Y_rs2] 0xFE00707F 0x2003033)),
        (4, Instruction (YamlInstr (NotImpl ''DIV'') [Y_rd, Y_rs1, Y_rs2] 0xFE00707F 0x2004033)),
        (5, Instruction (YamlInstr (NotImpl ''DIVU'') [Y_rd, Y_rs1, Y_rs2] 0xFE00707F 0x2005033)),
        (6, Instruction (YamlInstr (NotImpl ''REM'') [Y_rd, Y_rs1, Y_rs2] 0xFE00707F 0x2006033)),
        (7, Instruction (YamlInstr (NotImpl ''REMU'') [Y_rd, Y_rs1, Y_rs2] 0xFE00707F 0x2007033))])]"

definition opcode_27 :: DecoderNode where
  "opcode_27 =
    Range 14 12
     [(0, Instruction (YamlInstr I_ADDIW [Y_rd, Y_rs1, Y_imm12] 0x707F 0x1B)),
      (1, Instruction (YamlInstr I_SLLIW [Y_rd, Y_rs1, Y_shamtw] 0xFE00707F 0x101B)),
      (5, Range 31 25
       [(0, Instruction (YamlInstr I_SRLIW [Y_rd, Y_rs1, Y_shamtw] 0xFE00707F 0x501B)),
        (32, Instruction (YamlInstr I_SRAIW [Y_rd, Y_rs1, Y_shamtw] 0xFE00707F 0x4000501B))])]"

definition opcode_59 :: DecoderNode where
  "opcode_59 =
    Range 31 25
     [(0, Range 14 12
       [(0, Instruction (YamlInstr I_ADDW [Y_rd, Y_rs1, Y_rs2] 0xFE00707F 0x3B)),
        (1, Instruction (YamlInstr I_SLLW [Y_rd, Y_rs1, Y_rs2] 0xFE00707F 0x103B)),
        (5, Instruction (YamlInstr I_SRLW [Y_rd, Y_rs1, Y_rs2] 0xFE00707F 0x503B))]),
      (32, Range 14 12
       [(0, Instruction (YamlInstr I_SUBW [Y_rd, Y_rs1, Y_rs2] 0xFE00707F 0x4000003B)),
        (5, Instruction (YamlInstr I_SRAW [Y_rd, Y_rs1, Y_rs2] 0xFE00707F 0x4000503B))]),
      (1, Range 14 12
       [(0, Instruction (YamlInstr (NotImpl ''MULW'') [Y_rd, Y_rs1, Y_rs2] 0xFE00707F 0x200003B)),
        (4, Instruction (YamlInstr (NotImpl ''DIVW'') [Y_rd, Y_rs1, Y_rs2] 0xFE00707F 0x200403B)),
        (5, Instruction (YamlInstr (NotImpl ''DIVUW'') [Y_rd, Y_rs1, Y_rs2] 0xFE00707F 0x200503B)),
        (6, Instruction (YamlInstr (NotImpl ''REMW'') [Y_rd, Y_rs1, Y_rs2] 0xFE00707F 0x200603B)),
        (7, Instruction (YamlInstr (NotImpl ''REMUW'') [Y_rd, Y_rs1, Y_rs2] 0xFE00707F 0x200703B))])]"

definition opcode_3 :: DecoderNode where
  "opcode_3 =
    Range 14 12
     [(0, Instruction (YamlInstr I_LB [Y_rd, Y_rs1, Y_imm12] 0x707F 0x3)),
      (1, Instruction (YamlInstr I_LH [Y_rd, Y_rs1, Y_imm12] 0x707F 0x1003)),
      (2, Instruction (YamlInstr I_LW [Y_rd, Y_rs1, Y_imm12] 0x707F 0x2003)),
      (3, Instruction (YamlInstr I_LD [Y_rd, Y_rs1, Y_imm12] 0x707F 0x3003)),
      (4, Instruction (YamlInstr I_LBU [Y_rd, Y_rs1, Y_imm12] 0x707F 0x4003)),
      (5, Instruction (YamlInstr I_LHU [Y_rd, Y_rs1, Y_imm12] 0x707F 0x5003)),
      (6, Instruction (YamlInstr I_LWU [Y_rd, Y_rs1, Y_imm12] 0x707F 0x6003))]"

definition opcode_35 :: DecoderNode where
  "opcode_35 =
    Range 14 12
     [(0, Instruction (YamlInstr I_SB [Y_rs1, Y_rs2, Y_storeimm] 0x707F 0x23)),
      (1, Instruction (YamlInstr I_SH [Y_rs1, Y_rs2, Y_storeimm] 0x707F 0x1023)),
      (2, Instruction (YamlInstr I_SW [Y_rs1, Y_rs2, Y_storeimm] 0x707F 0x2023)),
      (3, Instruction (YamlInstr I_SD [Y_rs1, Y_rs2, Y_storeimm] 0x707F 0x3023))]"

definition opcode_15 :: DecoderNode where
  "opcode_15 =
    Range 14 12
     [(0, Instruction (YamlInstr (NotImpl ''FENCE'') [Y_fm, Y_pred, Y_succ, Y_rs1, Y_rd] 0x707F 0xF)),
      (1, Instruction (YamlInstr (NotImpl ''FENCE_I'') [Y_imm12, Y_rs1, Y_rd] 0x707F 0x100F))]"

definition opcode_47 :: DecoderNode where
  "opcode_47 =
    Range 31 27
     [(0, Range 14 12
       [(2, Instruction (YamlInstr (NotImpl ''AMOADD_W'') [Y_rd, Y_rs1, Y_rs2, Y_aqrl] 0xF800707F 0x202F)),
        (3, Instruction (YamlInstr (NotImpl ''AMOADD_D'') [Y_rd, Y_rs1, Y_rs2, Y_aqrl] 0xF800707F 0x302F))]),
      (4, Range 14 12
       [(2, Instruction (YamlInstr (NotImpl ''AMOXOR_W'') [Y_rd, Y_rs1, Y_rs2, Y_aqrl] 0xF800707F 0x2000202F)),
        (3, Instruction (YamlInstr (NotImpl ''AMOXOR_D'') [Y_rd, Y_rs1, Y_rs2, Y_aqrl] 0xF800707F 0x2000302F))]),
      (8, Range 14 12
       [(2, Instruction (YamlInstr (NotImpl ''AMOOR_W'') [Y_rd, Y_rs1, Y_rs2, Y_aqrl] 0xF800707F 0x4000202F)),
        (3, Instruction (YamlInstr (NotImpl ''AMOOR_D'') [Y_rd, Y_rs1, Y_rs2, Y_aqrl] 0xF800707F 0x4000302F))]),
      (12, Range 14 12
       [(2, Instruction (YamlInstr (NotImpl ''AMOAND_W'') [Y_rd, Y_rs1, Y_rs2, Y_aqrl] 0xF800707F 0x6000202F)),
        (3, Instruction (YamlInstr (NotImpl ''AMOAND_D'') [Y_rd, Y_rs1, Y_rs2, Y_aqrl] 0xF800707F 0x6000302F))]),
      (16, Range 14 12
       [(2, Instruction (YamlInstr (NotImpl ''AMOMIN_W'') [Y_rd, Y_rs1, Y_rs2, Y_aqrl] 0xF800707F 0x8000202F)),
        (3, Instruction (YamlInstr (NotImpl ''AMOMIN_D'') [Y_rd, Y_rs1, Y_rs2, Y_aqrl] 0xF800707F 0x8000302F))]),
      (20, Range 14 12
       [(2, Instruction (YamlInstr (NotImpl ''AMOMAX_W'') [Y_rd, Y_rs1, Y_rs2, Y_aqrl] 0xF800707F 0xA000202F)),
        (3, Instruction (YamlInstr (NotImpl ''AMOMAX_D'') [Y_rd, Y_rs1, Y_rs2, Y_aqrl] 0xF800707F 0xA000302F))]),
      (24, Range 14 12
       [(2, Instruction (YamlInstr (NotImpl ''AMOMINU_W'') [Y_rd, Y_rs1, Y_rs2, Y_aqrl] 0xF800707F 0xC000202F)),
        (3, Instruction (YamlInstr (NotImpl ''AMOMINU_D'') [Y_rd, Y_rs1, Y_rs2, Y_aqrl] 0xF800707F 0xC000302F))]),
      (28, Range 14 12
       [(2, Instruction (YamlInstr (NotImpl ''AMOMAXU_W'') [Y_rd, Y_rs1, Y_rs2, Y_aqrl] 0xF800707F 0xE000202F)),
        (3, Instruction (YamlInstr (NotImpl ''AMOMAXU_D'') [Y_rd, Y_rs1, Y_rs2, Y_aqrl] 0xF800707F 0xE000302F))]),
      (1, Range 14 12
       [(2, Instruction (YamlInstr (NotImpl ''AMOSWAP_W'') [Y_rd, Y_rs1, Y_rs2, Y_aqrl] 0xF800707F 0x800202F)),
        (3, Instruction (YamlInstr (NotImpl ''AMOSWAP_D'') [Y_rd, Y_rs1, Y_rs2, Y_aqrl] 0xF800707F 0x800302F))]),
      (2, Range 24 20
       [(0, Range 14 12
         [(2, Instruction (YamlInstr (NotImpl ''LR_W'') [Y_rd, Y_rs1, Y_aqrl] 0xF9F0707F 0x1000202F)),
          (3, Instruction (YamlInstr (NotImpl ''LR_D'') [Y_rd, Y_rs1, Y_aqrl] 0xF9F0707F 0x1000302F))])]),
      (3, Range 14 12
       [(2, Instruction (YamlInstr (NotImpl ''SC_W'') [Y_rd, Y_rs1, Y_rs2, Y_aqrl] 0xF800707F 0x1800202F)),
        (3, Instruction (YamlInstr (NotImpl ''SC_D'') [Y_rd, Y_rs1, Y_rs2, Y_aqrl] 0xF800707F 0x1800302F))])]"

definition opcode_115 :: DecoderNode where
  "opcode_115 =
    Range 14 12
     [(0, Range 31 25
       [(0, Range 24 15
         [(0, Instruction (YamlInstr I_ECALL [] 0xFFFFFFFF 0x73)),
          (32, Instruction (YamlInstr (NotImpl ''EBREAK'') [] 0xFFFFFFFF 0x100073)),
          (64, Instruction (YamlInstr (NotImpl ''URET'') [] 0xFFFFFFFF 0x200073))]),
        (8, Range 24 15
         [(64, Instruction (YamlInstr (NotImpl ''SRET'') [] 0xFFFFFFFF 0x10200073)),
          (160, Instruction (YamlInstr (NotImpl ''WFI'') [] 0xFFFFFFFF 0x10500073))]),
        (24, Instruction (YamlInstr (NotImpl ''MRET'') [] 0xFFFFFFFF 0x30200073)),
        (61, Instruction (YamlInstr (NotImpl ''DRET'') [] 0xFFFFFFFF 0x7B200073)),
        (9, Instruction (YamlInstr (NotImpl ''SFENCE_VMA'') [Y_rs1, Y_rs2] 0xFE007FFF 0x12000073)),
        (17, Instruction (YamlInstr (NotImpl ''HFENCE_VVMA'') [Y_rs1, Y_rs2] 0xFE007FFF 0x22000073)),
        (49, Instruction (YamlInstr (NotImpl ''HFENCE_GVMA'') [Y_rs1, Y_rs2] 0xFE007FFF 0x62000073))]),
      (1, Instruction (YamlInstr (NotImpl ''CSRRW'') [Y_rd, Y_rs1, Y_imm12] 0x707F 0x1073)),
      (2, Instruction (YamlInstr (NotImpl ''CSRRS'') [Y_rd, Y_rs1, Y_imm12] 0x707F 0x2073)),
      (3, Instruction (YamlInstr (NotImpl ''CSRRC'') [Y_rd, Y_rs1, Y_imm12] 0x707F 0x3073)),
      (5, Instruction (YamlInstr (NotImpl ''CSRRWI'') [Y_rd, Y_rs1, Y_imm12] 0x707F 0x5073)),
      (6, Instruction (YamlInstr (NotImpl ''CSRRSI'') [Y_rd, Y_rs1, Y_imm12] 0x707F 0x6073)),
      (7, Instruction (YamlInstr (NotImpl ''CSRRCI'') [Y_rd, Y_rs1, Y_imm12] 0x707F 0x7073))]"

definition opcode_83 :: DecoderNode where
  "opcode_83 =
    Range 31 25
     [(0, Instruction (YamlInstr (NotImpl ''FADD_S'') [Y_rd, Y_rs1, Y_rs2, Y_rm] 0xFE00007F 0x53)),
      (4, Instruction (YamlInstr (NotImpl ''FSUB_S'') [Y_rd, Y_rs1, Y_rs2, Y_rm] 0xFE00007F 0x8000053)),
      (8, Instruction (YamlInstr (NotImpl ''FMUL_S'') [Y_rd, Y_rs1, Y_rs2, Y_rm] 0xFE00007F 0x10000053)),
      (12, Instruction (YamlInstr (NotImpl ''FDIV_S'') [Y_rd, Y_rs1, Y_rs2, Y_rm] 0xFE00007F 0x18000053)),
      (16, Range 14 12
       [(0, Instruction (YamlInstr (NotImpl ''FSGNJ_S'') [Y_rd, Y_rs1, Y_rs2] 0xFE00707F 0x20000053)),
        (1, Instruction (YamlInstr (NotImpl ''FSGNJN_S'') [Y_rd, Y_rs1, Y_rs2] 0xFE00707F 0x20001053)),
        (2, Instruction (YamlInstr (NotImpl ''FSGNJX_S'') [Y_rd, Y_rs1, Y_rs2] 0xFE00707F 0x20002053))]),
      (20, Range 14 12
       [(0, Instruction (YamlInstr (NotImpl ''FMIN_S'') [Y_rd, Y_rs1, Y_rs2] 0xFE00707F 0x28000053)),
        (1, Instruction (YamlInstr (NotImpl ''FMAX_S'') [Y_rd, Y_rs1, Y_rs2] 0xFE00707F 0x28001053))]),
      (44, Instruction (YamlInstr (NotImpl ''FSQRT_S'') [Y_rd, Y_rs1, Y_rm] 0xFFF0007F 0x58000053)),
      (1, Instruction (YamlInstr (NotImpl ''FADD_D'') [Y_rd, Y_rs1, Y_rs2, Y_rm] 0xFE00007F 0x2000053)),
      (5, Instruction (YamlInstr (NotImpl ''FSUB_D'') [Y_rd, Y_rs1, Y_rs2, Y_rm] 0xFE00007F 0xA000053)),
      (9, Instruction (YamlInstr (NotImpl ''FMUL_D'') [Y_rd, Y_rs1, Y_rs2, Y_rm] 0xFE00007F 0x12000053)),
      (13, Instruction (YamlInstr (NotImpl ''FDIV_D'') [Y_rd, Y_rs1, Y_rs2, Y_rm] 0xFE00007F 0x1A000053)),
      (17, Range 14 12
       [(0, Instruction (YamlInstr (NotImpl ''FSGNJ_D'') [Y_rd, Y_rs1, Y_rs2] 0xFE00707F 0x22000053)),
        (1, Instruction (YamlInstr (NotImpl ''FSGNJN_D'') [Y_rd, Y_rs1, Y_rs2] 0xFE00707F 0x22001053)),
        (2, Instruction (YamlInstr (NotImpl ''FSGNJX_D'') [Y_rd, Y_rs1, Y_rs2] 0xFE00707F 0x22002053))]),
      (21, Range 14 12
       [(0, Instruction (YamlInstr (NotImpl ''FMIN_D'') [Y_rd, Y_rs1, Y_rs2] 0xFE00707F 0x2A000053)),
        (1, Instruction (YamlInstr (NotImpl ''FMAX_D'') [Y_rd, Y_rs1, Y_rs2] 0xFE00707F 0x2A001053))]),
      (32, Range 24 20
       [(1, Instruction (YamlInstr (NotImpl ''FCVT_S_D'') [Y_rd, Y_rs1, Y_rm] 0xFFF0007F 0x40100053)),
        (3, Instruction (YamlInstr (NotImpl ''FCVT_S_Q'') [Y_rd, Y_rs1, Y_rm] 0xFFF0007F 0x40300053))]),
      (33, Range 24 20
       [(0, Instruction (YamlInstr (NotImpl ''FCVT_D_S'') [Y_rd, Y_rs1, Y_rm] 0xFFF0007F 0x42000053)),
        (3, Instruction (YamlInstr (NotImpl ''FCVT_D_Q'') [Y_rd, Y_rs1, Y_rm] 0xFFF0007F 0x42300053))]),
      (45, Instruction (YamlInstr (NotImpl ''FSQRT_D'') [Y_rd, Y_rs1, Y_rm] 0xFFF0007F 0x5A000053)),
      (3, Instruction (YamlInstr (NotImpl ''FADD_Q'') [Y_rd, Y_rs1, Y_rs2, Y_rm] 0xFE00007F 0x6000053)),
      (7, Instruction (YamlInstr (NotImpl ''FSUB_Q'') [Y_rd, Y_rs1, Y_rs2, Y_rm] 0xFE00007F 0xE000053)),
      (11, Instruction (YamlInstr (NotImpl ''FMUL_Q'') [Y_rd, Y_rs1, Y_rs2, Y_rm] 0xFE00007F 0x16000053)),
      (15, Instruction (YamlInstr (NotImpl ''FDIV_Q'') [Y_rd, Y_rs1, Y_rs2, Y_rm] 0xFE00007F 0x1E000053)),
      (19, Range 14 12
       [(0, Instruction (YamlInstr (NotImpl ''FSGNJ_Q'') [Y_rd, Y_rs1, Y_rs2] 0xFE00707F 0x26000053)),
        (1, Instruction (YamlInstr (NotImpl ''FSGNJN_Q'') [Y_rd, Y_rs1, Y_rs2] 0xFE00707F 0x26001053)),
        (2, Instruction (YamlInstr (NotImpl ''FSGNJX_Q'') [Y_rd, Y_rs1, Y_rs2] 0xFE00707F 0x26002053))]),
      (23, Range 14 12
       [(0, Instruction (YamlInstr (NotImpl ''FMIN_Q'') [Y_rd, Y_rs1, Y_rs2] 0xFE00707F 0x2E000053)),
        (1, Instruction (YamlInstr (NotImpl ''FMAX_Q'') [Y_rd, Y_rs1, Y_rs2] 0xFE00707F 0x2E001053))]),
      (35, Range 24 20
       [(0, Instruction (YamlInstr (NotImpl ''FCVT_Q_S'') [Y_rd, Y_rs1, Y_rm] 0xFFF0007F 0x46000053)),
        (1, Instruction (YamlInstr (NotImpl ''FCVT_Q_D'') [Y_rd, Y_rs1, Y_rm] 0xFFF0007F 0x46100053))]),
      (47, Instruction (YamlInstr (NotImpl ''FSQRT_Q'') [Y_rd, Y_rs1, Y_rm] 0xFFF0007F 0x5E000053)),
      (80, Range 14 12
       [(0, Instruction (YamlInstr (NotImpl ''FLE_S'') [Y_rd, Y_rs1, Y_rs2] 0xFE00707F 0xA0000053)),
        (1, Instruction (YamlInstr (NotImpl ''FLT_S'') [Y_rd, Y_rs1, Y_rs2] 0xFE00707F 0xA0001053)),
        (2, Instruction (YamlInstr (NotImpl ''FEQ_S'') [Y_rd, Y_rs1, Y_rs2] 0xFE00707F 0xA0002053))]),
      (81, Range 14 12
       [(0, Instruction (YamlInstr (NotImpl ''FLE_D'') [Y_rd, Y_rs1, Y_rs2] 0xFE00707F 0xA2000053)),
        (1, Instruction (YamlInstr (NotImpl ''FLT_D'') [Y_rd, Y_rs1, Y_rs2] 0xFE00707F 0xA2001053)),
        (2, Instruction (YamlInstr (NotImpl ''FEQ_D'') [Y_rd, Y_rs1, Y_rs2] 0xFE00707F 0xA2002053))]),
      (83, Range 14 12
       [(0, Instruction (YamlInstr (NotImpl ''FLE_Q'') [Y_rd, Y_rs1, Y_rs2] 0xFE00707F 0xA6000053)),
        (1, Instruction (YamlInstr (NotImpl ''FLT_Q'') [Y_rd, Y_rs1, Y_rs2] 0xFE00707F 0xA6001053)),
        (2, Instruction (YamlInstr (NotImpl ''FEQ_Q'') [Y_rd, Y_rs1, Y_rs2] 0xFE00707F 0xA6002053))]),
      (96, Range 24 20
       [(0, Instruction (YamlInstr (NotImpl ''FCVT_W_S'') [Y_rd, Y_rs1, Y_rm] 0xFFF0007F 0xC0000053)),
        (1, Instruction (YamlInstr (NotImpl ''FCVT_WU_S'') [Y_rd, Y_rs1, Y_rm] 0xFFF0007F 0xC0100053)),
        (2, Instruction (YamlInstr (NotImpl ''FCVT_L_S'') [Y_rd, Y_rs1, Y_rm] 0xFFF0007F 0xC0200053)),
        (3, Instruction (YamlInstr (NotImpl ''FCVT_LU_S'') [Y_rd, Y_rs1, Y_rm] 0xFFF0007F 0xC0300053))]),
      (112, Range 24 20
       [(0, Range 14 12
         [(0, Instruction (YamlInstr (NotImpl ''FMV_X_W'') [Y_rd, Y_rs1] 0xFFF0707F 0xE0000053)),
          (1, Instruction (YamlInstr (NotImpl ''FCLASS_S'') [Y_rd, Y_rs1] 0xFFF0707F 0xE0001053))])]),
      (97, Range 24 20
       [(0, Instruction (YamlInstr (NotImpl ''FCVT_W_D'') [Y_rd, Y_rs1, Y_rm] 0xFFF0007F 0xC2000053)),
        (1, Instruction (YamlInstr (NotImpl ''FCVT_WU_D'') [Y_rd, Y_rs1, Y_rm] 0xFFF0007F 0xC2100053)),
        (2, Instruction (YamlInstr (NotImpl ''FCVT_L_D'') [Y_rd, Y_rs1, Y_rm] 0xFFF0007F 0xC2200053)),
        (3, Instruction (YamlInstr (NotImpl ''FCVT_LU_D'') [Y_rd, Y_rs1, Y_rm] 0xFFF0007F 0xC2300053))]),
      (113, Range 24 20
       [(0, Range 14 12
         [(0, Instruction (YamlInstr (NotImpl ''FMV_X_D'') [Y_rd, Y_rs1] 0xFFF0707F 0xE2000053)),
          (1, Instruction (YamlInstr (NotImpl ''FCLASS_D'') [Y_rd, Y_rs1] 0xFFF0707F 0xE2001053))])]),
      (99, Range 24 20
       [(0, Instruction (YamlInstr (NotImpl ''FCVT_W_Q'') [Y_rd, Y_rs1, Y_rm] 0xFFF0007F 0xC6000053)),
        (1, Instruction (YamlInstr (NotImpl ''FCVT_WU_Q'') [Y_rd, Y_rs1, Y_rm] 0xFFF0007F 0xC6100053)),
        (2, Instruction (YamlInstr (NotImpl ''FCVT_L_Q'') [Y_rd, Y_rs1, Y_rm] 0xFFF0007F 0xC6200053)),
        (3, Instruction (YamlInstr (NotImpl ''FCVT_LU_Q'') [Y_rd, Y_rs1, Y_rm] 0xFFF0007F 0xC6300053))]),
      (115, Range 24 20
       [(0, Range 14 12
         [(0, Instruction (YamlInstr (NotImpl ''FMV_X_Q'') [Y_rd, Y_rs1] 0xFFF0707F 0xE6000053)),
          (1, Instruction (YamlInstr (NotImpl ''FCLASS_Q'') [Y_rd, Y_rs1] 0xFFF0707F 0xE6001053))])]),
      (104, Range 24 20
       [(0, Instruction (YamlInstr (NotImpl ''FCVT_S_W'') [Y_rd, Y_rs1, Y_rm] 0xFFF0007F 0xD0000053)),
        (1, Instruction (YamlInstr (NotImpl ''FCVT_S_WU'') [Y_rd, Y_rs1, Y_rm] 0xFFF0007F 0xD0100053)),
        (2, Instruction (YamlInstr (NotImpl ''FCVT_S_L'') [Y_rd, Y_rs1, Y_rm] 0xFFF0007F 0xD0200053)),
        (3, Instruction (YamlInstr (NotImpl ''FCVT_S_LU'') [Y_rd, Y_rs1, Y_rm] 0xFFF0007F 0xD0300053))]),
      (120, Instruction (YamlInstr (NotImpl ''FMV_W_X'') [Y_rd, Y_rs1] 0xFFF0707F 0xF0000053)),
      (105, Range 24 20
       [(0, Instruction (YamlInstr (NotImpl ''FCVT_D_W'') [Y_rd, Y_rs1, Y_rm] 0xFFF0007F 0xD2000053)),
        (1, Instruction (YamlInstr (NotImpl ''FCVT_D_WU'') [Y_rd, Y_rs1, Y_rm] 0xFFF0007F 0xD2100053)),
        (2, Instruction (YamlInstr (NotImpl ''FCVT_D_L'') [Y_rd, Y_rs1, Y_rm] 0xFFF0007F 0xD2200053)),
        (3, Instruction (YamlInstr (NotImpl ''FCVT_D_LU'') [Y_rd, Y_rs1, Y_rm] 0xFFF0007F 0xD2300053))]),
      (121, Instruction (YamlInstr (NotImpl ''FMV_D_X'') [Y_rd, Y_rs1] 0xFFF0707F 0xF2000053)),
      (107, Range 24 20
       [(0, Instruction (YamlInstr (NotImpl ''FCVT_Q_W'') [Y_rd, Y_rs1, Y_rm] 0xFFF0007F 0xD6000053)),
        (1, Instruction (YamlInstr (NotImpl ''FCVT_Q_WU'') [Y_rd, Y_rs1, Y_rm] 0xFFF0007F 0xD6100053)),
        (2, Instruction (YamlInstr (NotImpl ''FCVT_Q_L'') [Y_rd, Y_rs1, Y_rm] 0xFFF0007F 0xD6200053)),
        (3, Instruction (YamlInstr (NotImpl ''FCVT_Q_LU'') [Y_rd, Y_rs1, Y_rm] 0xFFF0007F 0xD6300053))]),
      (123, Instruction (YamlInstr (NotImpl ''FMV_Q_X'') [Y_rd, Y_rs1] 0xFFF0707F 0xF6000053))]"

definition opcode_7 :: DecoderNode where
  "opcode_7 =
    Range 14 12
     [(2, Instruction (YamlInstr (NotImpl ''FLW'') [Y_rd, Y_rs1, Y_imm12] 0x707F 0x2007)),
      (3, Instruction (YamlInstr (NotImpl ''FLD'') [Y_rd, Y_rs1, Y_imm12] 0x707F 0x3007)),
      (4, Instruction (YamlInstr (NotImpl ''FLQ'') [Y_rd, Y_rs1, Y_imm12] 0x707F 0x4007))]"

definition opcode_39 :: DecoderNode where
  "opcode_39 =
    Range 14 12
     [(2, Instruction (YamlInstr (NotImpl ''FSW'') [Y_rs1, Y_rs2, Y_storeimm] 0x707F 0x2027)),
      (3, Instruction (YamlInstr (NotImpl ''FSD'') [Y_rs1, Y_rs2, Y_storeimm] 0x707F 0x3027)),
      (4, Instruction (YamlInstr (NotImpl ''FSQ'') [Y_rs1, Y_rs2, Y_storeimm] 0x707F 0x4027))]"

definition opcode_67 :: DecoderNode where
  "opcode_67 =
    Range 26 25
     [(0, Instruction (YamlInstr (NotImpl ''FMADD_S'') [Y_rd, Y_rs1, Y_rs2, Y_rs3, Y_rm] 0x600007F 0x43)),
      (1, Instruction (YamlInstr (NotImpl ''FMADD_D'') [Y_rd, Y_rs1, Y_rs2, Y_rs3, Y_rm] 0x600007F 0x2000043)),
      (3, Instruction (YamlInstr (NotImpl ''FMADD_Q'') [Y_rd, Y_rs1, Y_rs2, Y_rs3, Y_rm] 0x600007F 0x6000043))]"

definition opcode_71 :: DecoderNode where
  "opcode_71 =
    Range 26 25
     [(0, Instruction (YamlInstr (NotImpl ''FMSUB_S'') [Y_rd, Y_rs1, Y_rs2, Y_rs3, Y_rm] 0x600007F 0x47)),
      (1, Instruction (YamlInstr (NotImpl ''FMSUB_D'') [Y_rd, Y_rs1, Y_rs2, Y_rs3, Y_rm] 0x600007F 0x2000047)),
      (3, Instruction (YamlInstr (NotImpl ''FMSUB_Q'') [Y_rd, Y_rs1, Y_rs2, Y_rs3, Y_rm] 0x600007F 0x6000047))]"

definition opcode_75 :: DecoderNode where
  "opcode_75 =
    Range 26 25
     [(0, Instruction (YamlInstr (NotImpl ''FNMSUB_S'') [Y_rd, Y_rs1, Y_rs2, Y_rs3, Y_rm] 0x600007F 0x4B)),
      (1, Instruction (YamlInstr (NotImpl ''FNMSUB_D'') [Y_rd, Y_rs1, Y_rs2, Y_rs3, Y_rm] 0x600007F 0x200004B)),
      (3, Instruction (YamlInstr (NotImpl ''FNMSUB_Q'') [Y_rd, Y_rs1, Y_rs2, Y_rs3, Y_rm] 0x600007F 0x600004B))]"

definition opcode_79 :: DecoderNode where
  "opcode_79 =
    Range 26 25
     [(0, Instruction (YamlInstr (NotImpl ''FNMADD_S'') [Y_rd, Y_rs1, Y_rs2, Y_rs3, Y_rm] 0x600007F 0x4F)),
      (1, Instruction (YamlInstr (NotImpl ''FNMADD_D'') [Y_rd, Y_rs1, Y_rs2, Y_rs3, Y_rm] 0x600007F 0x200004F)),
      (3, Instruction (YamlInstr (NotImpl ''FNMADD_Q'') [Y_rd, Y_rs1, Y_rs2, Y_rs3, Y_rm] 0x600007F 0x600004F))]"

definition decodertree :: DecoderNode where
  "decodertree = Range 6 0
    [(99, opcode_99),
     (103, Instruction (YamlInstr I_JALR [Y_rd, Y_rs1, Y_imm12] 0x707F 0x67)),
     (111, Instruction (YamlInstr I_JAL [Y_rd, Y_jimm20] 0x7F 0x6F)),
     (55, Instruction (YamlInstr I_LUI [Y_rd, Y_imm20] 0x7F 0x37)),
     (23, Instruction (YamlInstr I_AUIPC [Y_rd, Y_imm20] 0x7F 0x17)),
     (19, opcode_19),
     (51, opcode_51),
     (27, opcode_27),
     (59, opcode_59),
     (3, opcode_3),
     (35, opcode_35),
     (15, opcode_15),
     (47, opcode_47),
     (115, opcode_115),
     (83, opcode_83),
     (7, opcode_7),
     (39, opcode_39),
     (67, opcode_67),
     (71, opcode_71),
     (75, opcode_75),
     (79, opcode_79)]"

section \<open>The generated constructor\<close>

definition GetBinValue :: "BitSection \<Rightarrow> InstrCode \<Rightarrow> 32 word res" where
  "GetBinValue s instr_code =
     bindR (getBitField (bs_msb s) (bs_lsb s) instr_code) (\<lambda>v. Inr (push_bit (bs_to s) v))"

definition KNOWN_REGS :: "YamlField list" where
  "KNOWN_REGS = [Y_rd, Y_rs1, Y_rs2, Y_rm]"

definition KNOWN_IMMS :: "YamlField list" where
  "KNOWN_IMMS = [Y_imm12, Y_imm20, Y_jimm20, Y_storeimm, Y_bimm, Y_shamt, Y_shamtw]"

definition IMMS_NO_EXTEND :: "YamlField list" where
  "IMMS_NO_EXTEND = [Y_shamt, Y_shamtw]"

definition assign_reg :: "YamlField \<Rightarrow> 8 word \<Rightarrow> Instr \<Rightarrow> Instr" where
  "assign_reg f v instr =
     (case f of Y_rd \<Rightarrow> instr\<lparr>m_rd := v\<rparr> | Y_rs1 \<Rightarrow> instr\<lparr>m_rs1 := v\<rparr> | Y_rs2 \<Rightarrow> instr\<lparr>m_rs2 := v\<rparr>
      | Y_rm \<Rightarrow> instr\<lparr>m_rm := v\<rparr> | _ \<Rightarrow> instr)"

text \<open>\<open>m_imm |= static_cast<uint32_t>(...)\<close> for every section of an immediate.\<close>

fun assign_sections :: "BitSection list \<Rightarrow> InstrCode \<Rightarrow> 32 word \<Rightarrow> 32 word res" where
  "assign_sections [] instr_code imm = Inr imm"
| "assign_sections (s # ss) instr_code imm =
     bindR (GetBinValue s instr_code) (\<lambda>v. assign_sections ss instr_code (imm OR v))"

text \<open>The loop over the fields; \<open>extend_from\<close> is the generator's running maximum.\<close>

fun assign_fields :: "YamlField list \<Rightarrow> nat \<Rightarrow> InstrCode \<Rightarrow> Instr \<Rightarrow> Instr res" where
  "assign_fields [] extend_from instr_code instr = Inr instr"
| "assign_fields (f # fs) extend_from instr_code instr =
     (if f \<in> set KNOWN_REGS then
        bindR (GetBinValue (hd (yaml_fields f)) instr_code) (\<lambda>v.
        assign_fields fs extend_from instr_code (assign_reg f (ucast v) instr))
      else if f \<in> set KNOWN_IMMS then
        let extend_from = fold (\<lambda>s m. max m (bs_from s)) (yaml_fields f) extend_from in
        bindR (assign_sections (yaml_fields f) instr_code (m_imm instr)) (\<lambda>imm.
        bindR (if f \<notin> set IMMS_NO_EXTEND \<and> extend_from \<le> 30 then signExtend extend_from imm else Inr imm) (\<lambda>imm.
        assign_fields fs extend_from instr_code (instr\<lparr>m_imm := imm\<rparr>)))
      else assign_fields fs extend_from instr_code instr)"

definition FieldAssigning :: "YamlInstr \<Rightarrow> InstrCode \<Rightarrow> Instr \<Rightarrow> Instr res" where
  "FieldAssigning inst instr_code instr =
     assign_fields (y_fields inst) 0 instr_code (instr\<lparr>m_id := mnemonic inst, m_imm := 0\<rparr>)"

text \<open>The \<open>switch\<close> statements: which instruction of the description they select, if any.\<close>

fun HandleNode :: "DecoderNode \<Rightarrow> InstrCode \<Rightarrow> YamlInstr option res"
and HandleCases :: "32 word \<Rightarrow> (32 word \<times> DecoderNode) list \<Rightarrow> InstrCode \<Rightarrow> YamlInstr option res" where
  "HandleNode (Instruction inst) instr_code = Inr (Some inst)"
| "HandleNode (Range msb lsb nodes) instr_code =
     bindR (getBitField msb lsb instr_code) (\<lambda>v. HandleCases v nodes instr_code)"
| "HandleCases v [] instr_code = Inr None"
| "HandleCases v ((key, node) # nodes) instr_code =
     (if v = key then HandleNode node instr_code else HandleCases v nodes instr_code)"

definition decode :: "InstrCode \<Rightarrow> Instr res" where
  "decode instr_code =
     bindR (HandleNode decodertree instr_code) (\<lambda>sel.
     case sel of
       None \<Rightarrow> Inr Instr_default
     | Some inst \<Rightarrow> FieldAssigning inst instr_code Instr_default)"

section \<open>Which codes select which instruction\<close>

text \<open>The leaves of a tree with the field values on the way to them.\<close>

fun node_paths :: "DecoderNode \<Rightarrow> ((nat \<times> nat \<times> 32 word) list \<times> YamlInstr) list"
and case_paths :: "nat \<Rightarrow> nat \<Rightarrow> (32 word \<times> DecoderNode) list \<Rightarrow> ((nat \<times> nat \<times> 32 word) list \<times> YamlInstr) list" where
  "node_paths (Instruction n) = [([], n)]"
| "node_paths (Range msb lsb nodes) = case_paths msb lsb nodes"
| "case_paths msb lsb [] = []"
| "case_paths msb lsb ((key, node) # nodes) =
     map (\<lambda>(p, n). ((msb, lsb, key) # p, n)) (node_paths node) @ case_paths msb lsb nodes"

definition on_path :: "InstrCode \<Rightarrow> (nat \<times> nat \<times> 32 word) list \<Rightarrow> bool" where
  "on_path code p \<longleftrightarrow> list_all (\<lambda>(msb, lsb, key). field msb lsb code = key) p"

fun node_ok :: "DecoderNode \<Rightarrow> bool"
and cases_ok :: "(32 word \<times> DecoderNode) list \<Rightarrow> bool" where
  "node_ok (Instruction n) \<longleftrightarrow> True"
| "node_ok (Range msb lsb nodes) \<longleftrightarrow> msb < 32 \<and> lsb \<le> msb \<and> distinct (map fst nodes) \<and> cases_ok nodes"
| "cases_ok [] \<longleftrightarrow> True"
| "cases_ok ((key, node) # nodes) \<longleftrightarrow> node_ok node \<and> cases_ok nodes"

lemma case_paths_iff:
  "(q, n) \<in> set (case_paths msb lsb nodes) \<longleftrightarrow>
     (\<exists>key node p. (key, node) \<in> set nodes \<and> (p, n) \<in> set (node_paths node) \<and> q = (msb, lsb, key) # p)"
  by (induction nodes) (auto, blast+)

lemma HandleNode_iff:
  "node_ok t \<Longrightarrow> \<exists>r. HandleNode t code = Inr r \<and>
     (\<forall>n. r = Some n \<longleftrightarrow> (\<exists>p. (p, n) \<in> set (node_paths t) \<and> on_path code p))"
  "cases_ok nodes \<Longrightarrow> distinct (map fst nodes) \<Longrightarrow> \<exists>r. HandleCases v nodes code = Inr r \<and>
     (\<forall>n. r = Some n \<longleftrightarrow> (\<exists>node p. (v, node) \<in> set nodes \<and> (p, n) \<in> set (node_paths node) \<and> on_path code p))"
proof (induction t code and v nodes code rule: HandleNode_HandleCases.induct)
  case (1 n code)
  then show ?case by (auto simp: on_path_def)
next
  case (2 msb lsb nodes code)
  have "(\<exists>p. (p, n) \<in> set (node_paths (Range msb lsb nodes)) \<and> on_path code p) \<longleftrightarrow>
      (\<exists>node p. (field msb lsb code, node) \<in> set nodes \<and> (p, n) \<in> set (node_paths node) \<and> on_path code p)" for n
    unfolding node_paths.simps case_paths_iff by (fastforce simp: on_path_def)
  with 2 show ?case by simp
next
  case (3 v code)
  then show ?case by simp
next
  case (4 v key node nodes code)
  show ?case
  proof (cases "v = key")
    case True
    have "(v, node') \<in> set ((key, node) # nodes) \<longleftrightarrow> node' = node" for node'
      using 4(4) True by (auto simp: image_iff)
    with True 4 show ?thesis by auto
  qed (use 4 in auto)
qed

lemma decodertree_ok: "node_ok decodertree"
  by code_simp

definition path_forced :: "YamlInstr \<Rightarrow> (nat \<times> nat \<times> 32 word) list \<Rightarrow> bool" where
  "path_forced inst p \<longleftrightarrow>
     list_all (\<lambda>(msb, lsb, key). field msb lsb (fixedmask inst) = mask (msb + 1 - lsb) \<and>
       field msb lsb (fixedvalue inst) = key) p"

lemma field_and: "field hi lo (a AND b) = field hi lo a AND field hi lo b"
  by (rule bit_word_eqI) (auto simp: bit_simps)

lemma path_forced_on_path:
  assumes "path_forced inst p" and "code AND fixedmask inst = fixedvalue inst"
  shows "on_path code p"
proof -
  have "field msb lsb code = field msb lsb (fixedvalue inst)"
    if "field msb lsb (fixedmask inst) = mask (msb + 1 - lsb)" for msb lsb
  proof -
    have "field msb lsb (fixedvalue inst) = field msb lsb code AND mask (msb + 1 - lsb)"
      unfolding assms(2) [symmetric] field_and that ..
    then show ?thesis by (simp add: field_def take_bit_eq_mask flip: and.assoc)
  qed
  with assms(1) show ?thesis by (auto simp: path_forced_def on_path_def list_all_iff)
qed

lemma paths_forced: "list_all (\<lambda>(p, inst). path_forced inst p) (node_paths decodertree)"
  by code_simp


definition decoder_instrs :: "YamlInstr list" where
  "decoder_instrs = map snd (node_paths decodertree)"

lemma HandleNode_decodertree:
  "\<exists>r. HandleNode decodertree code = Inr r \<and> (\<forall>inst. r = Some inst \<longrightarrow> inst \<in> set decoder_instrs)"
  using HandleNode_iff(1) [OF decodertree_ok, of code] by (force simp: decoder_instrs_def)

lemma HandleNode_complete:
  assumes "inst \<in> set decoder_instrs" and "code AND fixedmask inst = fixedvalue inst"
  shows "HandleNode decodertree code = Inr (Some inst)"
proof -
  from assms(1) obtain p where p: "(p, inst) \<in> set (node_paths decodertree)" by (auto simp: decoder_instrs_def)
  then have "path_forced inst p" using paths_forced by (auto simp: list_all_iff)
  then have "on_path code p" using assms(2) by (rule path_forced_on_path)
  with p HandleNode_iff(1) [OF decodertree_ok, of code] show ?thesis by auto
qed

section \<open>What the assignments extract\<close>

lemma GetBinValue_ok [simp]:
  "bs_msb s < 32 \<Longrightarrow> bs_lsb s \<le> bs_msb s \<Longrightarrow>
     GetBinValue s code = Inr (push_bit (bs_to s) (field (bs_msb s) (bs_lsb s) code))"
  by (simp add: GetBinValue_def)

definition section_ok :: "BitSection \<Rightarrow> bool" where
  "section_ok s \<longleftrightarrow> bs_msb s < 32 \<and> bs_lsb s \<le> bs_msb s \<and> bs_from s = bs_msb s - bs_lsb s + bs_to s"

lemma yaml_fields_ok: "s \<in> set (yaml_fields f) \<Longrightarrow> section_ok s"
  by (cases f) (auto simp: section_ok_def)

definition sections_value :: "BitSection list \<Rightarrow> InstrCode \<Rightarrow> 32 word" where
  "sections_value ss code = fold (\<lambda>s v. v OR push_bit (bs_to s) (field (bs_msb s) (bs_lsb s) code)) ss 0"

lemma assign_sections_ok:
  "\<forall>s \<in> set ss. section_ok s \<Longrightarrow> assign_sections ss code v =
     Inr (fold (\<lambda>s v. v OR push_bit (bs_to s) (field (bs_msb s) (bs_lsb s) code)) ss v)"
  by (induction ss arbitrary: v) (auto simp: section_ok_def)

definition extend_idx :: "YamlField \<Rightarrow> nat" where
  "extend_idx f = fold (\<lambda>s m. max m (bs_from s)) (yaml_fields f) 0"

definition dec_imm :: "YamlField \<Rightarrow> InstrCode \<Rightarrow> 32 word" where
  "dec_imm f code =
     (let v = sections_value (yaml_fields f) code
      in if f \<notin> set IMMS_NO_EXTEND \<and> extend_idx f \<le> 30 then signed_take_bit (extend_idx f) v else v)"

definition set_field :: "InstrCode \<Rightarrow> YamlField \<Rightarrow> Instr \<Rightarrow> Instr" where
  "set_field code f instr =
     (if f \<in> set KNOWN_REGS then assign_reg f (ucast (field (bs_msb (hd (yaml_fields f))) (bs_lsb (hd (yaml_fields f))) code)) instr
      else if f \<in> set KNOWN_IMMS then instr\<lparr>m_imm := dec_imm f code\<rparr> else instr)"

lemma assign_reg_imm [simp]: "m_imm (assign_reg f v instr) = m_imm instr"
  by (cases f) (simp_all add: assign_reg_def)

lemma GetBinValue_reg:
  "f \<in> set KNOWN_REGS \<Longrightarrow> GetBinValue (hd (yaml_fields f)) code =
     Inr (field (bs_msb (hd (yaml_fields f))) (bs_lsb (hd (yaml_fields f))) code)"
  by (cases f) (simp_all add: KNOWN_REGS_def)

lemma assign_fields_no_imm:
  "set fs \<inter> set KNOWN_IMMS = {} \<Longrightarrow> assign_fields fs e code instr = Inr (fold (set_field code) fs instr)"
  by (induction fs arbitrary: instr) (auto simp: set_field_def GetBinValue_reg)

lemma assign_fields_ok:
  assumes "length (filter (\<lambda>f. f \<in> set KNOWN_IMMS) fs) \<le> 1" and "m_imm instr = 0"
  shows "assign_fields fs 0 code instr = Inr (fold (set_field code) fs instr)"
  using assms
proof (induction fs arbitrary: instr)
  case (Cons f fs)
  show ?case
  proof (cases "f \<in> set KNOWN_IMMS \<and> f \<notin> set KNOWN_REGS")
    case True
    then have "filter (\<lambda>f. f \<in> set KNOWN_IMMS) fs = []" using Cons.prems(1) by auto
    then have "set fs \<inter> set KNOWN_IMMS = {}" by (auto simp: filter_empty_conv)
    moreover have "assign_sections (yaml_fields f) code 0 = Inr (sections_value (yaml_fields f) code)"
      using yaml_fields_ok [of _ f] by (simp add: assign_sections_ok sections_value_def)
    ultimately show ?thesis
      using True Cons.prems
      by (simp add: assign_fields_no_imm set_field_def [of code f] dec_imm_def Let_def extend_idx_def)
  next
    case False
    then show ?thesis using Cons by (auto simp: set_field_def GetBinValue_reg split: if_splits)
  qed
qed simp

lemma set_field_id [simp]: "m_id (set_field code f instr) = m_id instr"
  by (cases f) (simp_all add: set_field_def assign_reg_def)

lemma fold_set_field_id [simp]: "m_id (fold (set_field code) fs instr) = m_id instr"
  by (induction fs arbitrary: instr) simp_all

lemma set_field_rd: "m_rd (set_field code f instr) = (if f = Y_rd then ucast (field 11 7 code) else m_rd instr)"
  by (cases f) (simp_all add: set_field_def assign_reg_def KNOWN_REGS_def)

lemma fold_set_field_rd:
  "m_rd (fold (set_field code) fs instr) = (if Y_rd \<in> set fs then ucast (field 11 7 code) else m_rd instr)"
  by (induction fs arbitrary: instr) (simp_all add: set_field_rd)

lemma set_field_rs1: "m_rs1 (set_field code f instr) = (if f = Y_rs1 then ucast (field 19 15 code) else m_rs1 instr)"
  by (cases f) (simp_all add: set_field_def assign_reg_def KNOWN_REGS_def)

lemma fold_set_field_rs1:
  "m_rs1 (fold (set_field code) fs instr) = (if Y_rs1 \<in> set fs then ucast (field 19 15 code) else m_rs1 instr)"
  by (induction fs arbitrary: instr) (simp_all add: set_field_rs1)

lemma set_field_rs2: "m_rs2 (set_field code f instr) = (if f = Y_rs2 then ucast (field 24 20 code) else m_rs2 instr)"
  by (cases f) (simp_all add: set_field_def assign_reg_def KNOWN_REGS_def)

lemma fold_set_field_rs2:
  "m_rs2 (fold (set_field code) fs instr) = (if Y_rs2 \<in> set fs then ucast (field 24 20 code) else m_rs2 instr)"
  by (induction fs arbitrary: instr) (simp_all add: set_field_rs2)

lemma set_field_rm: "m_rm (set_field code f instr) = (if f = Y_rm then ucast (field 14 12 code) else m_rm instr)"
  by (cases f) (simp_all add: set_field_def assign_reg_def KNOWN_REGS_def)

lemma fold_set_field_rm:
  "m_rm (fold (set_field code) fs instr) = (if Y_rm \<in> set fs then ucast (field 14 12 code) else m_rm instr)"
  by (induction fs arbitrary: instr) (simp_all add: set_field_rm)

lemmas fold_set_field = fold_set_field_rd fold_set_field_rs1 fold_set_field_rs2 fold_set_field_rm

lemma set_field_no_imm: "f \<notin> set KNOWN_IMMS \<Longrightarrow> m_imm (set_field code f instr) = m_imm instr"
  and set_field_imm: "f \<in> set KNOWN_IMMS \<Longrightarrow> m_imm (set_field code f instr) = dec_imm f code"
  by (cases f; simp add: set_field_def KNOWN_IMMS_def KNOWN_REGS_def)+

lemma fold_set_field_no_imm:
  "set fs \<inter> set KNOWN_IMMS = {} \<Longrightarrow> m_imm (fold (set_field code) fs instr) = m_imm instr"
  by (induction fs arbitrary: instr) (simp_all add: set_field_no_imm)

lemma fold_set_field_imm:
  assumes "f \<in> set fs" and "f \<in> set KNOWN_IMMS" and "set fs \<inter> set KNOWN_IMMS \<subseteq> {f}"
  shows "m_imm (fold (set_field code) fs instr) = dec_imm f code"
  using assms(1,3)
proof (induction fs arbitrary: instr)
  case (Cons g fs)
  show ?case
  proof (cases "f \<in> set fs")
    case True
    moreover have "set fs \<inter> set KNOWN_IMMS \<subseteq> {f}" using Cons.prems by auto
    ultimately show ?thesis using Cons.IH by simp
  next
    case False
    then have "g = f" "set fs \<inter> set KNOWN_IMMS = {}" using Cons.prems by auto
    then show ?thesis using assms(2) by (simp add: fold_set_field_no_imm set_field_imm)
  qed
qed simp

section \<open>Encoding\<close>

text \<open>The value an instruction holds for a field; fields the simulator does not keep are 0.\<close>

fun operand :: "YamlField \<Rightarrow> Instr \<Rightarrow> 32 word" where
  "operand Y_rd i = ucast (m_rd i)"
| "operand Y_rs1 i = ucast (m_rs1 i)"
| "operand Y_rs2 i = ucast (m_rs2 i)"
| "operand Y_rm i = ucast (m_rm i)"
| "operand Y_rs3 i = 0"
| "operand Y_aqrl i = 0"
| "operand Y_pred i = 0"
| "operand Y_succ i = 0"
| "operand Y_fm i = 0"
| "operand _ i = m_imm i"

fun enc_sections :: "BitSection list \<Rightarrow> 32 word \<Rightarrow> InstrCode" where
  "enc_sections [] v = 0"
| "enc_sections (s # ss) v = push_bit (bs_lsb s) (field (bs_from s) (bs_to s) v) OR enc_sections ss v"

fun enc_fields :: "YamlField list \<Rightarrow> Instr \<Rightarrow> InstrCode" where
  "enc_fields [] i = 0"
| "enc_fields (f # fs) i = enc_sections (yaml_fields f) (operand f i) OR enc_fields fs i"

definition encode :: "YamlInstr \<Rightarrow> Instr \<Rightarrow> InstrCode" where
  "encode inst i = fixedvalue inst OR enc_fields (y_fields inst) i"

fun sections_mask :: "BitSection list \<Rightarrow> InstrCode" where
  "sections_mask [] = 0"
| "sections_mask (s # ss) = push_bit (bs_lsb s) (mask (Suc (bs_msb s - bs_lsb s))) OR sections_mask ss"

abbreviation field_mask :: "YamlField \<Rightarrow> InstrCode" where
  "field_mask f \<equiv> sections_mask (yaml_fields f)"

text \<open>The \<open>mask\<close> attributes of the fields.\<close>

fun yaml_mask :: "YamlField \<Rightarrow> 32 word" where
  "yaml_mask Y_rd = 3968"
| "yaml_mask Y_rs1 = 1015808"
| "yaml_mask Y_rs2 = 32505856"
| "yaml_mask Y_rs3 = 4160749568"
| "yaml_mask Y_rm = 28672"
| "yaml_mask Y_imm12 = 4293918720"
| "yaml_mask Y_imm20 = 4294963200"
| "yaml_mask Y_jimm20 = 4294963200"
| "yaml_mask Y_storeimm = 4261416832"
| "yaml_mask Y_bimm = 4261416832"
| "yaml_mask Y_aqrl = 100663296"
| "yaml_mask Y_shamt = 66060288"
| "yaml_mask Y_shamtw = 32505856"
| "yaml_mask Y_pred = 251658240"
| "yaml_mask Y_succ = 15728640"
| "yaml_mask Y_fm = 4026531840"

lemma yaml_mask_eq: "yaml_mask f = field_mask f"
proof -
  have "list_all (\<lambda>f. yaml_mask f = field_mask f)
    [Y_rd, Y_rs1, Y_rs2, Y_rs3, Y_rm, Y_imm12, Y_imm20, Y_jimm20, Y_storeimm, Y_bimm, Y_aqrl, Y_shamt, Y_shamtw,
     Y_pred, Y_succ, Y_fm]"
    by code_simp
  then show ?thesis
    by (cases f) (simp_all only: list.pred_inject)
qed

fun disjoint_masks :: "32 word \<Rightarrow> YamlField list \<Rightarrow> bool" where
  "disjoint_masks m [] \<longleftrightarrow> True"
| "disjoint_masks m (f # fs) \<longleftrightarrow> m AND yaml_mask f = 0 \<and> disjoint_masks (m OR yaml_mask f) fs"

declare disjoint_masks.simps(2) [simp del]

lemma disjoint_masks_Cons [simp]:
  "disjoint_masks m (f # fs) \<longleftrightarrow> m AND field_mask f = 0 \<and> disjoint_masks (m OR field_mask f) fs"
  by (simp add: disjoint_masks.simps(2) yaml_mask_eq)

text \<open>The fields of an instruction and its fixed bits do not overlap, and it has at most one immediate.\<close>

definition inst_ok :: "YamlInstr \<Rightarrow> bool" where
  "inst_ok inst \<longleftrightarrow> fixedvalue inst AND fixedmask inst = fixedvalue inst \<and>
     disjoint_masks (fixedmask inst) (y_fields inst) \<and>
     length (filter (\<lambda>f. f \<in> set KNOWN_IMMS) (y_fields inst)) \<le> 1"

lemma insts_ok: "list_all inst_ok decoder_instrs"
  by code_simp

text \<open>An encoded field fills its own bits and no others.\<close>

lemma enc_sections_bits: "\<forall>s \<in> set ss. section_ok s \<Longrightarrow> bit (enc_sections ss v) n \<Longrightarrow> bit (sections_mask ss) n"
proof (induction ss)
  case (Cons s ss)
  then have "section_ok s" "\<forall>s \<in> set ss. section_ok s" by simp_all
  with Cons show ?case
    by (auto simp: bit_or_iff bit_push_bit_iff bit_mask_iff bit_field_iff section_ok_def)
qed simp

lemma enc_field_bits: "bit (enc_sections (yaml_fields f) v) n \<Longrightarrow> bit (field_mask f) n"
  using enc_sections_bits yaml_fields_ok by blast

lemma disjoint_bits: "a AND b = 0 \<Longrightarrow> bit a n \<Longrightarrow> \<not> bit (b :: 'a::len word) n"
  by (metis bit_0_eq bit_and_iff bot_apply bot_bool_def)

lemma enc_fields_outside: "disjoint_masks m fs \<Longrightarrow> bit m n \<Longrightarrow> \<not> bit (enc_fields fs i) n"
proof (induction fs arbitrary: m)
  case (Cons f fs)
  then have "\<not> bit (field_mask f) n" using disjoint_bits by auto
  then have "\<not> bit (enc_sections (yaml_fields f) (operand f i)) n" using enc_field_bits by blast
  moreover have "\<not> bit (enc_fields fs i) n" using Cons.IH [of "m OR field_mask f"] Cons.prems by (simp add: bit_or_iff)
  ultimately show ?case by (simp add: bit_or_iff)
qed simp

lemma enc_fields_inside:
  "disjoint_masks m fs \<Longrightarrow> f \<in> set fs \<Longrightarrow> bit (field_mask f) n \<Longrightarrow>
     \<not> bit m n \<and> bit (enc_fields fs i) n = bit (enc_sections (yaml_fields f) (operand f i)) n"
proof (induction fs arbitrary: m)
  case (Cons g fs)
  show ?case
  proof (cases "f = g")
    case True
    have "\<not> bit m n" using Cons.prems True disjoint_bits [of m "field_mask f" n] by auto
    moreover have "\<not> bit (enc_fields fs i) n"
      using Cons.prems True by (intro enc_fields_outside [of "m OR field_mask f"]) (simp_all add: bit_or_iff)
    ultimately show ?thesis using True by (simp add: bit_or_iff)
  next
    case False
    then have *: "\<not> bit (m OR field_mask g) n"
        "bit (enc_fields fs i) n = bit (enc_sections (yaml_fields f) (operand f i)) n"
      using Cons.IH [of "m OR field_mask g"] Cons.prems by auto
    then have "\<not> bit (enc_sections (yaml_fields g) (operand g i)) n"
      using enc_field_bits [of g] by (auto simp: bit_or_iff)
    with * show ?thesis by (simp add: bit_or_iff)
  qed
qed simp

lemma encode_fixed: "inst_ok inst \<Longrightarrow> encode inst i AND fixedmask inst = fixedvalue inst"
proof (rule bit_word_eqI)
  fix n assume ok: "inst_ok inst"
  then have "bit (fixedvalue inst) n \<Longrightarrow> bit (fixedmask inst) n" by (metis inst_ok_def bit_and_iff)
  with ok show "bit (encode inst i AND fixedmask inst) n = bit (fixedvalue inst) n"
    using enc_fields_outside [of "fixedmask inst" "y_fields inst" n i]
    by (auto simp: inst_ok_def encode_def bit_and_iff bit_or_iff)
qed

lemma encode_field:
  assumes ok: "inst_ok inst" and f: "f \<in> set (y_fields inst)"
  shows "encode inst i AND field_mask f = enc_sections (yaml_fields f) (operand f i)"
proof (rule bit_word_eqI)
  fix n
  show "bit (encode inst i AND field_mask f) n = bit (enc_sections (yaml_fields f) (operand f i)) n"
  proof (cases "bit (field_mask f) n")
    case True
    have "bit (fixedvalue inst) n \<Longrightarrow> bit (fixedmask inst) n" using ok by (metis inst_ok_def bit_and_iff)
    then show ?thesis
      using enc_fields_inside [OF _ f True] ok True
      by (auto simp: inst_ok_def encode_def bit_and_iff bit_or_iff)
  next
    case False
    then show ?thesis using enc_field_bits by (auto simp: bit_and_iff)
  qed
qed

text \<open>The operands an encoding of the format can hold.\<close>

fun operand_ok :: "YamlField \<Rightarrow> 32 word \<Rightarrow> bool" where
  "operand_ok Y_rd v \<longleftrightarrow> v < 32"
| "operand_ok Y_rs1 v \<longleftrightarrow> v < 32"
| "operand_ok Y_rs2 v \<longleftrightarrow> v < 32"
| "operand_ok Y_rm v \<longleftrightarrow> v < 8"
| "operand_ok Y_imm12 v \<longleftrightarrow> signed_take_bit 11 v = v"
| "operand_ok Y_storeimm v \<longleftrightarrow> signed_take_bit 11 v = v"
| "operand_ok Y_bimm v \<longleftrightarrow> signed_take_bit 12 v = v \<and> even v"
| "operand_ok Y_jimm20 v \<longleftrightarrow> signed_take_bit 20 v = v \<and> even v"
| "operand_ok Y_imm20 v \<longleftrightarrow> take_bit 12 v = 0"
| "operand_ok Y_shamt v \<longleftrightarrow> v < 64"
| "operand_ok Y_shamtw v \<longleftrightarrow> v < 32"
| "operand_ok _ v \<longleftrightarrow> True"

lemma less_exp_take_bit: "(v :: 32 word) < 2 ^ n \<Longrightarrow> n < 32 \<Longrightarrow> take_bit n v = v"
  by (simp add: word_unat_eq_iff unsigned_take_bit_eq take_bit_nat_eq_self word_less_nat_alt unat_two_power)

lemma field_enc_single:
  assumes "lsb \<le> msb" and "msb < 32"
  shows "field msb lsb (push_bit lsb (field (msb - lsb) 0 v)) = take_bit (Suc (msb - lsb)) (v :: 32 word)"
  using assms by (intro bit_word_eqI) (auto simp: bit_simps)

text \<open>The immediates of the formats, as the decoder reads them.\<close>

lemma dec_imm_eqs:
  "dec_imm Y_imm12 c = signed_take_bit 11 (push_bit 0 (field 31 20 c))"
  "dec_imm Y_storeimm c = signed_take_bit 11 (push_bit 5 (field 31 25 c) OR push_bit 0 (field 11 7 c))"
  "dec_imm Y_bimm c = signed_take_bit 12 (push_bit 12 (field 31 31 c) OR push_bit 5 (field 30 25 c) OR
     push_bit 1 (field 11 8 c) OR push_bit 11 (field 7 7 c))"
  "dec_imm Y_jimm20 c = signed_take_bit 20 (push_bit 20 (field 31 31 c) OR push_bit 1 (field 30 21 c) OR
     push_bit 11 (field 20 20 c) OR push_bit 12 (field 19 12 c))"
  "dec_imm Y_imm20 c = push_bit 12 (field 31 12 c)"
  "dec_imm Y_shamt c = push_bit 0 (field 25 20 c)"
  "dec_imm Y_shamtw c = push_bit 0 (field 24 20 c)"
  by (simp_all add: dec_imm_def sections_value_def extend_idx_def IMMS_NO_EXTEND_def Let_def or.assoc)

lemma enc_imm_eqs:
  "enc_sections (yaml_fields Y_imm12) v = push_bit 20 (field 11 0 v)"
  "enc_sections (yaml_fields Y_storeimm) v = push_bit 25 (field 11 5 v) OR push_bit 7 (field 4 0 v)"
  "enc_sections (yaml_fields Y_bimm) v = push_bit 31 (field 12 12 v) OR push_bit 25 (field 10 5 v) OR
     push_bit 8 (field 4 1 v) OR push_bit 7 (field 11 11 v)"
  "enc_sections (yaml_fields Y_jimm20) v = push_bit 31 (field 20 20 v) OR push_bit 21 (field 10 1 v) OR
     push_bit 20 (field 11 11 v) OR push_bit 12 (field 19 12 v)"
  "enc_sections (yaml_fields Y_imm20) v = push_bit 12 (field 31 12 v)"
  "enc_sections (yaml_fields Y_shamt) v = push_bit 20 (field 5 0 v)"
  "enc_sections (yaml_fields Y_shamtw) v = push_bit 20 (field 4 0 v)"
  by (simp_all add: or.assoc)

lemma word32_eqI:
  fixes v w :: "32 word"
  assumes "list_all (\<lambda>n. bit v n = bit w n)
    [0, 1, 2, 3, 4, 5, 6, 7, 8, 9, 10, 11, 12, 13, 14, 15, 16, 17, 18, 19, 20, 21, 22, 23, 24, 25, 26, 27, 28, 29, 30, 31]"
  shows "v = w"
proof (rule bit_word_eqI)
  fix n assume "n < LENGTH(32)"
  then have "n \<in> set [0..<32]" by simp
  also have "[0..<32] = [0, 1, 2, 3, 4, 5, 6, 7, 8, 9, 10, 11, 12, 13, 14, 15, 16, 17, 18, 19, 20, 21, 22, 23, 24, 25, 26, 27, 28, 29, 30, 31]"
    by code_simp
  finally show "bit v n = bit w n" using assms unfolding list_all_iff by blast
qed

lemma sext_bits: "signed_take_bit k w = w \<Longrightarrow> k < n \<Longrightarrow> n < 32 \<Longrightarrow> bit w n = bit (w :: 32 word) k"
  using bit_signed_take_bit_iff [of k w n] by (simp add: min_def)

lemma take_bit_low: "take_bit k w = w \<Longrightarrow> k \<le> n \<Longrightarrow> \<not> bit (w :: 32 word) n"
  using bit_take_bit_iff [of k w n] by simp

lemmas bits_of_imm = list.pred_inject bit_signed_take_bit_iff bit_or_iff bit_push_bit_iff bit_field_iff

lemma dec_enc_imm12: "signed_take_bit 11 v = v \<Longrightarrow> dec_imm Y_imm12 (enc_sections (yaml_fields Y_imm12) v) = v"
  by (rule word32_eqI, unfold dec_imm_eqs enc_imm_eqs bits_of_imm)
    (simp add: sext_bits del: bit_0, simp add: numeral_2_eq_2 numeral_3_eq_3)

lemma dec_enc_storeimm: "signed_take_bit 11 v = v \<Longrightarrow> dec_imm Y_storeimm (enc_sections (yaml_fields Y_storeimm) v) = v"
  by (rule word32_eqI, unfold dec_imm_eqs enc_imm_eqs bits_of_imm)
    (simp add: sext_bits del: bit_0, simp add: numeral_2_eq_2 numeral_3_eq_3)

lemma dec_enc_bimm:
  "signed_take_bit 12 v = v \<Longrightarrow> \<not> bit v 0 \<Longrightarrow> dec_imm Y_bimm (enc_sections (yaml_fields Y_bimm) v) = v"
  by (rule word32_eqI, unfold dec_imm_eqs enc_imm_eqs bits_of_imm)
    (simp add: sext_bits del: bit_0, simp add: numeral_2_eq_2 numeral_3_eq_3)

lemma dec_enc_jimm20:
  "signed_take_bit 20 v = v \<Longrightarrow> \<not> bit v 0 \<Longrightarrow> dec_imm Y_jimm20 (enc_sections (yaml_fields Y_jimm20) v) = v"
  by (rule word32_eqI, unfold dec_imm_eqs enc_imm_eqs bits_of_imm)
    (simp add: sext_bits del: bit_0, simp add: numeral_2_eq_2 numeral_3_eq_3)

lemma dec_enc_imm20:
  assumes "take_bit 12 v = 0"
  shows "dec_imm Y_imm20 (enc_sections (yaml_fields Y_imm20) v) = v"
proof -
  have low: "12 \<le> n" if "bit v n" for n
    using assms bit_take_bit_iff [of 12 v n] that by auto
  show ?thesis
    unfolding dec_imm_eqs enc_imm_eqs
    by (rule bit_word_eqI) (use low in \<open>auto simp: bit_simps le_add_diff_inverse dest: low\<close>)
qed

lemma dec_enc_shamt:
  "take_bit 6 v = v \<Longrightarrow> dec_imm Y_shamt (enc_sections (yaml_fields Y_shamt) v) = v"
  "take_bit 5 v = v \<Longrightarrow> dec_imm Y_shamtw (enc_sections (yaml_fields Y_shamtw) v) = v"
  unfolding dec_imm_eqs enc_imm_eqs using field_enc_single [of 20 25 v] field_enc_single [of 20 24 v] by simp_all


lemma dec_enc_imm:
  assumes "f \<in> set KNOWN_IMMS" and "operand_ok f v"
  shows "dec_imm f (enc_sections (yaml_fields f) v) = v"
proof -
  from assms(1) consider "f = Y_imm12" | "f = Y_imm20" | "f = Y_jimm20" | "f = Y_storeimm" | "f = Y_bimm"
    | "f = Y_shamt" | "f = Y_shamtw"
    by (auto simp: KNOWN_IMMS_def)
  then show ?thesis
  proof cases
    case 1 with assms(2) dec_enc_imm12 show ?thesis by simp
  next
    case 2 with assms(2) dec_enc_imm20 show ?thesis by simp
  next
    case 3 with assms(2) dec_enc_jimm20 [of v] show ?thesis by (simp add: bit_0)
  next
    case 4 with assms(2) dec_enc_storeimm show ?thesis by simp
  next
    case 5 with assms(2) dec_enc_bimm [of v] show ?thesis by (simp add: bit_0)
  next
    case 6 with assms(2) dec_enc_shamt(1) less_exp_take_bit [of v 6] show ?thesis by simp
  next
    case 7 with assms(2) dec_enc_shamt(2) less_exp_take_bit [of v 5] show ?thesis by simp
  qed
qed

text \<open>Only the bits of a field matter for its value.\<close>

lemma field_sections_mask:
  assumes "s \<in> set ss" and "section_ok s"
  shows "field (bs_msb s) (bs_lsb s) (c AND sections_mask ss) = field (bs_msb s) (bs_lsb s) c"
proof -
  have "bit (sections_mask ss) n" if "bs_lsb s \<le> n" "n \<le> bs_msb s" for n
    using assms that by (induction ss) (auto simp: bit_simps section_ok_def)
  then show ?thesis by (intro bit_word_eqI) (auto simp: bit_simps)
qed

lemma dec_imm_mask: "dec_imm f (c AND field_mask f) = dec_imm f c"
proof -
  have "sections_value (yaml_fields f) (c AND field_mask f) = sections_value (yaml_fields f) c"
    unfolding sections_value_def using yaml_fields_ok [of _ f]
    by (intro fold_cong refl) (simp add: field_sections_mask)
  then show ?thesis by (simp add: dec_imm_def)
qed

lemma reg_field:
  assumes ok: "inst_ok inst" and f: "f \<in> set (y_fields inst)"
    and sec: "yaml_fields f = [BitSection msb lsb (msb - lsb) 0]" "lsb \<le> msb" "msb < 32"
    and v: "operand f i < 2 ^ Suc (msb - lsb)" "Suc (msb - lsb) < 32"
  shows "field msb lsb (encode inst i) = operand f i"
proof -
  have "field msb lsb (encode inst i) = field msb lsb (encode inst i AND field_mask f)"
    using field_sections_mask [of "BitSection msb lsb (msb - lsb) 0" "yaml_fields f"] sec
    by (simp add: section_ok_def)
  also have "\<dots> = field msb lsb (push_bit lsb (field (msb - lsb) 0 (operand f i)))"
    unfolding encode_field [OF ok f] by (simp add: sec)
  also have "\<dots> = operand f i"
    using sec v by (simp add: field_enc_single less_exp_take_bit del: power_Suc)
  finally show ?thesis .
qed

text \<open>
  The instruction \<open>i\<close> is an instance of the description \<open>inst\<close>: its operands fit their fields, and the
  members of fields it does not have are 0.
\<close>

definition instance_of :: "Instr \<Rightarrow> YamlInstr \<Rightarrow> bool" where
  "instance_of i inst \<longleftrightarrow> m_id i = mnemonic inst \<and>
     (\<forall>f \<in> set (y_fields inst). operand_ok f (operand f i)) \<and>
     (Y_rd \<notin> set (y_fields inst) \<longrightarrow> m_rd i = 0) \<and> (Y_rs1 \<notin> set (y_fields inst) \<longrightarrow> m_rs1 i = 0) \<and>
     (Y_rs2 \<notin> set (y_fields inst) \<longrightarrow> m_rs2 i = 0) \<and> (Y_rm \<notin> set (y_fields inst) \<longrightarrow> m_rm i = 0) \<and>
     (set (y_fields inst) \<inter> set KNOWN_IMMS = {} \<longrightarrow> m_imm i = 0)"

lemma decode_leaf:
  assumes "inst \<in> set decoder_instrs" and "code AND fixedmask inst = fixedvalue inst"
  shows "decode code = Inr (fold (set_field code) (y_fields inst) (Instr_default\<lparr>m_id := mnemonic inst, m_imm := 0\<rparr>))"
proof -
  have "inst_ok inst" using insts_ok assms(1) by (auto simp: list_all_iff)
  then show ?thesis
    using HandleNode_complete [OF assms] by (simp add: decode_def FieldAssigning_def assign_fields_ok inst_ok_def)
qed

lemma one_imm:
  assumes "inst_ok inst" and "f \<in> set (y_fields inst)" and "f \<in> set KNOWN_IMMS"
  shows "set (y_fields inst) \<inter> set KNOWN_IMMS \<subseteq> {f}"
proof
  fix g assume g: "g \<in> set (y_fields inst) \<inter> set KNOWN_IMMS"
  let ?l = "filter (\<lambda>f. f \<in> set KNOWN_IMMS) (y_fields inst)"
  have "f \<in> set ?l" "g \<in> set ?l" using assms g by auto
  moreover have "length ?l \<le> 1" using assms(1) by (simp add: inst_ok_def)
  ultimately show "g \<in> {f}" by (cases ?l) auto
qed

lemma operand_imm: "f \<in> set KNOWN_IMMS \<Longrightarrow> operand f i = m_imm i"
  by (cases f) (simp_all add: KNOWN_IMMS_def)

lemma ucast_8_32 [simp]: "ucast (ucast (w :: 8 word) :: 32 word) = w"
  by (rule bit_word_eqI) (simp add: bit_simps)

text \<open>
  C20: decoding inverts encoding: for every instruction of the description and all operands that fit its
  format, the code the description assigns to them decodes to them.
\<close>

theorem decode_encode:
  assumes inst: "inst \<in> set decoder_instrs" and i: "instance_of i inst"
  shows "decode (encode inst i) = Inr i"
proof -
  let ?c = "encode inst i" and ?fs = "y_fields inst"
  let ?d = "fold (set_field ?c) ?fs (Instr_default\<lparr>m_id := mnemonic inst, m_imm := 0\<rparr>)"
  have ok: "inst_ok inst" using insts_ok inst by (auto simp: list_all_iff)
  have fit: "operand_ok f (operand f i)" if "f \<in> set ?fs" for f using i that by (auto simp: instance_of_def)
  have rd: "m_rd ?d = m_rd i"
    using reg_field [OF ok, of Y_rd 11 7 i] fit [of Y_rd] i
    by (auto simp: fold_set_field_rd instance_of_def Instr_default_def)
  have rs1: "m_rs1 ?d = m_rs1 i"
    using reg_field [OF ok, of Y_rs1 19 15 i] fit [of Y_rs1] i
    by (auto simp: fold_set_field_rs1 instance_of_def Instr_default_def)
  have rs2: "m_rs2 ?d = m_rs2 i"
    using reg_field [OF ok, of Y_rs2 24 20 i] fit [of Y_rs2] i
    by (auto simp: fold_set_field_rs2 instance_of_def Instr_default_def)
  have rm: "m_rm ?d = m_rm i"
    using reg_field [OF ok, of Y_rm 14 12 i] fit [of Y_rm] i
    by (auto simp: fold_set_field_rm instance_of_def Instr_default_def)
  have imm: "m_imm ?d = m_imm i"
  proof (cases "set ?fs \<inter> set KNOWN_IMMS = {}")
    case True
    then show ?thesis using i by (simp add: fold_set_field_no_imm instance_of_def)
  next
    case False
    then obtain f where f: "f \<in> set ?fs" "f \<in> set KNOWN_IMMS" by auto
    have "dec_imm f ?c = dec_imm f (enc_sections (yaml_fields f) (operand f i))"
      unfolding encode_field [OF ok f(1), symmetric] by (rule dec_imm_mask [symmetric])
    also have "\<dots> = m_imm i" using dec_enc_imm [OF f(2) fit [OF f(1)]] operand_imm [OF f(2)] by simp
    finally show ?thesis using fold_set_field_imm [OF f one_imm [OF ok f]] by simp
  qed
  have "?d = i" using rd rs1 rs2 rm imm i by (simp add: instance_of_def)
  then show ?thesis using decode_leaf [OF inst encode_fixed [OF ok]] by simp
qed


section \<open>Decoding is total\<close>

text \<open>What the handlers rely on.\<close>

definition instr_ok :: "Instr \<Rightarrow> bool" where
  "instr_ok i \<longleftrightarrow> m_rd i < 32 \<and> m_rs1 i < 32 \<and> m_rs2 i < 32 \<and>
     (m_id i \<in> {I_SLLI, I_SRLI, I_SRAI} \<longrightarrow> m_imm i < 64) \<and>
     (m_id i \<in> {I_SLLIW, I_SRLIW, I_SRAIW} \<longrightarrow> m_imm i < 32) \<and>
     (m_id i = SIM_STATUS_INSTR \<longrightarrow> (\<exists>s. m_imm i = to_underlying s))"

lemma shift_instrs:
  "list_all (\<lambda>inst. mnemonic inst \<noteq> SIM_STATUS_INSTR \<and>
     (mnemonic inst \<in> {I_SLLI, I_SRLI, I_SRAI} \<longrightarrow> Y_shamt \<in> set (y_fields inst)) \<and>
     (mnemonic inst \<in> {I_SLLIW, I_SRLIW, I_SRAIW} \<longrightarrow> Y_shamtw \<in> set (y_fields inst))) decoder_instrs"
  by code_simp

lemma ucast_field_less:
  "hi < lo + 5 \<Longrightarrow> (ucast (field hi lo (c :: 32 word)) :: 8 word) < 32"
proof -
  assume "hi < lo + 5"
  then have "(2 :: nat) ^ (hi + 1 - lo) \<le> 2 ^ 5" by (intro power_increasing) simp_all
  then have "unat (field hi lo c) < 32" using unat_field_less [of hi lo c] by simp
  then show ?thesis by (simp add: word_less_nat_alt unsigned_ucast_eq take_bit_nat_eq_self)
qed

lemma FieldAssigning_ok:
  assumes inst: "inst \<in> set decoder_instrs"
  shows "\<exists>i. FieldAssigning inst code Instr_default = Inr i \<and> m_id i = mnemonic inst \<and> instr_ok i"
proof -
  let ?fs = "y_fields inst"
  let ?d = "fold (set_field code) ?fs (Instr_default\<lparr>m_id := mnemonic inst, m_imm := 0\<rparr>)"
  have ok: "inst_ok inst" using insts_ok inst by (auto simp: list_all_iff)
  then have eq: "FieldAssigning inst code Instr_default = Inr ?d"
    by (simp add: FieldAssigning_def assign_fields_ok inst_ok_def)
  have sh: "mnemonic inst \<noteq> SIM_STATUS_INSTR" "mnemonic inst \<in> {I_SLLI, I_SRLI, I_SRAI} \<Longrightarrow> Y_shamt \<in> set ?fs"
    "mnemonic inst \<in> {I_SLLIW, I_SRLIW, I_SRAIW} \<Longrightarrow> Y_shamtw \<in> set ?fs"
    using shift_instrs inst unfolding list_all_iff by blast+
  have imm: "m_imm ?d = dec_imm f code" if "f \<in> set ?fs" "f \<in> set KNOWN_IMMS" for f
    using fold_set_field_imm [OF that one_imm [OF ok that]] by simp
  have "dec_imm Y_shamt code < 64" "dec_imm Y_shamtw code < 32"
    using unat_field_less [of 25 20 code] unat_field_less [of 24 20 code]
    by (simp_all add: dec_imm_eqs word_less_nat_alt)
  with sh imm [of Y_shamt] imm [of Y_shamtw] have "instr_ok ?d"
    by (auto simp: instr_ok_def fold_set_field ucast_field_less Instr_default_def KNOWN_IMMS_def)
  with eq show ?thesis by simp
qed

lemma instr_ok_status [simp]: "instr_ok (statusInstr s)"
  by (auto simp: instr_ok_def statusInstr_def Instr_default_def)

lemma Instr_default_status: "Instr_default = statusInstr SIM_NOT_IMPLEMENTED_INSTR"
  by (simp add: Instr_default_def statusInstr_def)

lemma Instr_status_statusInstr [simp]: "Instr_status (statusInstr s) = Inr s"
  by (simp add: Instr_status_def statusInstr_def Instr_default_def)

lemma decode_ok: "\<exists>i. decode code = Inr i \<and> instr_ok i"
proof -
  obtain r where r: "HandleNode decodertree code = Inr r"
    and mem: "\<And>inst. r = Some inst \<Longrightarrow> inst \<in> set decoder_instrs"
    using HandleNode_decodertree by blast
  show ?thesis
  proof (cases r)
    case None
    then show ?thesis using r by (simp add: decode_def Instr_default_status)
  next
    case (Some inst)
    then show ?thesis using r FieldAssigning_ok [OF mem, of inst code] by (auto simp: decode_def)
  qed
qed

text \<open>
  C21: the decoder returns on every 32-bit code, and its result is fit for the handlers: the register
  numbers are below 32, the shift amounts below the width, and a status instruction holds a status.
\<close>

theorem decode_total: "\<exists>i. decode code = Inr i \<and> instr_ok i"
  by (rule decode_ok)

text \<open>
  The description tells instructions apart: a code that has the fixed bits of an instruction decodes to
  that instruction and to no other.
\<close>

theorem decode_complete:
  assumes "inst \<in> set decoder_instrs" and "code AND fixedmask inst = fixedvalue inst"
  shows "\<exists>i. decode code = Inr i \<and> m_id i = mnemonic inst"
  using HandleNode_complete [OF assms] FieldAssigning_ok [OF assms(1), of code] by (auto simp: decode_def)

section \<open>The decoder as a search of the description\<close>

text \<open>
  The fixed bits of an instruction that the decoder does not look at: the generator leaves out the
  test of a field where no other instruction is left.
\<close>

definition untested_bits :: "(InstrId \<times> 32 word) list" where
  "untested_bits =
     [(I_JALR, 0x7000), (I_SLLI, 0xFC000000), (I_SLLIW, 0xFE000000), (I_ECALL, 0xF80),
      (NotImpl ''EBREAK'', 0xF80), (NotImpl ''URET'', 0xF80), (NotImpl ''SRET'', 0xF80), (NotImpl ''WFI'', 0xF80),
      (NotImpl ''MRET'', 0x1FF8F80), (NotImpl ''DRET'', 0x1FF8F80), (NotImpl ''SFENCE_VMA'', 0xF80),
      (NotImpl ''HFENCE_VVMA'', 0xF80), (NotImpl ''HFENCE_GVMA'', 0xF80),
      (NotImpl ''FSQRT_S'', 0x1F00000), (NotImpl ''FSQRT_D'', 0x1F00000), (NotImpl ''FSQRT_Q'', 0x1F00000),
      (NotImpl ''FMV_W_X'', 0x1F07000), (NotImpl ''FMV_D_X'', 0x1F07000), (NotImpl ''FMV_Q_X'', 0x1F07000)]"

definition tested :: "YamlInstr \<Rightarrow> 32 word" where
  "tested inst = fixedmask inst AND NOT (case map_of untested_bits (mnemonic inst) of None \<Rightarrow> 0 | Some bits \<Rightarrow> bits)"

definition selects :: "InstrCode \<Rightarrow> YamlInstr \<Rightarrow> bool" where
  "selects code inst \<longleftrightarrow> code AND tested inst = fixedvalue inst AND tested inst"

fun path_mask :: "(nat \<times> nat \<times> 32 word) list \<Rightarrow> 32 word" where
  "path_mask [] = 0"
| "path_mask ((msb, lsb, key) # p) = push_bit lsb (mask (Suc msb - lsb)) OR path_mask p"

definition path_tests :: "YamlInstr \<Rightarrow> (nat \<times> nat \<times> 32 word) list \<Rightarrow> bool" where
  "path_tests inst p \<longleftrightarrow> path_mask p = tested inst \<and>
     list_all (\<lambda>(msb, lsb, key). msb < 32 \<and> lsb \<le> msb \<and> field msb lsb (fixedvalue inst) = key) p"

lemma paths_test: "list_all (\<lambda>(p, inst). path_tests inst p) (node_paths decodertree)"
  by code_simp

lemma and_or_eq: "a AND (m OR n) = b AND (m OR n) \<longleftrightarrow> a AND m = b AND m \<and> a AND n = b AND (n :: 'a::len word)"
  by (auto simp: bit_eq_iff bit_simps)

lemma field_eq_masked:
  assumes "msb < 32" and "lsb \<le> msb"
  shows "field msb lsb a = field msb lsb b \<longleftrightarrow>
    a AND push_bit lsb (mask (Suc msb - lsb)) = b AND push_bit lsb (mask (Suc msb - lsb) :: 32 word)"
proof
  assume eq: "field msb lsb a = field msb lsb b"
  show "a AND push_bit lsb (mask (Suc msb - lsb)) = b AND push_bit lsb (mask (Suc msb - lsb))"
  proof (rule bit_word_eqI)
    fix n
    have "bit (field msb lsb a) (n - lsb) = bit (field msb lsb b) (n - lsb)" using eq by simp
    then show "bit (a AND push_bit lsb (mask (Suc msb - lsb))) n = bit (b AND push_bit lsb (mask (Suc msb - lsb))) n"
      if "n < LENGTH(32)" using that assms by (auto simp: bit_simps)
  qed
next
  assume eq: "a AND push_bit lsb (mask (Suc msb - lsb)) = b AND push_bit lsb (mask (Suc msb - lsb))"
  show "field msb lsb a = field msb lsb b"
  proof (rule bit_word_eqI)
    fix n
    have "bit (a AND push_bit lsb (mask (Suc msb - lsb))) (n + lsb) = bit (b AND push_bit lsb (mask (Suc msb - lsb))) (n + lsb)"
      using eq by simp
    then show "bit (field msb lsb a) n = bit (field msb lsb b) n" using assms
      by (auto simp: bit_simps add.commute)
  qed
qed

lemma on_path_masked:
  "list_all (\<lambda>(msb, lsb, key). msb < 32 \<and> lsb \<le> msb \<and> field msb lsb v = key) p \<Longrightarrow>
    on_path code p \<longleftrightarrow> code AND path_mask p = v AND path_mask p"
  by (induction p) (auto simp: on_path_def and_or_eq field_eq_masked)

lemma HandleNode_selects:
  "\<exists>r. HandleNode decodertree code = Inr r \<and> (\<forall>inst. r = Some inst \<longleftrightarrow> inst \<in> set decoder_instrs \<and> selects code inst)"
proof -
  have path: "on_path code p \<longleftrightarrow> selects code inst" if "(p, inst) \<in> set (node_paths decodertree)" for p inst
  proof -
    have "path_tests inst p" using paths_test that by (auto simp: list_all_iff)
    then show ?thesis unfolding path_tests_def selects_def using on_path_masked [of "fixedvalue inst" p code] by simp
  qed
  obtain r where "HandleNode decodertree code = Inr r"
    "\<And>inst. r = Some inst \<longleftrightarrow> (\<exists>p. (p, inst) \<in> set (node_paths decodertree) \<and> on_path code p)"
    using HandleNode_iff(1) [OF decodertree_ok, of code] by blast
  with path show ?thesis by (force simp: decoder_instrs_def)
qed

lemma find_unique:
  assumes "x \<in> set xs" and "P x" and "\<forall>y. y \<in> set xs \<and> P y \<longrightarrow> y = x"
  shows "find P xs = Some x"
proof (cases "find P xs")
  case None
  then show ?thesis using assms(1,2) by (auto simp: find_None_iff)
next
  case (Some y)
  then show ?thesis using assms(3) by (metis find_Some_iff nth_mem)
qed

text \<open>
  C40: the tree of switches decodes as a search of the description would: a code selects the one
  instruction whose tested bits it has, and its fields are assigned from that instruction's
  fields; a code that selects none is not implemented. The tested bits are all fixed bits of the
  instruction but for the 19 of \<open>untested_bits\<close>: for these the decoder accepts codes that the
  description does not, as \<open>slli\<close> with any bits 31 to 26 and \<open>jalr\<close> with any bits 14 to 12.
\<close>

theorem decode_as_search:
  "decode code = (case find (selects code) decoder_instrs of
      None \<Rightarrow> Inr (statusInstr SIM_NOT_IMPLEMENTED_INSTR)
    | Some inst \<Rightarrow> FieldAssigning inst code Instr_default)"
proof -
  obtain r where r: "HandleNode decodertree code = Inr r"
    "\<And>inst. r = Some inst \<longleftrightarrow> inst \<in> set decoder_instrs \<and> selects code inst"
    using HandleNode_selects by blast
  have "find (selects code) decoder_instrs = r"
  proof (cases r)
    case None
    then show ?thesis using r(2) by (auto simp: find_None_iff)
  next
    case (Some inst)
    have "find (selects code) decoder_instrs = Some inst"
      using r(2) Some by (intro find_unique) (metis option.inject)+
    with Some show ?thesis by simp
  qed
  with r(1) show ?thesis by (simp add: decode_def Instr_default_status split: option.split)
qed

text \<open>The decoder's unit tests.\<close>

lemma decode_tests:
  "decode 0 = Inr (statusInstr SIM_NOT_IMPLEMENTED_INSTR)"
  "decode 0x00710a13 = Inr \<lparr>m_id = I_ADDI, m_rd = 20, m_rs1 = 2, m_rs2 = 0, m_imm = 7, m_rm = 0\<rparr>"
  "decode 0x02175113 = Inr \<lparr>m_id = I_SRLI, m_rd = 2, m_rs1 = 14, m_rs2 = 0, m_imm = 33, m_rm = 0\<rparr>"
  "decode 0x02200a6f = Inr \<lparr>m_id = I_JAL, m_rd = 20, m_rs1 = 0, m_rs2 = 0, m_imm = 34, m_rm = 0\<rparr>"
  "decode 0x0157a2b7 = Inr \<lparr>m_id = I_LUI, m_rd = 5, m_rs1 = 0, m_rs2 = 0, m_imm = push_bit 12 5498, m_rm = 0\<rparr>"
  "decode 0x01e18563 = Inr \<lparr>m_id = I_BEQ, m_rd = 0, m_rs1 = 3, m_rs2 = 30, m_imm = 10, m_rm = 0\<rparr>"
  "decode 0xffe18fe3 = Inr \<lparr>m_id = I_BEQ, m_rd = 0, m_rs1 = 3, m_rs2 = 30, m_imm = - 2, m_rm = 0\<rparr>"
  "decode 0x41e0d31b = Inr \<lparr>m_id = I_SRAIW, m_rd = 6, m_rs1 = 1, m_rs2 = 0, m_imm = 30, m_rm = 0\<rparr>"
  by code_simp+

end
