(* ===== verification/Bb.thy ===== *)
theory Bb
  imports InstrDecode
begin

text \<open>
  \<^verbatim>\<open>bb/include/sim/bb.hpp\<close> and \<^verbatim>\<open>cache/include/sim/bb_cache.hpp\<close>: basic blocks of decoded
  instructions and the direct-mapped cache of blocks. \<open>update\<close> is a template over the functor that
  fetches codes; the functor is the argument \<open>fetch\<close>, a step on the state \<open>'s\<close> it changes.
\<close>

section \<open>Model\<close>

definition MAX_SIZE :: nat where "MAX_SIZE = 16"

definition INVALID_VA :: VirtAddr where "INVALID_VA = push_bit 56 1"

record Bb =
  m_virt_addr :: VirtAddr
  m_instrs :: "Instr list"

definition Bb_new :: Bb where
  "Bb_new = \<lparr>m_virt_addr = INVALID_VA, m_instrs = replicate MAX_SIZE Instr_default\<rparr>"

fun isBranch :: "InstrId \<Rightarrow> bool" where
  "isBranch I_JAL = True"
| "isBranch I_JALR = True"
| "isBranch I_BEQ = True"
| "isBranch I_BNE = True"
| "isBranch I_BLT = True"
| "isBranch I_BLTU = True"
| "isBranch I_BGE = True"
| "isBranch I_BGEU = True"
| "isBranch _ = False"

record FetchResult =
  fr_status :: SimStatus
  fr_instr_code :: InstrCode

type_synonym 's fetch_fn = "'s \<Rightarrow> (FetchResult \<times> 's) res"

text \<open>The loop of \<open>update\<close> from index \<open>i\<close> on, and the assignment after it.\<close>

function Bb_fill :: "'s fetch_fn \<Rightarrow> nat \<Rightarrow> Instr list \<Rightarrow> 's \<Rightarrow> (Instr list \<times> 's) res" where
  "Bb_fill fetch i instrs s =
     (if i < MAX_SIZE - 1 then
        bindR (fetch s) (\<lambda>(fetch_res, s).
        if fr_status fetch_res \<noteq> OK then Inr (instrs[i := statusInstr (fr_status fetch_res)], s)
        else
          bindR (decode (fr_instr_code fetch_res)) (\<lambda>instr.
          let instrs = instrs[i := instr] in
          if m_id instr = SIM_STATUS_INSTR then Inr (instrs, s)
          else if isBranch (m_id instr) then Inr (instrs, s)
          else Bb_fill fetch (i + 1) instrs s))
      else Inr (instrs[MAX_SIZE - 1 := statusInstr OK], s))"
  by pat_completeness auto
termination
  by (relation "measure (\<lambda>(_, i, _, _). MAX_SIZE - i)") auto

declare Bb_fill.simps [simp del]

definition Bb_update :: "'s fetch_fn \<Rightarrow> VirtAddr \<Rightarrow> Bb \<Rightarrow> 's \<Rightarrow> (Bb \<times> 's) res" where
  "Bb_update fetch bb_virt_addr bb s =
     (let bb = bb\<lparr>m_virt_addr := bb_virt_addr\<rparr> in
      bindR (Bb_fill fetch 0 (m_instrs bb) s) (\<lambda>(instrs, s). Inr (bb\<lparr>m_instrs := instrs\<rparr>, s)))"

definition Bb_invalidate :: "Bb \<Rightarrow> Bb" where
  "Bb_invalidate bb =
     bb\<lparr>m_virt_addr := INVALID_VA,
        m_instrs := (m_instrs bb)[0 := statusInstr SIM_NOT_IMPLEMENTED_INSTR]\<rparr>"

definition PC_ALIGN_BITS :: nat where "PC_ALIGN_BITS = 2"

record BbCache =
  m_bbs :: "Bb list"

definition BbCache_new :: "nat \<Rightarrow> BbCache" where
  "BbCache_new k = \<lparr>m_bbs = replicate (2 ^ k) Bb_new\<rparr>"

definition BbCache_invalidate :: "BbCache \<Rightarrow> BbCache" where
  "BbCache_invalidate c = c\<lparr>m_bbs := map Bb_invalidate (m_bbs c)\<rparr>"

text \<open>\<open>find\<close> returns a reference into the array, here the index.\<close>

definition BbCache_find :: "nat \<Rightarrow> VirtAddr \<Rightarrow> BbCache \<Rightarrow> nat res" where
  "BbCache_find k virt_addr c =
     bindR (getBitField (PC_ALIGN_BITS + k - 1) PC_ALIGN_BITS virt_addr) (\<lambda>i.
       if unat i < length (m_bbs c) then Inr (unat i) else Inl OutOfBounds)"

section \<open>Blocks end\<close>

text \<open>
  A block is well-formed if some instruction of it ends it (a status or a branch) and all up to that
  one are fit for the handlers; what is behind it is left from earlier contents.
\<close>

definition ends_bb :: "Instr \<Rightarrow> bool" where
  "ends_bb i \<longleftrightarrow> m_id i = SIM_STATUS_INSTR \<or> isBranch (m_id i)"

fun block_ok :: "Instr list \<Rightarrow> bool" where
  "block_ok [] \<longleftrightarrow> False"
| "block_ok (i # is) \<longleftrightarrow> instr_ok i \<and> (ends_bb i \<or> block_ok is)"

definition bb_inv :: "Bb \<Rightarrow> bool" where
  "bb_inv bb \<longleftrightarrow> length (m_instrs bb) = MAX_SIZE \<and> block_ok (m_instrs bb)"

lemma ends_bb_status [simp]: "ends_bb (statusInstr s)"
  by (simp add: ends_bb_def statusInstr_def Instr_default_def)

lemma block_ok_append:
  "list_all instr_ok xs \<Longrightarrow> block_ok (xs @ ys) \<longleftrightarrow> (list_ex ends_bb xs \<or> block_ok ys)"
  by (induction xs) auto

lemma Bb_new_inv [simp]: "bb_inv Bb_new"
  by (simp add: bb_inv_def Bb_new_def MAX_SIZE_def Instr_default_status numeral_eq_Suc)

lemma Bb_invalidate_inv:
  assumes "bb_inv bb"
  shows "bb_inv (Bb_invalidate bb)"
proof -
  from assms obtain i "is" where "m_instrs bb = i # is" by (cases "m_instrs bb") (auto simp: bb_inv_def MAX_SIZE_def)
  with assms show ?thesis by (simp add: bb_inv_def Bb_invalidate_def)
qed

lemma take_Suc_update: "i < length xs \<Longrightarrow> take (Suc i) (xs[i := x]) = take i xs @ [x]"
  by (simp add: take_Suc_conv_app_nth)

lemma block_ok_upd:
  assumes "i < length xs" and "list_all instr_ok (take i xs)" and "instr_ok x" and "ends_bb x"
  shows "block_ok (xs[i := x])"
proof -
  have "xs[i := x] = take i xs @ x # drop (Suc i) xs" using assms(1) by (rule upd_conv_take_nth_drop)
  then show ?thesis using assms by (simp add: block_ok_append)
qed

text \<open>One round of the loop.\<close>

lemma Bb_fill_last: "\<not> i < MAX_SIZE - 1 \<Longrightarrow> Bb_fill fetch i instrs s = Inr (instrs[MAX_SIZE - 1 := statusInstr OK], s)"
  by (subst Bb_fill.simps) simp

lemma Bb_fill_step:
  assumes "i < MAX_SIZE - 1" and "Bb_fill fetch i instrs s = Inr (instrs', s')"
  obtains (last) fr x where "fetch s = Inr (fr, s')" and "instr_ok x" and "ends_bb x" and "instrs' = instrs[i := x]"
    | (more) fr s1 x where "fetch s = Inr (fr, s1)" and "instr_ok x"
        and "Bb_fill fetch (Suc i) (instrs[i := x]) s1 = Inr (instrs', s')"
proof -
  from assms obtain fr s1 where fr: "fetch s = Inr (fr, s1)"
    by (subst (asm) Bb_fill.simps) (auto simp: res_simps)
  show thesis
  proof (cases "fr_status fr = OK")
    case False
    then show thesis
      using assms fr last [of fr "statusInstr (fr_status fr)"] by (subst (asm) Bb_fill.simps) simp
  next
    case True
    obtain x where x: "decode (fr_instr_code fr) = Inr x" "instr_ok x"
      using decode_ok [of "fr_instr_code fr"] by blast
    show thesis
      using assms fr True x last [of fr x] more [OF fr x(2)]
      by (subst (asm) Bb_fill.simps) (auto simp: Let_def ends_bb_def split: if_splits)
  qed
qed

lemma Bb_fill_block_ok:
  "Bb_fill fetch i instrs s = Inr (instrs', s') \<Longrightarrow> length instrs = MAX_SIZE \<Longrightarrow> i < MAX_SIZE \<Longrightarrow>
     list_all instr_ok (take i instrs) \<Longrightarrow> length instrs' = MAX_SIZE \<and> block_ok instrs'"
proof (induction "MAX_SIZE - i" arbitrary: i instrs s rule: less_induct)
  case less
  show ?case
  proof (cases "i < MAX_SIZE - 1")
    case False
    then have "i = MAX_SIZE - 1" using less.prems(3) by simp
    then show ?thesis using less.prems by (auto simp: Bb_fill_last intro!: block_ok_upd)
  next
    case True
    from True less.prems(1) show ?thesis
    proof (cases rule: Bb_fill_step)
      case (last fr x)
      then show ?thesis using less.prems by (simp add: block_ok_upd)
    next
      case (more fr s1 x)
      then show ?thesis
        using less.hyps [of "Suc i" "instrs[i := x]" s1] less.prems True by (simp add: take_Suc_update)
    qed
  qed
qed

lemma Bb_update_inv:
  assumes "bb_inv bb" and "Bb_update fetch va bb s = Inr (bb', s')"
  shows "bb_inv bb' \<and> m_virt_addr bb' = va"
  using assms Bb_fill_block_ok [of fetch 0 "m_instrs bb" s]
  by (auto simp: Bb_update_def Let_def res_simps bb_inv_def MAX_SIZE_def)

text \<open>Filling a block threads the state through fetches only.\<close>

lemma Bb_fill_state:
  assumes step: "\<And>s r s'. P s \<Longrightarrow> fetch s = Inr (r, s') \<Longrightarrow> P s'"
  shows "Bb_fill fetch i instrs s = Inr (instrs', s') \<Longrightarrow> P s \<Longrightarrow> P s'"
proof (induction "MAX_SIZE - i" arbitrary: i instrs s rule: less_induct)
  case less
  show ?case
  proof (cases "i < MAX_SIZE - 1")
    case False
    then show ?thesis using less.prems by (simp add: Bb_fill_last)
  next
    case True
    from True less.prems(1) show ?thesis
    proof (cases rule: Bb_fill_step)
      case (last fr x)
      then show ?thesis using less.prems step by blast
    next
      case (more fr s1 x)
      then show ?thesis using less.hyps [of "Suc i" "instrs[i := x]" s1] less.prems step True by simp
    qed
  qed
qed

lemma Bb_fill_map:
  assumes "\<And>s. fetch (h s) = mapR h (fetch s)"
  shows "Bb_fill fetch i instrs (h s) = mapR h (Bb_fill fetch i instrs s)"
  using assms
proof (induction fetch i instrs s rule: Bb_fill.induct)
  case (1 fetch i instrs s)
  show ?case
  proof (cases "i < MAX_SIZE - 1")
    case True
    note fill = Bb_fill.simps [of fetch i instrs]
    show ?thesis
    proof (cases "fetch s")
      case (Inl e)
      then show ?thesis using True "1.prems" by (simp add: fill)
    next
      case (Inr x)
      obtain fr s1 where x: "x = (fr, s1)" by (cases x)
      show ?thesis
        using True Inr x "1.prems" "1.IH" [OF True Inr x [symmetric]]
        by (cases "decode (fr_instr_code fr)") (simp_all add: fill Let_def)
    qed
  qed (simp add: Bb_fill_last)
qed

lemma Bb_fill_aborts:
  assumes step: "\<And>s r s'. P s \<Longrightarrow> fetch s = Inr (r, s') \<Longrightarrow> P s'" and abort: "\<And>s e. P s \<Longrightarrow> fetch s = Inl e \<Longrightarrow> e \<in> S"
  shows "P s \<Longrightarrow> Bb_fill fetch i instrs s = Inl e \<Longrightarrow> e \<in> S"
proof (induction "MAX_SIZE - i" arbitrary: i instrs s rule: less_induct)
  case less
  show ?case
  proof (cases "i < MAX_SIZE - 1")
    case False
    then show ?thesis using less.prems by (simp add: Bb_fill_last)
  next
    case True
    show ?thesis
    proof (cases "fetch s")
      case (Inl e')
      then show ?thesis using True less.prems abort by (subst (asm) Bb_fill.simps) auto
    next
      case (Inr r)
      obtain fr s1 where r: "r = (fr, s1)" by (cases r)
      obtain x where x: "decode (fr_instr_code fr) = Inr x" using decode_ok by blast
      have "Bb_fill fetch (Suc i) (instrs[i := x]) s1 = Inl e"
        using True less.prems(2) Inr r x
        by (subst (asm) Bb_fill.simps) (auto simp: Let_def split: if_splits)
      then show ?thesis using less.hyps [of "Suc i" s1] step [OF less.prems(1)] Inr r True by auto
    qed
  qed
qed

section \<open>The cache of blocks\<close>

definition bbc_inv :: "nat \<Rightarrow> BbCache \<Rightarrow> bool" where
  "bbc_inv k c \<longleftrightarrow> length (m_bbs c) = 2 ^ k \<and> list_all bb_inv (m_bbs c)"

lemma BbCache_new_inv [simp]: "bbc_inv k (BbCache_new k)"
  by (simp add: bbc_inv_def BbCache_new_def list_all_length)

lemma BbCache_invalidate_inv: "bbc_inv k c \<Longrightarrow> bbc_inv k (BbCache_invalidate c)"
  by (auto simp: bbc_inv_def BbCache_invalidate_def list_all_iff Bb_invalidate_inv)

lemma BbCache_find_ok:
  assumes "bbc_inv k c" and "0 < k" and "k \<le> 62"
  shows "\<exists>i. BbCache_find k va c = Inr i \<and> i < length (m_bbs c)"
proof -
  have "2 + k - 1 = 1 + k" by simp
  moreover have "unat (field (1 + k) 2 va) < 2 ^ k" using unat_field_less [of "1 + k" 2 va] by simp
  ultimately show ?thesis using assms by (simp add: BbCache_find_def PC_ALIGN_BITS_def bbc_inv_def)
qed

text \<open>
  C30: whatever the fetches return, \<open>update\<close> leaves a block that has the address it was asked for and
  contains an instruction that ends it, with only well-formed instructions before.
\<close>

theorem bb_update_wf:
  assumes "bb_inv bb" and "Bb_update fetch va bb s = Inr (bb', s')"
  shows "bb_inv bb' \<and> m_virt_addr bb' = va"
  using assms by (rule Bb_update_inv)

end
