(* ===== verification/LogText.thy ===== *)
theory LogText
  imports Common
begin

text \<open>
  The text that the program writes: integers as \<open><<\<close> prints them, and the lines that the log functions of \<^verbatim>\<open>simulator/include/sim/simulator.hpp\<close> write: what each line says,
  and its text. The stream is set to \<^verbatim>\<open>std::hex\<close> and \<^verbatim>\<open>std::setfill('0')\<close> by the constructor of the
  simulator; \<open>hex_text\<close> is what \<open><<\<close> prints for an unsigned integer then.
\<close>

datatype LogLine =
  LogInstr VirtAddr string
| LogGpr nat RegValue
| LogPc VirtAddr
| LogMem VirtAddr RegValue

definition LOG_REG_ID_FILL :: nat where "LOG_REG_ID_FILL = 2"

definition hex_digits :: string where "hex_digits = ''0123456789abcdef''"

function hex_nat :: "nat \<Rightarrow> string" where
  "hex_nat n = (if n < 16 then [hex_digits ! n] else hex_nat (n div 16) @ [hex_digits ! (n mod 16)])"
  by auto

termination by (relation "measure id") simp_all

declare hex_nat.simps [simp del]

definition dec_digits :: string where "dec_digits = ''0123456789''"

function dec_nat :: "nat \<Rightarrow> string" where
  "dec_nat n = (if n < 10 then [dec_digits ! n] else dec_nat (n div 10) @ [dec_digits ! (n mod 10)])"
  by auto

termination by (relation "measure id") simp_all

declare dec_nat.simps [simp del]

definition hex_text :: "'a::len word \<Rightarrow> string" where
  "hex_text w = hex_nat (unat w)"

text \<open>\<^verbatim>\<open>std::setw\<close> with the fill character \<^verbatim>\<open>'0'\<close>.\<close>

definition setw :: "nat \<Rightarrow> string \<Rightarrow> string" where
  "setw n s = replicate (n - length s) (CHR ''0'') @ s"

text \<open>The text of a line, with the newline of \<^verbatim>\<open>std::endl\<close>.\<close>

definition tab :: string where "tab = [CHR 0x09]"

definition endl :: string where "endl = [CHR 0x0A]"

fun line_text :: "LogLine \<Rightarrow> string" where
  "line_text (LogInstr pc mnemonic) = hex_text pc @ '': '' @ mnemonic @ endl"
| "line_text (LogGpr idx val) = tab @ ''Reg ['' @ setw LOG_REG_ID_FILL (hex_nat idx) @ ''] <= '' @ hex_text val @ endl"
| "line_text (LogPc pc) = tab @ ''Pc <= '' @ hex_text pc @ endl"
| "line_text (LogMem va val) = tab @ ''Mem ['' @ hex_text va @ ''] <= '' @ hex_text val @ endl"

definition log_text :: "LogLine list \<Rightarrow> string" where
  "log_text lines = concat (map line_text lines)"

section \<open>Reading a log back\<close>

text \<open>The number that a sequence of hexadecimal digits denotes, and a reader for the lines.\<close>

definition is_hex :: "char \<Rightarrow> bool" where
  "is_hex c \<longleftrightarrow> c \<in> set hex_digits"

fun digit_val :: "char \<Rightarrow> string \<Rightarrow> nat" where
  "digit_val c [] = 0"
| "digit_val c (d # ds) = (if c = d then 0 else Suc (digit_val c ds))"

definition hex_val :: "string \<Rightarrow> nat" where
  "hex_val s = foldl (\<lambda>n c. 16 * n + digit_val c hex_digits) 0 s"

definition read_hex :: "string \<Rightarrow> nat \<times> string" where
  "read_hex s = (hex_val (takeWhile is_hex s), dropWhile is_hex s)"

definition read_word :: "string \<Rightarrow> 64 word" where
  "read_word s = of_nat (fst (read_hex s))"

definition read_line :: "string \<Rightarrow> LogLine" where
  "read_line s =
     (if take 6 s = tab @ ''Reg ['' then
        let (idx, rest) = read_hex (drop 6 s) in LogGpr idx (read_word (drop 5 rest))
      else if take 7 s = tab @ ''Pc <= '' then LogPc (read_word (drop 7 s))
      else if take 6 s = tab @ ''Mem ['' then
        let (va, rest) = read_hex (drop 6 s) in LogMem (of_nat va) (read_word (drop 5 rest))
      else
        let (pc, rest) = read_hex s in LogInstr (of_nat pc) (drop 2 rest))"

function read_log :: "string \<Rightarrow> LogLine list" where
  "read_log s =
     (if s = [] then []
      else read_line (takeWhile (\<lambda>c. c \<noteq> CHR 0x0A) s) # read_log (tl (dropWhile (\<lambda>c. c \<noteq> CHR 0x0A) s)))"
  by auto

termination
proof (relation "measure length", simp)
  fix s :: string assume "s \<noteq> []"
  have "length (dropWhile (\<lambda>c. c \<noteq> CHR 0x0A) s) \<le> length s" by (rule length_dropWhile_le)
  then show "(tl (dropWhile (\<lambda>c. c \<noteq> CHR 0x0A) s), s) \<in> measure length" using \<open>s \<noteq> []\<close> by (cases s) auto
qed

declare read_log.simps [simp del]

section \<open>The text determines the lines\<close>

lemma digit_val_nth: "i < 16 \<Longrightarrow> digit_val (hex_digits ! i) hex_digits = i"
proof -
  have "list_all (\<lambda>i. digit_val (hex_digits ! i) hex_digits = i) [0..<16]" by code_simp
  then show "i < 16 \<Longrightarrow> ?thesis" by (simp add: list_all_iff)
qed

lemma hex_nat_digits: "c \<in> set (hex_nat n) \<Longrightarrow> is_hex c"
proof (induction n rule: hex_nat.induct)
  case (1 n)
  have "is_hex (hex_digits ! (n mod 16))" "n < 16 \<Longrightarrow> is_hex (hex_digits ! n)"
    unfolding is_hex_def by (intro nth_mem; simp add: hex_digits_def)+
  with 1 show ?case by (cases "n < 16") (auto simp: hex_nat.simps [of n])
qed

lemma hex_val_nat [simp]: "hex_val (hex_nat n) = n"
proof (induction n rule: hex_nat.induct)
  case (1 n)
  then show ?case by (cases "n < 16") (simp_all add: hex_nat.simps [of n] hex_val_def digit_val_nth)
qed

lemma hex_val_zero: "hex_val (CHR ''0'' # s) = hex_val s"
  by (simp add: hex_val_def hex_digits_def)

lemma hex_val_setw [simp]: "hex_val (setw n s) = hex_val s"
proof -
  have "hex_val (replicate k (CHR ''0'') @ s) = hex_val s" for k by (induction k) (simp_all add: hex_val_zero)
  then show ?thesis by (simp add: setw_def)
qed

lemma setw_digits: "c \<in> set (setw n (hex_nat m)) \<Longrightarrow> is_hex c"
  by (auto simp: setw_def is_hex_def hex_digits_def dest: hex_nat_digits [unfolded is_hex_def hex_digits_def])

lemma read_hex_append:
  assumes "\<And>c. c \<in> set s \<Longrightarrow> is_hex c" and "rest = [] \<or> \<not> is_hex (hd rest)"
  shows "read_hex (s @ rest) = (hex_val s, rest)"
proof -
  have s: "takeWhile is_hex s = s" "dropWhile is_hex s = []"
    using assms(1) by (simp_all add: takeWhile_eq_all_conv dropWhile_eq_Nil_conv)
  then show ?thesis
    using assms by (cases rest) (auto simp: read_hex_def takeWhile_append dropWhile_append s)
qed

lemma read_hex_word: "rest = [] \<or> \<not> is_hex (hd rest) \<Longrightarrow> read_hex (hex_text w @ rest) = (unat w, rest)"
  unfolding hex_text_def by (subst read_hex_append) (auto dest: hex_nat_digits)

lemma read_word_text [simp]: "read_word (hex_text w) = w"
  using read_hex_word [of "[]" w] by (simp add: read_word_def)

lemma hex_text_head: "hd (hex_text w @ rest) \<noteq> CHR 0x09" "hex_text w @ rest \<noteq> []"
proof -
  have "hex_text w \<noteq> []" unfolding hex_text_def by (subst hex_nat.simps) simp
  moreover from this have "is_hex (hd (hex_text w))" unfolding hex_text_def by (intro hex_nat_digits [of _ "unat w"] hd_in_set)
  ultimately show "hd (hex_text w @ rest) \<noteq> CHR 0x09" "hex_text w @ rest \<noteq> []" by (auto simp: is_hex_def hex_digits_def)
qed

text \<open>A line without its newline is read back.\<close>

definition line_body :: "LogLine \<Rightarrow> string" where
  "line_body l = butlast (line_text l)"

lemma line_text_body: "line_text l = line_body l @ [CHR 0x0A]"
  by (cases l) (simp_all add: line_body_def endl_def butlast_append)

lemma read_line_body: "read_line (line_body l) = l"
proof (cases l)
  case (LogInstr pc mn)
  have "hd (hex_text pc @ '': '' @ mn) \<noteq> CHR 0x09" using hex_text_head(1) .
  moreover have "take k s = tab @ r \<Longrightarrow> 0 < k \<Longrightarrow> hd s = CHR 0x09" for k s r
    by (cases s; cases k) (auto simp: tab_def)
  ultimately have "take 6 (hex_text pc @ '': '' @ mn) \<noteq> tab @ r" "take 7 (hex_text pc @ '': '' @ mn) \<noteq> tab @ r" for r
    by (metis zero_less_numeral)+
  then show ?thesis
    by (simp add: LogInstr line_body_def endl_def butlast_append read_line_def read_hex_word is_hex_def hex_digits_def)
next
  case (LogGpr idx v)
  have "read_hex (setw n (hex_nat idx) @ CHR '']'' # rest) = (idx, CHR '']'' # rest)" for n rest
    by (subst read_hex_append) (auto dest: setw_digits simp: is_hex_def hex_digits_def)
  then show ?thesis
    by (simp add: LogGpr line_body_def endl_def butlast_append read_line_def tab_def)
next
  case (LogPc pc)
  then show ?thesis by (simp add: line_body_def endl_def butlast_append read_line_def tab_def)
next
  case (LogMem va v)
  have "read_hex (hex_text va @ CHR '']'' # rest) = (unat va, CHR '']'' # rest)" for rest
    by (intro read_hex_word) (simp add: is_hex_def hex_digits_def)
  then show ?thesis
    by (simp add: LogMem line_body_def endl_def butlast_append read_line_def tab_def)
qed

fun one_line :: "LogLine \<Rightarrow> bool" where
  "one_line (LogInstr pc mnemonic) \<longleftrightarrow> CHR 0x0A \<notin> set mnemonic"
| "one_line _ \<longleftrightarrow> True"

lemma hex_no_newline: "CHR 0x0A \<notin> set (hex_nat n)" "CHR 0x0A \<notin> set (hex_text w)" "CHR 0x0A \<notin> set (setw k (hex_nat n))"
  by (auto simp: hex_text_def is_hex_def hex_digits_def dest: hex_nat_digits setw_digits)

lemma body_no_newline: "one_line l \<Longrightarrow> CHR 0x0A \<notin> set (line_body l)"
  by (cases l) (auto simp: line_body_def endl_def butlast_append tab_def hex_no_newline)

lemma read_log_text: "list_all one_line lines \<Longrightarrow> read_log (log_text lines) = lines"
proof (induction lines)
  case (Cons l lines)
  let ?rest = "log_text lines"
  have "c \<in> set (line_body l) \<Longrightarrow> c \<noteq> CHR 0x0A" for c using body_no_newline [of l] Cons.prems by auto
  then have "takeWhile (\<lambda>c. c \<noteq> CHR 0x0A) (line_body l @ CHR 0x0A # ?rest) = line_body l"
    "dropWhile (\<lambda>c. c \<noteq> CHR 0x0A) (line_body l @ CHR 0x0A # ?rest) = CHR 0x0A # ?rest"
    by (simp_all add: takeWhile_append dropWhile_append)
  moreover have "log_text (l # lines) = line_body l @ CHR 0x0A # ?rest" by (simp add: log_text_def line_text_body)
  ultimately show ?case
    using Cons by (subst read_log.simps) (simp add: read_line_body)
qed (simp add: log_text_def read_log.simps)

end
