(* ===== verification/Simulator.thy ===== *)
theory Simulator
  imports Gpr Csr Mmu Tlb Bb LogText
begin

text \<open>
  \<^verbatim>\<open>hart/include/sim/hart.hpp\<close> and the memory access part of
  \<^verbatim>\<open>simulator/include/sim/simulator.hpp\<close>. The hart refers to the physical memory of the simulator,
  and its MMU to that memory and to the hart's \<open>mstatus\<close> and \<open>satp\<close>; the simulator record holds the
  one copy of each. The log is the list of lines written to the stream so far, or \<open>None\<close> without a
  stream; without \<open>SIM_LOG_ENABLE\<close> the log functions are empty, which is the case \<open>None\<close> too.
\<close>

section \<open>Model\<close>

record Hart =
  m_pc :: VirtAddr
  m_gpr_file :: GPRFile
  m_csr_file :: CSRFile

definition Hart_new :: Hart where
  "Hart_new = \<lparr>m_pc = 0, m_gpr_file = GPRFile_init, m_csr_file = CSRFile_init\<rparr>"

definition TLB_SIZE_LOG_2 :: nat where "TLB_SIZE_LOG_2 = 7"

definition BB_CACHE_SIZE_LOG_2 :: nat where "BB_CACHE_SIZE_LOG_2 = 7"

record Simulator =
  m_phys_memory :: PhysMemory
  m_hart :: Hart
  m_read_tlb :: TLB
  m_write_tlb :: TLB
  m_fetch_tlb :: TLB
  m_bb_cache :: BbCache
  m_icount :: "64 word"
  m_log :: "LogLine list option"

definition Simulator_new :: "mmap_fn \<Rightarrow> LogLine list option \<Rightarrow> Simulator res" where
  "Simulator_new mm log =
     bindR (PhysMemory_new mm) (\<lambda>pm.
     Inr \<lparr>m_phys_memory = pm, m_hart = Hart_new, m_read_tlb = TLB_new TLB_SIZE_LOG_2,
          m_write_tlb = TLB_new TLB_SIZE_LOG_2, m_fetch_tlb = TLB_new TLB_SIZE_LOG_2,
          m_bb_cache = BbCache_new BB_CACHE_SIZE_LOG_2, m_icount = 0, m_log = log\<rparr>)"

definition translateVa :: "AccessType \<Rightarrow> VirtAddr \<Rightarrow> Simulator \<Rightarrow> MMU64_Result res" where
  "translateVa access_type va sim =
     (let csr = m_csr_file (m_hart sim) in
      translate USER access_type va (m_mstatus64 csr) (m_satp64 csr) (m_phys_memory sim))"

definition getReadTLB :: "AccessType \<Rightarrow> Simulator \<Rightarrow> TLB" where
  "getReadTLB access_type sim = (if access_type = FETCH then m_fetch_tlb sim else m_read_tlb sim)"

definition setReadTLB :: "AccessType \<Rightarrow> TLB \<Rightarrow> Simulator \<Rightarrow> Simulator" where
  "setReadTLB access_type t sim =
     (if access_type = FETCH then sim\<lparr>m_fetch_tlb := t\<rparr> else sim\<lparr>m_read_tlb := t\<rparr>)"

definition loadInt :: "AccessType \<Rightarrow> VirtAddr \<Rightarrow> Simulator \<Rightarrow> ((SimStatus \<times> 'a::len word) \<times> Simulator) res" where
  "loadInt access_type va sim =
     (if va AND addrAlignMask TYPE('a) \<noteq> 0 then Inr ((SIM_UNALIGNED_LOAD, 0), sim)
      else
        bindR (TLB_find TLB_SIZE_LOG_2 va (getReadTLB access_type sim)) (\<lambda>(hit, host_addr).
        if hit then
          (case host_addr of
             None \<Rightarrow> Inl NullDeref
           | Some p \<Rightarrow> Inr ((OK, host_load p (host_mem (m_phys_memory sim))), sim))
        else
          bindR (translateVa access_type va sim) (\<lambda>mmu_res.
          if mmu_status mmu_res \<noteq> OK then Inr ((mmu_status mmu_res, 0), sim)
          else
            bindR (PhysMemory_read (phys_addr mmu_res) 0 (m_phys_memory sim)) (\<lambda>(read_res, value).
            if rd_status read_res \<noteq> OK then Inr ((rd_status read_res, 0), sim)
            else
              bindR (TLB_update TLB_SIZE_LOG_2 va (rd_host_page_ptr read_res) (getReadTLB access_type sim)) (\<lambda>t.
              Inr ((OK, value), setReadTLB access_type t sim))))))"

definition storeInt :: "VirtAddr \<Rightarrow> 'a::len word \<Rightarrow> Simulator \<Rightarrow> (SimStatus \<times> Simulator) res" where
  "storeInt va value sim =
     (if va AND addrAlignMask TYPE('a) \<noteq> 0 then Inr (SIM_UNALIGNED_STORE, sim)
      else
        bindR (TLB_find TLB_SIZE_LOG_2 va (m_write_tlb sim)) (\<lambda>(hit, host_addr).
        if hit then
          (case host_addr of
             None \<Rightarrow> Inl NullDeref
           | Some p \<Rightarrow>
               let pm = m_phys_memory sim in
               Inr (OK, sim\<lparr>m_phys_memory := pm\<lparr>host_mem := host_write p value (host_mem pm)\<rparr>\<rparr>))
        else
          bindR (translateVa WRITE va sim) (\<lambda>mmu_res.
          if mmu_status mmu_res \<noteq> OK then Inr (mmu_status mmu_res, sim)
          else
            bindR (PhysMemory_write (phys_addr mmu_res) value (m_phys_memory sim)) (\<lambda>(write_res, pm).
            let sim = sim\<lparr>m_phys_memory := pm\<rparr> in
            if wr_status write_res \<noteq> OK then Inr (wr_status write_res, sim)
            else
              bindR (TLB_update TLB_SIZE_LOG_2 va (wr_host_page_ptr write_res) (m_write_tlb sim)) (\<lambda>t.
              Inr (OK, sim\<lparr>m_write_tlb := t\<rparr>))))))"

text \<open>Accessors for the registers through the hart.\<close>

definition read_gpr :: "8 word \<Rightarrow> Simulator \<Rightarrow> 'a::len word res" where
  "read_gpr idx sim = GPRFile_read (unat idx) (m_gpr_file (m_hart sim))"

definition write_gpr :: "8 word \<Rightarrow> RegValue \<Rightarrow> Simulator \<Rightarrow> Simulator res" where
  "write_gpr idx value sim =
     bindR (GPRFile_write (unat idx) value (m_gpr_file (m_hart sim))) (\<lambda>g.
     Inr (sim\<lparr>m_hart := (m_hart sim)\<lparr>m_gpr_file := g\<rparr>\<rparr>))"

abbreviation pc_of :: "Simulator \<Rightarrow> VirtAddr" where
  "pc_of sim \<equiv> m_pc (m_hart sim)"

text \<open>\<open>++m_icount; m_hart.pc() = new_pc\<close>.\<close>

definition incr_to :: "VirtAddr \<Rightarrow> Simulator \<Rightarrow> Simulator" where
  "incr_to new_pc sim = sim\<lparr>m_hart := (m_hart sim)\<lparr>m_pc := new_pc\<rparr>, m_icount := m_icount sim + 1\<rparr>"

text \<open>The log functions, and the appending of lines to the stream.\<close>

definition emit :: "LogLine list \<Rightarrow> Simulator \<Rightarrow> Simulator" where
  "emit lines sim = sim\<lparr>m_log := map_option (\<lambda>log. log @ lines) (m_log sim)\<rparr>"

definition logInstr :: "string \<Rightarrow> Simulator \<Rightarrow> Simulator" where
  "logInstr mn sim = emit [LogInstr (pc_of sim) mn] sim"

definition logGprWrite :: "8 word \<Rightarrow> Simulator \<Rightarrow> Simulator res" where
  "logGprWrite idx sim =
     (if m_log sim \<noteq> None then
        bindR (read_gpr idx sim) (\<lambda>val. Inr (emit [LogGpr (unat idx) val] sim))
      else Inr sim)"

definition logPcWrite :: "Simulator \<Rightarrow> Simulator" where
  "logPcWrite sim = emit [LogPc (pc_of sim)] sim"

definition logMemWrite :: "VirtAddr \<Rightarrow> RegValue \<Rightarrow> Simulator \<Rightarrow> Simulator" where
  "logMemWrite va val sim = emit [LogMem va val] sim"

text \<open>The conversion of the loaded \<open>Int\<close> to a register value, which depends on its signedness, is \<open>ext\<close>.\<close>

definition simLoadInstr :: "('a::len word \<Rightarrow> RegValue) \<Rightarrow> Instr \<Rightarrow> Simulator \<Rightarrow> (SimStatus \<times> Simulator) res" where
  "simLoadInstr ext instr sim =
     bindR (read_gpr (m_rs1 instr) sim) (\<lambda>va_base.
     let va = va_base + scast (m_imm instr) in
     bindR (loadInt READ va sim) (\<lambda>((status, res), sim).
     if status \<noteq> OK then Inr (status, sim)
     else
       bindR (write_gpr (m_rd instr) (ext res) sim) (\<lambda>sim.
       bindR (logGprWrite (m_rd instr) sim) (\<lambda>sim.
       Inr (OK, incr_to (pc_of sim + INSTR_CODE_SIZE) sim)))))"

definition simStoreInstr :: "'a::len itself \<Rightarrow> Instr \<Rightarrow> Simulator \<Rightarrow> (SimStatus \<times> Simulator) res" where
  "simStoreInstr _ instr sim =
     bindR (read_gpr (m_rs1 instr) sim) (\<lambda>va_base.
     let va = va_base + scast (m_imm instr) in
     bindR (read_gpr (m_rs2 instr) sim) (\<lambda>value.
     bindR (storeInt va (value :: 'a word) sim) (\<lambda>(status, sim).
     if status \<noteq> OK then Inr (status, sim)
     else
       let sim = logMemWrite va (ucast value) sim in
       Inr (OK, incr_to (pc_of sim + INSTR_CODE_SIZE) sim))))"

definition simCondBranch :: "(RegValue \<Rightarrow> RegValue \<Rightarrow> bool) \<Rightarrow> Instr \<Rightarrow> Simulator \<Rightarrow> (SimStatus \<times> Simulator) res" where
  "simCondBranch cmp instr sim =
     bindR (read_gpr (m_rs1 instr) sim) (\<lambda>rs1.
     bindR (read_gpr (m_rs2 instr) sim) (\<lambda>rs2.
     if cmp rs1 rs2 then
       let new_pc = pc_of sim + scast (m_imm instr) in
       if new_pc AND 3 \<noteq> 0 then Inr (SIM_PC_ALIGN_ERROR, sim)
       else Inr (OK, logPcWrite (incr_to new_pc sim))
     else Inr (OK, logPcWrite (incr_to (pc_of sim + INSTR_CODE_SIZE) sim))))"

text \<open>The fetch functor: the state is the simulator and \<open>m_curr_fetch_addr\<close>.\<close>

definition Fetch :: "(Simulator \<times> VirtAddr) fetch_fn" where
  "Fetch s =
     (case s of (sim, curr_fetch_addr) \<Rightarrow>
        bindR (loadInt FETCH curr_fetch_addr sim) (\<lambda>((status, value), sim).
        Inr (\<lparr>fr_status = status, fr_instr_code = value\<rparr>, (sim, curr_fetch_addr + INSTR_CODE_SIZE))))"

end
