(* ===== verification/SimMemory.thy ===== *)
theory SimMemory
  imports Simulator
begin

text \<open>
  The loads and stores of the simulator against a reference without caches. The invariant
  \<open>sim_inv\<close> says, among others, that every entry of the three TLBs is still right: it holds the host
  page of the physical page that the page table walk would find now. It is kept by loads (which
  add entries) and by stores (which change memory, but not the page tables, as long as these are
  out of reach of user code).
\<close>

section \<open>Reference\<close>

abbreviation contents_of :: "Simulator \<Rightarrow> 64 word \<rightharpoonup> byte" where
  "contents_of sim \<equiv> pm_contents (m_phys_memory sim)"

definition user_translate :: "AccessType \<Rightarrow> VirtAddr \<Rightarrow> Simulator \<Rightarrow> MMU64_Result res" where
  "user_translate acc va sim =
     translate_c USER acc va (m_mstatus64 (m_csr_file (m_hart sim))) (m_satp64 (m_csr_file (m_hart sim))) (contents_of sim)"

lemma translateVa_eq: "translateVa acc va sim = user_translate acc va sim"
  by (simp add: translateVa_def user_translate_def translate_eq Let_def)

text \<open>A load: alignment, translation, presence of the page, value.\<close>

definition load_ref :: "AccessType \<Rightarrow> VirtAddr \<Rightarrow> Simulator \<Rightarrow> (SimStatus \<times> 'a::len word) res" where
  "load_ref acc va sim =
     (if va AND addrAlignMask TYPE('a) \<noteq> 0 then Inr (SIM_UNALIGNED_LOAD, 0)
      else bindR (user_translate acc va sim) (\<lambda>r.
        Inr (if mmu_status r \<noteq> OK then (mmu_status r, 0)
             else if contents_of sim (phys_addr r) = None then (PHYS_MEM_ACCESS_FAULT, 0)
             else (OK, mem_word (contents_of sim) (phys_addr r)))))"

text \<open>A store: the status and the new memory contents.\<close>

definition store_ref :: "VirtAddr \<Rightarrow> 'a::len word \<Rightarrow> Simulator \<Rightarrow> (SimStatus \<times> (64 word \<rightharpoonup> byte)) res" where
  "store_ref va v sim =
     (if va AND addrAlignMask TYPE('a) \<noteq> 0 then Inr (SIM_UNALIGNED_STORE, contents_of sim)
      else bindR (user_translate WRITE va sim) (\<lambda>r.
        Inr (if mmu_status r \<noteq> OK then (mmu_status r, contents_of sim)
             else if contents_of sim (phys_addr r) = None then (PHYS_MEM_ACCESS_FAULT, contents_of sim)
             else (OK, mem_put (phys_addr r) v (contents_of sim)))))"

section \<open>Invariant\<close>

text \<open>What a hit for an address may return.\<close>

definition hit_ok :: "AccessType \<Rightarrow> Simulator \<Rightarrow> VirtAddr \<Rightarrow> HostPtr \<Rightarrow> bool" where
  "hit_ok acc sim va h \<longleftrightarrow>
     (case h of
        None \<Rightarrow> page_base va = POISON_VA
      | Some q \<Rightarrow> \<exists>pa p. user_translate acc va sim = Inr \<lparr>mmu_status = OK, phys_addr = pa\<rparr> \<and>
          m_mapping (m_ram (m_phys_memory sim)) (page_base pa) = Some p \<and> q = ptr_add p (page_offset va))"

definition tlb_sound :: "AccessType \<Rightarrow> Simulator \<Rightarrow> TLB \<Rightarrow> bool" where
  "tlb_sound acc sim t \<longleftrightarrow> tlb_inv 7 t \<and> (\<forall>va h. TLB_find 7 va t = Inr (True, h) \<longrightarrow> hit_ok acc sim va h)"

definition sim_inv :: "Simulator \<Rightarrow> bool" where
  "sim_inv sim \<longleftrightarrow> gpr_inv (m_gpr_file (m_hart sim)) \<and> pm_ok (m_phys_memory sim) \<and>
     tlb_sound READ sim (m_read_tlb sim) \<and> tlb_sound WRITE sim (m_write_tlb sim) \<and>
     tlb_sound FETCH sim (m_fetch_tlb sim) \<and> bbc_inv 7 (m_bb_cache sim) \<and>
     tables_protected (m_mstatus64 (m_csr_file (m_hart sim))) (m_satp64 (m_csr_file (m_hart sim))) (contents_of sim)"

lemma sim_inv_tlb: "sim_inv sim \<Longrightarrow> acc \<noteq> WRITE \<Longrightarrow> tlb_sound acc sim (getReadTLB acc sim)"
  by (cases acc) (auto simp: sim_inv_def getReadTLB_def)

lemma tlb_sound_new: "tlb_sound acc sim (TLB_new 7)"
  by (auto simp: tlb_sound_def TLB_find_new hit_ok_def)

lemma tlb_sound_invalidate_misses:
  "tlb_sound acc sim t \<Longrightarrow> page_base va \<noteq> POISON_VA \<Longrightarrow> \<exists>h. TLB_find 7 va (TLB_invalidate t) = Inr (False, h)"
  using tlb7.clear_misses by (auto simp: tlb_sound_def)

text \<open>Two states that agree on what a translation depends on have the same sound TLBs.\<close>

lemma tlb_sound_cong:
  assumes "\<And>va. user_translate acc va sim' = user_translate acc va sim"
    and "m_ram (m_phys_memory sim') = m_ram (m_phys_memory sim)"
  shows "tlb_sound acc sim' t = tlb_sound acc sim t"
  by (simp add: tlb_sound_def hit_ok_def assms cong: option.case_cong)

section \<open>Alignment and pages\<close>

lemma aligned_in_page:
  assumes "int_type TYPE('a::len)" and "va AND addrAlignMask TYPE('a) = 0"
  shows "in_page va (LENGTH('a) div 8)"
proof -
  obtain k where k: "LENGTH('a) div 8 = 2 ^ k" "k \<le> 3"
  proof -
    from assms(1) consider "LENGTH('a) = 8" | "LENGTH('a) = 16" | "LENGTH('a) = 32" | "LENGTH('a) = 64"
      by (auto simp: int_type_def)
    then show thesis
      by cases (use that [of 0] that [of 1] that [of 2] that [of 3] in auto)
  qed
  have "addrAlignMask TYPE('a) = mask k"
    using k by (simp add: addrAlignMask_def mask_eq_exp_minus_1)
  then have "take_bit k va = 0" using assms(2) by (simp add: take_bit_eq_mask)
  then have "unat (take_bit k va) = 0" by simp
  then have "unat va mod 2 ^ k = 0" by (simp add: unsigned_take_bit_eq take_bit_nat_def)
  then have div: "2 ^ k dvd unat va" by (simp add: dvd_eq_mod_eq_0)
  have pow: "(4096 :: nat) = 2 ^ k * 2 ^ (12 - k)" using k(2) by (simp flip: power_add)
  obtain m where m: "unat (page_offset va) = 2 ^ k * m"
    using div pow by (metis unat_page_offset dvd_mod dvd_triv_left dvd_def)
  moreover have "unat (page_offset va) < 4096" by (rule unat_page_offset_less)
  ultimately have "m < 2 ^ (12 - k)" using pow by simp
  then have "2 ^ k * (m + 1) \<le> 2 ^ k * 2 ^ (12 - k)" by (intro mult_le_mono2) simp
  then show ?thesis using m pow k(1) by (simp add: in_page_def)
qed

lemma in_page_cong: "page_offset a = page_offset b \<Longrightarrow> in_page a n = in_page b n"
  by (simp add: in_page_def)

lemma user_translate_offset:
  "user_translate acc va sim = Inr r \<Longrightarrow> mmu_status r = OK \<Longrightarrow> page_offset (phys_addr r) = page_offset va"
  unfolding user_translate_def by (rule translate_c_offset)

lemma user_translate_same_page:
  assumes tr: "user_translate acc va sim = Inr \<lparr>mmu_status = OK, phys_addr = pa\<rparr>"
    and page: "page_base va' = page_base va"
  shows "\<exists>pa'. user_translate acc va' sim = Inr \<lparr>mmu_status = OK, phys_addr = pa'\<rparr> \<and> page_base pa' = page_base pa"
proof -
  let ?t = "\<lambda>va. translate_c USER acc va (m_mstatus64 (m_csr_file (m_hart sim)))
    (m_satp64 (m_csr_file (m_hart sim))) (contents_of sim)"
  have "?t (page_base va') = Inr \<lparr>mmu_status = OK, phys_addr = page_base pa\<rparr>"
    using tr unfolding page translate_c_page user_translate_def by simp
  then obtain r where r: "?t va' = Inr r"
      "(if mmu_status r = OK then r\<lparr>phys_addr := page_base (phys_addr r)\<rparr> else r) = \<lparr>mmu_status = OK, phys_addr = page_base pa\<rparr>"
    unfolding translate_c_page by (auto simp: res_simps)
  then have "mmu_status r = OK" "page_base (phys_addr r) = page_base pa"
    by (cases r; auto split: if_splits)+
  with r(1) show ?thesis unfolding user_translate_def
    by (intro exI [of _ "phys_addr r"]) (cases r, simp)
qed

lemma contents_mapping:
  "contents_of sim a \<noteq> None \<longleftrightarrow> (\<exists>p. m_mapping (m_ram (m_phys_memory sim)) (page_base a) = Some p)"
  by (simp add: pm_contents_def split: option.split)

lemma update_hit_ok:
  assumes tr: "user_translate acc va sim = Inr \<lparr>mmu_status = OK, phys_addr = pa\<rparr>"
    and p: "m_mapping (m_ram (m_phys_memory sim)) (page_base pa) = Some p" and page: "page_base va' = page_base va"
  shows "hit_ok acc sim va' (map_option (\<lambda>q. ptr_add q (page_offset va')) (Some p))"
  using user_translate_same_page [OF tr page] p by (auto simp: hit_ok_def)

lemma tlb_sound_update:
  assumes sound: "tlb_sound acc sim t"
    and tr: "user_translate acc va sim = Inr \<lparr>mmu_status = OK, phys_addr = pa\<rparr>"
    and p: "m_mapping (m_ram (m_phys_memory sim)) (page_base pa) = Some p"
  shows "\<exists>t'. TLB_update 7 va (Some p) t = Inr t' \<and> tlb_sound acc sim t'"
proof -
  have inv: "tlb_inv 7 t" using sound by (simp add: tlb_sound_def)
  obtain t' where t': "TLB_update 7 va (Some p) t = Inr t'" "tlb_inv 7 t'" using tlb7.update_total [OF inv] by blast
  have "hit_ok acc sim va' h" if "TLB_find 7 va' t' = Inr (True, h)" for va' h
    by (rule tlb7.hits_update [OF inv t'(1) _ _ that])
      (use sound in \<open>simp add: tlb_sound_def\<close>, rule update_hit_ok [OF tr p])
  with t' show ?thesis by (simp add: tlb_sound_def)
qed

section \<open>Loads\<close>

text \<open>Two states that differ in the TLBs only.\<close>

definition same_arch :: "Simulator \<Rightarrow> Simulator \<Rightarrow> bool" where
  "same_arch sim sim' \<longleftrightarrow> m_phys_memory sim' = m_phys_memory sim \<and> m_hart sim' = m_hart sim \<and>
     m_bb_cache sim' = m_bb_cache sim \<and> m_icount sim' = m_icount sim \<and> m_log sim' = m_log sim"

lemma same_arch_refl [simp]: "same_arch sim sim"
  by (simp add: same_arch_def)

lemma same_arch_translate: "same_arch sim sim' \<Longrightarrow> user_translate acc va sim' = user_translate acc va sim"
  by (simp add: same_arch_def user_translate_def)

lemma setReadTLB_arch: "same_arch sim (setReadTLB acc t sim)"
  by (simp add: same_arch_def setReadTLB_def)

lemma setReadTLB_inv:
  assumes inv: "sim_inv sim" and acc: "acc \<noteq> WRITE" and t: "tlb_sound acc sim t"
  shows "sim_inv (setReadTLB acc t sim)"
proof -
  let ?s = "setReadTLB acc t sim"
  have "tlb_sound acc' ?s t' = tlb_sound acc' sim t'" for acc' t'
    using setReadTLB_arch [of sim acc t]
    by (intro tlb_sound_cong same_arch_translate) (simp_all add: same_arch_def)
  then show ?thesis
    using inv t acc unfolding sim_inv_def by (cases acc) (simp_all add: setReadTLB_def)
qed

lemma loadInt_aligned:
  fixes v :: "'a::len word"
  assumes "va AND addrAlignMask TYPE('a) = 0" and "TLB_find 7 va (getReadTLB acc sim) = Inr (hit, h)"
  shows "loadInt acc va sim =
    (if hit then (case h of None \<Rightarrow> Inl NullDeref
                  | Some p \<Rightarrow> Inr ((OK, host_load p (host_mem (m_phys_memory sim)) :: 'a word), sim))
     else bindR (user_translate acc va sim) (\<lambda>mmu_res.
          if mmu_status mmu_res \<noteq> OK then Inr ((mmu_status mmu_res, 0), sim)
          else
            bindR (PhysMemory_read (phys_addr mmu_res) 0 (m_phys_memory sim)) (\<lambda>(read_res, value).
            if rd_status read_res \<noteq> OK then Inr ((rd_status read_res, 0), sim)
            else
              bindR (TLB_update 7 va (rd_host_page_ptr read_res) (getReadTLB acc sim)) (\<lambda>t.
              Inr ((OK, value), setReadTLB acc t sim)))))"
  using assms unfolding loadInt_def TLB_SIZE_LOG_2_def translateVa_eq by simp

lemma mmu_OK_record: "mmu_status r = OK \<Longrightarrow> r = \<lparr>mmu_status = OK, phys_addr = phys_addr r\<rparr>"
  by (cases r) simp

text \<open>The translation of an aligned address leads to an aligned address.\<close>

lemma translated_in_page:
  assumes "int_type TYPE('a::len)" and "va AND addrAlignMask TYPE('a) = 0"
    and "user_translate acc va sim = Inr r" and "mmu_status r = OK"
  shows "in_page (phys_addr r) (LENGTH('a) div 8)"
  using aligned_in_page [OF assms(1,2)] user_translate_offset [OF assms(3,4)] by (simp add: in_page_def)

lemma hit_page:
  assumes "hit_ok acc sim va h"
  obtains (poison) "h = None" and "page_base va = POISON_VA"
    | (page) pa p where "h = Some (ptr_add p (page_offset pa))"
    and "user_translate acc va sim = Inr \<lparr>mmu_status = OK, phys_addr = pa\<rparr>"
    and "m_mapping (m_ram (m_phys_memory sim)) (page_base pa) = Some p"
proof (cases h)
  case None
  with assms poison show thesis by (simp add: hit_ok_def)
next
  case (Some q)
  with assms obtain pa p where "user_translate acc va sim = Inr \<lparr>mmu_status = OK, phys_addr = pa\<rparr>"
      "m_mapping (m_ram (m_phys_memory sim)) (page_base pa) = Some p" "q = ptr_add p (page_offset va)"
    by (auto simp: hit_ok_def)
  with Some page [of p pa] user_translate_offset [OF this(1)] show thesis by simp
qed

lemma loadInt_miss:
  assumes ty: "int_type TYPE('a::len)" and inv: "sim_inv sim" and acc: "acc \<noteq> WRITE"
    and al: "va AND addrAlignMask TYPE('a) = 0" and find: "TLB_find 7 va (getReadTLB acc sim) = Inr (False, h)"
    and tr: "user_translate acc va sim = Inr r" and ok: "mmu_status r = OK"
  shows "\<exists>sim'. loadInt acc va sim =
      Inr (if contents_of sim (phys_addr r) = None then (PHYS_MEM_ACCESS_FAULT, 0)
           else (OK, mem_word (contents_of sim) (phys_addr r) :: 'a word), sim') \<and> sim_inv sim' \<and> same_arch sim sim'"
proof -
  let ?pa = "phys_addr r" and ?t = "getReadTLB acc sim"
  note load = loadInt_aligned [where 'a = 'a, OF al find]
  have inp: "in_page ?pa (LENGTH('a) div 8)" using translated_in_page [OF ty al tr ok] .
  show ?thesis
  proof (cases "m_mapping (m_ram (m_phys_memory sim)) (page_base ?pa)")
    case None
    then have "contents_of sim ?pa = None" by (simp add: pm_contents_def)
    then show ?thesis using tr ok load inv None inp by (simp add: PhysMemory_read_eq [OF ty])
  next
    case (Some p)
    then have "contents_of sim ?pa \<noteq> None" by (simp add: pm_contents_def)
    moreover obtain t' where t': "TLB_update 7 va (Some p) ?t = Inr t'" "tlb_sound acc sim t'"
      using tlb_sound_update [OF sim_inv_tlb [OF inv acc] _ Some, of va] tr mmu_OK_record [OF ok] by auto
    ultimately show ?thesis
      using tr ok load Some inp setReadTLB_inv [OF inv acc t'(2)] setReadTLB_arch [of sim acc t']
        host_load_mem_word [OF inp Some]
      by (simp add: PhysMemory_read_eq [OF ty])
  qed
qed

text \<open>
  A load does what the reference does, unless the address is aligned and its slot of the TLB still holds
  the entry it was constructed with: that entry hits on the page at \<open>POISON_VA\<close>, with a null pointer.
\<close>

lemma loadInt_exact:
  assumes ty: "int_type TYPE('a::len)" and inv: "sim_inv sim" and acc: "acc \<noteq> WRITE"
  shows "if va AND addrAlignMask TYPE('a) = 0 \<and> TLB_find 7 va (getReadTLB acc sim) = Inr (True, None)
    then page_base va = POISON_VA \<and> loadInt acc va sim = (Inl NullDeref :: ((SimStatus \<times> 'a word) \<times> Simulator) res)
    else (case load_ref acc va sim of
      Inl e \<Rightarrow> loadInt acc va sim = (Inl e :: ((SimStatus \<times> 'a word) \<times> Simulator) res)
    | Inr (r :: SimStatus \<times> 'a word) \<Rightarrow> \<exists>sim'. loadInt acc va sim = Inr (r, sim') \<and> sim_inv sim' \<and> same_arch sim sim')"
proof (cases "va AND addrAlignMask TYPE('a) = 0")
  case False
  then show ?thesis using inv by (simp add: load_ref_def loadInt_def)
next
  case al: True
  let ?t = "getReadTLB acc sim"
  have sound: "tlb_sound acc sim ?t" using sim_inv_tlb [OF inv acc] .
  obtain hit h where find: "TLB_find 7 va ?t = Inr (hit, h)"
    using tlb7.find_total [of ?t va] sound by (auto simp: tlb_sound_def)
  note load = loadInt_aligned [where 'a = 'a, OF al find]
  show ?thesis
  proof (cases hit)
    case True
    then have "hit_ok acc sim va h" using sound find by (auto simp: tlb_sound_def)
    then show ?thesis
    proof (cases rule: hit_page)
      case poison
      then show ?thesis using True load al find by simp
    next
      case (page pa p)
      have "host_load (ptr_add p (page_offset pa)) (host_mem (m_phys_memory sim)) = (mem_word (contents_of sim) pa :: 'a word)"
        using host_load_mem_word [OF _ page(3)] translated_in_page [OF ty al page(2)] by simp
      moreover have "contents_of sim pa \<noteq> None" using page(3) contents_mapping by blast
      ultimately show ?thesis using True page inv load al find by (simp add: load_ref_def)
    qed
  next
    case False
    show ?thesis
    proof (cases "user_translate acc va sim")
      case (Inl e)
      then show ?thesis using False load al find by (simp add: load_ref_def)
    next
      case (Inr r)
      then show ?thesis
        using False load al inv loadInt_miss [OF ty inv acc al, of h r] find
        by (cases "mmu_status r = OK") (auto simp: load_ref_def split: if_splits)
    qed
  qed
qed

lemma loadInt_cases:
  assumes "int_type TYPE('a::len)" and "sim_inv sim" and "acc \<noteq> WRITE"
  shows "page_base va = POISON_VA \<and> loadInt acc va sim = (Inl NullDeref :: ((SimStatus \<times> 'a word) \<times> Simulator) res) \<or>
    (case load_ref acc va sim of
      Inl e \<Rightarrow> loadInt acc va sim = (Inl e :: ((SimStatus \<times> 'a word) \<times> Simulator) res)
    | Inr (r :: SimStatus \<times> 'a word) \<Rightarrow> \<exists>sim'. loadInt acc va sim = Inr (r, sim') \<and> sim_inv sim' \<and> same_arch sim sim')"
  using loadInt_exact [where 'a = 'a, OF assms, of va] by (simp only: split: if_splits) blast+

section \<open>Stores\<close>

lemma storeInt_aligned:
  fixes v :: "'a::len word"
  assumes "va AND addrAlignMask TYPE('a) = 0" and "TLB_find 7 va (m_write_tlb sim) = Inr (hit, h)"
  shows "storeInt va v sim =
    (if hit then (case h of None \<Rightarrow> Inl NullDeref
                  | Some p \<Rightarrow> Inr (OK, sim\<lparr>m_phys_memory := (m_phys_memory sim)\<lparr>host_mem := host_write p v (host_mem (m_phys_memory sim))\<rparr>\<rparr>))
     else bindR (user_translate WRITE va sim) (\<lambda>mmu_res.
          if mmu_status mmu_res \<noteq> OK then Inr (mmu_status mmu_res, sim)
          else
            bindR (PhysMemory_write (phys_addr mmu_res) v (m_phys_memory sim)) (\<lambda>(write_res, pm).
            if wr_status write_res \<noteq> OK then Inr (wr_status write_res, sim\<lparr>m_phys_memory := pm\<rparr>)
            else
              bindR (TLB_update 7 va (wr_host_page_ptr write_res) (m_write_tlb sim)) (\<lambda>t.
              Inr (OK, sim\<lparr>m_phys_memory := pm, m_write_tlb := t\<rparr>)))))"
proof -
  have tlb: "m_write_tlb (sim\<lparr>m_phys_memory := pm\<rparr>) = m_write_tlb sim" for pm by simp
  show ?thesis using assms unfolding storeInt_def TLB_SIZE_LOG_2_def translateVa_eq Let_def tlb by simp
qed

text \<open>
  The state after a store to the page of a successful translation: the contents change at the
  address, all translations are as before, and the invariant holds.
\<close>

lemma store_keeps_inv:
  fixes v :: "'a::len word"
  assumes ty: "int_type TYPE('a)" and inv: "sim_inv sim"
    and tr: "user_translate WRITE va sim = Inr \<lparr>mmu_status = OK, phys_addr = pa\<rparr>"
    and inp: "in_page pa (LENGTH('a) div 8)"
    and p: "m_mapping (m_ram (m_phys_memory sim)) (page_base pa) = Some p"
    and pm: "pm = (m_phys_memory sim)\<lparr>host_mem := host_write (ptr_add p (page_offset pa)) v (host_mem (m_phys_memory sim))\<rparr>"
  shows "sim_inv (sim\<lparr>m_phys_memory := pm\<rparr>) \<and> pm_contents pm = mem_put pa v (contents_of sim) \<and>
    (\<forall>acc va. user_translate acc va (sim\<lparr>m_phys_memory := pm\<rparr>) = user_translate acc va sim)"
proof -
  let ?sim = "sim\<lparr>m_phys_memory := pm\<rparr>"
  let ?ms = "m_mstatus64 (m_csr_file (m_hart sim))" and ?satp = "m_satp64 (m_csr_file (m_hart sim))"
  have c': "pm_contents pm = mem_put pa v (contents_of sim)"
    unfolding pm using inv p by (intro pm_contents_host_write [OF _ ty inp]) (simp_all add: sim_inv_def)
  have prot: "tables_protected ?ms ?satp (contents_of sim)" using inv by (simp add: sim_inv_def)
  note keep = user_store_keeps_translation [OF prot tr [unfolded user_translate_def] refl inp c']
  have same: "user_translate acc va ?sim = user_translate acc va sim" for acc va
    using keep by (simp add: user_translate_def)
  have ram: "m_ram pm = m_ram (m_phys_memory sim)" by (simp add: pm)
  have "tlb_sound acc ?sim t = tlb_sound acc sim t" for acc t
    using same ram by (intro tlb_sound_cong) simp_all
  then have "sim_inv ?sim" using inv keep ram by (simp add: sim_inv_def)
  with c' same show ?thesis by simp
qed

text \<open>Two states that differ in memory and TLBs only.\<close>

definition same_regs :: "Simulator \<Rightarrow> Simulator \<Rightarrow> bool" where
  "same_regs sim sim' \<longleftrightarrow> m_hart sim' = m_hart sim \<and> m_bb_cache sim' = m_bb_cache sim \<and>
     m_icount sim' = m_icount sim \<and> m_log sim' = m_log sim \<and> m_ram (m_phys_memory sim') = m_ram (m_phys_memory sim)"

lemma same_regs_refl [simp]: "same_regs sim sim"
  by (simp add: same_regs_def)


definition store_post where
  "store_post sim c' sim' \<longleftrightarrow> sim_inv sim' \<and> same_regs sim sim' \<and> contents_of sim' = c' \<and>
     (\<forall>acc va. user_translate acc va sim' = user_translate acc va sim)"

lemma store_post_refl: "sim_inv sim \<Longrightarrow> store_post sim (contents_of sim) sim"
  by (simp add: store_post_def)

lemma set_write_tlb_post:
  assumes post: "store_post sim c' sim'" and t: "tlb_sound WRITE sim' t"
  shows "store_post sim c' (sim'\<lparr>m_write_tlb := t\<rparr>)"
proof -
  let ?s = "sim'\<lparr>m_write_tlb := t\<rparr>"
  have tr: "user_translate acc va ?s = user_translate acc va sim'" for acc va by (simp add: user_translate_def)
  have "tlb_sound acc ?s t' = tlb_sound acc sim' t'" for acc t'
    using tr by (intro tlb_sound_cong) simp_all
  moreover have "sim_inv sim'" using post by (simp add: store_post_def)
  ultimately have "sim_inv ?s" using t by (simp add: sim_inv_def)
  with post tr show ?thesis by (simp add: store_post_def same_regs_def)
qed

lemma storeInt_miss:
  fixes v :: "'a::len word"
  assumes ty: "int_type TYPE('a::len)" and inv: "sim_inv sim"
    and al: "va AND addrAlignMask TYPE('a) = 0" and find: "TLB_find 7 va (m_write_tlb sim) = Inr (False, h)"
    and tr: "user_translate WRITE va sim = Inr r" and ok: "mmu_status r = OK"
  shows "\<exists>sim'. storeInt va v sim =
      Inr (if contents_of sim (phys_addr r) = None then PHYS_MEM_ACCESS_FAULT else OK, sim') \<and>
      store_post sim (if contents_of sim (phys_addr r) = None then contents_of sim
                      else mem_put (phys_addr r) v (contents_of sim)) sim'"
proof -
  let ?pa = "phys_addr r"
  note store = storeInt_aligned [where v = v, OF al find]
  have inp: "in_page ?pa (LENGTH('a) div 8)" using translated_in_page [OF ty al tr ok] .
  have tr': "user_translate WRITE va sim = Inr \<lparr>mmu_status = OK, phys_addr = ?pa\<rparr>"
    using tr mmu_OK_record [OF ok] by simp
  show ?thesis
  proof (cases "m_mapping (m_ram (m_phys_memory sim)) (page_base ?pa)")
    case None
    then have "contents_of sim ?pa = None" by (simp add: pm_contents_def)
    then show ?thesis
      using tr ok store inv None inp store_post_refl [OF inv] by (simp add: PhysMemory_write_eq [OF ty])
  next
    case (Some p)
    let ?pm = "(m_phys_memory sim)\<lparr>host_mem := host_write (ptr_add p (page_offset ?pa)) v (host_mem (m_phys_memory sim))\<rparr>"
    let ?s = "sim\<lparr>m_phys_memory := ?pm\<rparr>"
    have "contents_of sim ?pa \<noteq> None" using Some by (simp add: pm_contents_def)
    moreover have post: "store_post sim (mem_put ?pa v (contents_of sim)) ?s"
      using store_keeps_inv [OF ty inv tr' inp Some refl, of v] by (simp add: store_post_def same_regs_def)
    moreover obtain t' where t': "TLB_update 7 va (Some p) (m_write_tlb sim) = Inr t'" "tlb_sound WRITE ?s t'"
      using tlb_sound_update [of WRITE ?s "m_write_tlb sim" va ?pa p] post tr' Some
      by (auto simp: store_post_def sim_inv_def)
    ultimately show ?thesis
      using tr ok store Some inp set_write_tlb_post [OF post t'(2)] by (simp add: PhysMemory_write_eq [OF ty])
  qed
qed

lemma storeInt_exact:
  fixes v :: "'a::len word"
  assumes ty: "int_type TYPE('a)" and inv: "sim_inv sim"
  shows "if va AND addrAlignMask TYPE('a) = 0 \<and> TLB_find 7 va (m_write_tlb sim) = Inr (True, None)
    then page_base va = POISON_VA \<and> storeInt va v sim = Inl NullDeref
    else (case store_ref va v sim of
      Inl e \<Rightarrow> storeInt va v sim = Inl e
    | Inr (st, c') \<Rightarrow> \<exists>sim'. storeInt va v sim = Inr (st, sim') \<and> store_post sim c' sim')"
proof (cases "va AND addrAlignMask TYPE('a) = 0")
  case False
  then show ?thesis using store_post_refl [OF inv] by (simp add: store_ref_def storeInt_def)
next
  case al: True
  have sound: "tlb_sound WRITE sim (m_write_tlb sim)" using inv by (simp add: sim_inv_def)
  obtain hit h where find: "TLB_find 7 va (m_write_tlb sim) = Inr (hit, h)"
    using tlb7.find_total [of "m_write_tlb sim" va] sound by (auto simp: tlb_sound_def)
  note store = storeInt_aligned [where v = v, OF al find]
  show ?thesis
  proof (cases hit)
    case True
    then have "hit_ok WRITE sim va h" using sound find by (auto simp: tlb_sound_def)
    then show ?thesis
    proof (cases rule: hit_page)
      case poison
      then show ?thesis using True store al find by simp
    next
      case (page pa p)
      have "in_page pa (LENGTH('a) div 8)" using translated_in_page [OF ty al page(2)] by simp
      from store_keeps_inv [OF ty inv page(2) this page(3) refl, of v] page(3) contents_mapping [of sim pa]
      show ?thesis using True page store al find by (auto simp: store_ref_def store_post_def same_regs_def)
    qed
  next
    case False
    show ?thesis
    proof (cases "user_translate WRITE va sim")
      case (Inl e)
      then show ?thesis using False store al find by (simp add: store_ref_def)
    next
      case (Inr r)
      then show ?thesis
        using False store al store_post_refl [OF inv] storeInt_miss [OF ty inv al, of h r v] find
        by (cases "mmu_status r = OK") (auto simp: store_ref_def split: if_splits)
    qed
  qed
qed

lemma storeInt_cases:
  fixes v :: "'a::len word"
  assumes "int_type TYPE('a)" and "sim_inv sim"
  shows "page_base va = POISON_VA \<and> storeInt va v sim = Inl NullDeref \<or>
    (case store_ref va v sim of
      Inl e \<Rightarrow> storeInt va v sim = Inl e
    | Inr (st, c') \<Rightarrow> \<exists>sim'. storeInt va v sim = Inr (st, sim') \<and> store_post sim c' sim')"
  using storeInt_exact [OF assms, of va v] by (simp only: split: if_splits) blast+

section \<open>The caches are transparent\<close>

lemma loadInt_Inr:
  assumes "int_type TYPE('a::len)" and "sim_inv sim" and "acc \<noteq> WRITE"
    and "loadInt acc va sim = Inr ((st, v :: 'a word), sim')"
  shows "sim_inv sim' \<and> same_arch sim sim' \<and> load_ref acc va sim = Inr (st, v)"
  using loadInt_cases [OF assms(1,2,3), of va] assms(4) by (auto split: sum.splits)

lemma storeInt_Inr:
  fixes v :: "'a::len word"
  assumes "int_type TYPE('a)" and "sim_inv sim" and "storeInt va v sim = Inr (st, sim')"
  shows "\<exists>c'. store_ref va v sim = Inr (st, c') \<and> store_post sim c' sim'"
  using storeInt_cases [OF assms(1,2), of va v] assms(3) by (auto split: sum.splits)

text \<open>
  C6: a load or fetch through the TLB, at every integer width and for every address, returns what a page
  table walk and a read of physical memory return, with the same status or abort, and changes nothing but
  the TLB; except for an aligned address whose slot of the TLB still holds the entry it was constructed
  with and which lies in the page at \<open>POISON_VA\<close> that this entry names: that load dereferences a null pointer.
\<close>

theorem load_transparent:
  assumes "int_type TYPE('a::len)" and "sim_inv sim" and "acc \<noteq> WRITE"
  shows "if va AND addrAlignMask TYPE('a) = 0 \<and> TLB_find 7 va (getReadTLB acc sim) = Inr (True, None)
    then page_base va = POISON_VA \<and> loadInt acc va sim = (Inl NullDeref :: ((SimStatus \<times> 'a word) \<times> Simulator) res)
    else (case load_ref acc va sim of
      Inl e \<Rightarrow> loadInt acc va sim = (Inl e :: ((SimStatus \<times> 'a word) \<times> Simulator) res)
    | Inr (r :: SimStatus \<times> 'a word) \<Rightarrow> \<exists>sim'. loadInt acc va sim = Inr (r, sim') \<and> sim_inv sim' \<and> same_arch sim sim')"
  using assms by (rule loadInt_exact)

text \<open>
  C7: a store through the TLB, at every integer width and for every address, has the status or abort and
  the effect on physical memory of an uncached store; all translations and all cached translations stay
  right. The exception is again an aligned address in the page at \<open>POISON_VA\<close> whose slot was never
  used: the store dereferences a null pointer.
\<close>

theorem store_transparent:
  fixes v :: "'a::len word"
  assumes "int_type TYPE('a)" and "sim_inv sim"
  shows "if va AND addrAlignMask TYPE('a) = 0 \<and> TLB_find 7 va (m_write_tlb sim) = Inr (True, None)
    then page_base va = POISON_VA \<and> storeInt va v sim = Inl NullDeref
    else (case store_ref va v sim of
      Inl e \<Rightarrow> storeInt va v sim = Inl e
    | Inr (st, c') \<Rightarrow> \<exists>sim'. storeInt va v sim = Inr (st, sim') \<and> sim_inv sim' \<and> same_regs sim sim' \<and>
        contents_of sim' = c' \<and> (\<forall>acc va. user_translate acc va sim' = user_translate acc va sim))"
  using storeInt_exact [OF assms, of va v] unfolding store_post_def .

text \<open>
  C38: the simulator starts with TLBs that treat the page at \<open>POISON_VA\<close> as cached: an aligned load from
  it in a new simulator dereferences a null pointer, whatever the page tables say.
\<close>

theorem poison_page_null:
  assumes "va AND addrAlignMask TYPE('a::len) = 0" and "page_base va = POISON_VA" and "Simulator_new mm log = Inr sim"
  shows "loadInt acc va sim = (Inl NullDeref :: ((SimStatus \<times> 'a word) \<times> Simulator) res)"
  using assms
  by (auto simp: loadInt_def Simulator_new_def res_simps getReadTLB_def TLB_SIZE_LOG_2_def TLB_find_new)

end
