(* ===== verification/SimInstr.thy ===== *)
theory SimInstr
  imports SimMemory
begin

text \<open>
  \<^verbatim>\<open>simulator/include/sim/simulator/sim_instr.hpp\<close>, the generated dispatch table of
  \<^verbatim>\<open>simulator/gen_dispatch.py\<close> and \<^verbatim>\<open>simulator/src/simulator.cpp\<close>. The handlers of a basic
  block call each other through the table in tail position (\<open>SIM_NEXT\<close>); here a handler returns
  \<open>Next\<close> instead of calling, or \<open>Return\<close> with its status, and \<open>exec\<close> makes the calls.

  Operators are the C++ ones on the promoted operand types: \<open>+\<close> and \<open>-\<close> on signed types are
  undefined on overflow, \<open><<\<close> and \<open>>>\<close> for a shift count not below the width; both end in an
  \<open>abort\<close>. Conversions between integer types are \<open>ucast\<close> and \<open>scast\<close>.
\<close>

section \<open>Operators\<close>

definition add_signed :: "'a::len word \<Rightarrow> 'a word \<Rightarrow> 'a word res" where
  "add_signed a b = (if sint (a + b) = sint a + sint b then Inr (a + b) else Inl SignedOverflow)"

definition sub_signed :: "'a::len word \<Rightarrow> 'a word \<Rightarrow> 'a word res" where
  "sub_signed a b = (if sint (a - b) = sint a - sint b then Inr (a - b) else Inl SignedOverflow)"

definition shl :: "'a::len word \<Rightarrow> nat \<Rightarrow> 'a word res" where
  "shl a n = (if n < LENGTH('a) then Inr (push_bit n a) else Inl ShiftUB)"

definition shr :: "'a::len word \<Rightarrow> nat \<Rightarrow> 'a word res" where
  "shr a n = (if n < LENGTH('a) then Inr (drop_bit n a) else Inl ShiftUB)"

definition sar :: "'a::len word \<Rightarrow> nat \<Rightarrow> 'a word res" where
  "sar a n = (if n < LENGTH('a) then Inr (signed_drop_bit n a) else Inl ShiftUB)"

section \<open>Handlers\<close>

datatype flow = Next | Return SimStatus

type_synonym handler = "Instr \<Rightarrow> Simulator \<Rightarrow> (flow \<times> Simulator) res"

definition PC_ALIGN_MASK :: VirtAddr where "PC_ALIGN_MASK = 3"

definition SIM_NEXT :: "Simulator \<Rightarrow> (flow \<times> Simulator) res" where
  "SIM_NEXT sim = Inr (Next, sim)"

definition INCR_AND_SIM_NEXT :: "Simulator \<Rightarrow> (flow \<times> Simulator) res" where
  "INCR_AND_SIM_NEXT sim = SIM_NEXT (incr_to (pc_of sim + INSTR_CODE_SIZE) sim)"

definition LOG_REG_WRITE_INSTR :: "string \<Rightarrow> Instr \<Rightarrow> Simulator \<Rightarrow> Simulator res" where
  "LOG_REG_WRITE_INSTR mn instr sim = logGprWrite (m_rd instr) (logInstr mn sim)"

text \<open>The end of a handler that got a status from a memory access or a branch.\<close>

definition next_if_OK :: "(SimStatus \<times> Simulator) res \<Rightarrow> (flow \<times> Simulator) res" where
  "next_if_OK r = bindR r (\<lambda>(status, sim). if status \<noteq> OK then Inr (Return status, sim) else SIM_NEXT sim)"

definition return_status :: "(SimStatus \<times> Simulator) res \<Rightarrow> (flow \<times> Simulator) res" where
  "return_status r = bindR r (\<lambda>(status, sim). Inr (Return status, sim))"

definition simInstr_SIM_STATUS_INSTR :: handler where
  "simInstr_SIM_STATUS_INSTR instr sim =
     bindR (Instr_status instr) (\<lambda>status. Inr (Return status, sim))"

definition simInstr_ECALL :: handler where
  "simInstr_ECALL instr sim =
     (let sim = logInstr ''ECALL'' sim in
      Inr (Return SIM_EXIT, incr_to (pc_of sim + INSTR_CODE_SIZE) sim))"

definition simInstr_ADD :: handler where
  "simInstr_ADD instr sim =
     bindR (read_gpr (m_rs1 instr) sim) (\<lambda>rs1 :: 64 word.
     bindR (read_gpr (m_rs2 instr) sim) (\<lambda>rs2 :: 64 word.
     bindR (add_signed rs1 rs2) (\<lambda>res.
     bindR (write_gpr (m_rd instr) res sim) (\<lambda>sim.
     bindR (LOG_REG_WRITE_INSTR ''ADD'' instr sim) INCR_AND_SIM_NEXT))))"

definition simInstr_SUB :: handler where
  "simInstr_SUB instr sim =
     bindR (read_gpr (m_rs1 instr) sim) (\<lambda>rs1 :: 64 word.
     bindR (read_gpr (m_rs2 instr) sim) (\<lambda>rs2 :: 64 word.
     bindR (sub_signed rs1 rs2) (\<lambda>res.
     bindR (write_gpr (m_rd instr) res sim) (\<lambda>sim.
     bindR (LOG_REG_WRITE_INSTR ''SUB'' instr sim) INCR_AND_SIM_NEXT))))"

definition simInstr_SLT :: handler where
  "simInstr_SLT instr sim =
     bindR (read_gpr (m_rs1 instr) sim) (\<lambda>rs1 :: 64 word.
     bindR (read_gpr (m_rs2 instr) sim) (\<lambda>rs2 :: 64 word.
     let res = if sint rs1 < sint rs2 then 1 else 0 in
     bindR (write_gpr (m_rd instr) res sim) (\<lambda>sim.
     bindR (LOG_REG_WRITE_INSTR ''SLT'' instr sim) INCR_AND_SIM_NEXT)))"

definition simInstr_SLTU :: handler where
  "simInstr_SLTU instr sim =
     bindR (read_gpr (m_rs1 instr) sim) (\<lambda>rs1 :: 64 word.
     bindR (read_gpr (m_rs2 instr) sim) (\<lambda>rs2 :: 64 word.
     let res = if rs1 < rs2 then 1 else 0 in
     bindR (write_gpr (m_rd instr) res sim) (\<lambda>sim.
     bindR (LOG_REG_WRITE_INSTR ''SLTU'' instr sim) INCR_AND_SIM_NEXT)))"

definition simInstr_AND :: handler where
  "simInstr_AND instr sim =
     bindR (read_gpr (m_rs1 instr) sim) (\<lambda>rs1 :: 64 word.
     bindR (read_gpr (m_rs2 instr) sim) (\<lambda>rs2 :: 64 word.
     let res = rs1 AND rs2 in
     bindR (write_gpr (m_rd instr) res sim) (\<lambda>sim.
     bindR (LOG_REG_WRITE_INSTR ''AND'' instr sim) INCR_AND_SIM_NEXT)))"

definition simInstr_OR :: handler where
  "simInstr_OR instr sim =
     bindR (read_gpr (m_rs1 instr) sim) (\<lambda>rs1 :: 64 word.
     bindR (read_gpr (m_rs2 instr) sim) (\<lambda>rs2 :: 64 word.
     let res = rs1 OR rs2 in
     bindR (write_gpr (m_rd instr) res sim) (\<lambda>sim.
     bindR (LOG_REG_WRITE_INSTR ''OR'' instr sim) INCR_AND_SIM_NEXT)))"

definition simInstr_XOR :: handler where
  "simInstr_XOR instr sim =
     bindR (read_gpr (m_rs1 instr) sim) (\<lambda>rs1 :: 64 word.
     bindR (read_gpr (m_rs2 instr) sim) (\<lambda>rs2 :: 64 word.
     let res = rs1 XOR rs2 in
     bindR (write_gpr (m_rd instr) res sim) (\<lambda>sim.
     bindR (LOG_REG_WRITE_INSTR ''XOR'' instr sim) INCR_AND_SIM_NEXT)))"

definition simInstr_ADDI :: handler where
  "simInstr_ADDI instr sim =
     bindR (read_gpr (m_rs1 instr) sim) (\<lambda>rs1 :: 64 word.
     let imm = scast (m_imm instr); res = rs1 + imm in
     bindR (write_gpr (m_rd instr) res sim) (\<lambda>sim.
     bindR (LOG_REG_WRITE_INSTR ''ADDI'' instr sim) INCR_AND_SIM_NEXT))"

definition simInstr_SLTI :: handler where
  "simInstr_SLTI instr sim =
     bindR (read_gpr (m_rs1 instr) sim) (\<lambda>rs1 :: 64 word.
     let imm = scast (m_imm instr); res = if sint rs1 < sint (imm :: 64 word) then 1 else 0 in
     bindR (write_gpr (m_rd instr) res sim) (\<lambda>sim.
     bindR (LOG_REG_WRITE_INSTR ''SLTI'' instr sim) INCR_AND_SIM_NEXT))"

definition simInstr_SLTIU :: handler where
  "simInstr_SLTIU instr sim =
     bindR (read_gpr (m_rs1 instr) sim) (\<lambda>rs1 :: 64 word.
     let imm = scast (m_imm instr); res = if rs1 < imm then 1 else 0 in
     bindR (write_gpr (m_rd instr) res sim) (\<lambda>sim.
     bindR (LOG_REG_WRITE_INSTR ''SLTIU'' instr sim) INCR_AND_SIM_NEXT))"

definition simInstr_ANDI :: handler where
  "simInstr_ANDI instr sim =
     bindR (read_gpr (m_rs1 instr) sim) (\<lambda>rs1 :: 64 word.
     let imm = scast (m_imm instr); res = rs1 AND imm in
     bindR (write_gpr (m_rd instr) res sim) (\<lambda>sim.
     bindR (LOG_REG_WRITE_INSTR ''ANDI'' instr sim) INCR_AND_SIM_NEXT))"

definition simInstr_ORI :: handler where
  "simInstr_ORI instr sim =
     bindR (read_gpr (m_rs1 instr) sim) (\<lambda>rs1 :: 64 word.
     let imm = scast (m_imm instr); res = rs1 OR imm in
     bindR (write_gpr (m_rd instr) res sim) (\<lambda>sim.
     bindR (LOG_REG_WRITE_INSTR ''ORI'' instr sim) INCR_AND_SIM_NEXT))"

definition simInstr_XORI :: handler where
  "simInstr_XORI instr sim =
     bindR (read_gpr (m_rs1 instr) sim) (\<lambda>rs1 :: 64 word.
     let imm = scast (m_imm instr); res = rs1 XOR imm in
     bindR (write_gpr (m_rd instr) res sim) (\<lambda>sim.
     bindR (LOG_REG_WRITE_INSTR ''XORI'' instr sim) INCR_AND_SIM_NEXT))"

definition simInstr_ADDIW :: handler where
  "simInstr_ADDIW instr sim =
     bindR (read_gpr (m_rs1 instr) sim) (\<lambda>rs1 :: 32 word.
     let word_res = m_imm instr + rs1 in
     bindR (write_gpr (m_rd instr) (scast word_res) sim) (\<lambda>sim.
     bindR (LOG_REG_WRITE_INSTR ''ADDIW'' instr sim) INCR_AND_SIM_NEXT))"

definition simInstr_SLLI :: handler where
  "simInstr_SLLI instr sim =
     bindR (read_gpr (m_rs1 instr) sim) (\<lambda>rs1 :: 64 word.
     bindR (shl rs1 (unat (m_imm instr))) (\<lambda>res.
     bindR (write_gpr (m_rd instr) res sim) (\<lambda>sim.
     bindR (LOG_REG_WRITE_INSTR ''SLLI'' instr sim) INCR_AND_SIM_NEXT)))"

definition simInstr_SRLI :: handler where
  "simInstr_SRLI instr sim =
     bindR (read_gpr (m_rs1 instr) sim) (\<lambda>rs1 :: 64 word.
     bindR (shr rs1 (unat (m_imm instr))) (\<lambda>res.
     bindR (write_gpr (m_rd instr) res sim) (\<lambda>sim.
     bindR (LOG_REG_WRITE_INSTR ''SRLI'' instr sim) INCR_AND_SIM_NEXT)))"

definition simInstr_SRAI :: handler where
  "simInstr_SRAI instr sim =
     bindR (read_gpr (m_rs1 instr) sim) (\<lambda>rs1 :: 64 word.
     bindR (sar rs1 (unat (m_imm instr))) (\<lambda>res.
     bindR (write_gpr (m_rd instr) res sim) (\<lambda>sim.
     bindR (LOG_REG_WRITE_INSTR ''SRAI'' instr sim) INCR_AND_SIM_NEXT)))"

definition simInstr_SLLIW :: handler where
  "simInstr_SLLIW instr sim =
     bindR (read_gpr (m_rs1 instr) sim) (\<lambda>rs1 :: 32 word.
     bindR (shl rs1 (unat (m_imm instr))) (\<lambda>res.
     bindR (write_gpr (m_rd instr) (scast res) sim) (\<lambda>sim.
     bindR (LOG_REG_WRITE_INSTR ''SLLIW'' instr sim) INCR_AND_SIM_NEXT)))"

definition simInstr_SRLIW :: handler where
  "simInstr_SRLIW instr sim =
     bindR (read_gpr (m_rs1 instr) sim) (\<lambda>rs1 :: 32 word.
     bindR (shr rs1 (unat (m_imm instr))) (\<lambda>res.
     bindR (write_gpr (m_rd instr) (scast res) sim) (\<lambda>sim.
     bindR (LOG_REG_WRITE_INSTR ''SRLIW'' instr sim) INCR_AND_SIM_NEXT)))"

definition simInstr_SRAIW :: handler where
  "simInstr_SRAIW instr sim =
     bindR (read_gpr (m_rs1 instr) sim) (\<lambda>rs1 :: 32 word.
     bindR (sar rs1 (unat (m_imm instr))) (\<lambda>res.
     bindR (write_gpr (m_rd instr) (scast res) sim) (\<lambda>sim.
     bindR (LOG_REG_WRITE_INSTR ''SRAIW'' instr sim) INCR_AND_SIM_NEXT)))"

definition simInstr_LUI :: handler where
  "simInstr_LUI instr sim =
     bindR (write_gpr (m_rd instr) (scast (m_imm instr)) sim) (\<lambda>sim.
     bindR (LOG_REG_WRITE_INSTR ''LUI'' instr sim) INCR_AND_SIM_NEXT)"

definition simInstr_AUIPC :: handler where
  "simInstr_AUIPC instr sim =
     (let res = ucast (m_imm instr) + pc_of sim in
      bindR (write_gpr (m_rd instr) res sim) (\<lambda>sim.
     bindR (LOG_REG_WRITE_INSTR ''AUIPC'' instr sim) INCR_AND_SIM_NEXT))"

definition simInstr_SLL :: handler where
  "simInstr_SLL instr sim =
     bindR (read_gpr (m_rs2 instr) sim) (\<lambda>rs2 :: 8 word.
     bindR (maskBits 5 0 rs2) (\<lambda>shift.
     bindR (read_gpr (m_rs1 instr) sim) (\<lambda>rs1 :: 64 word.
     bindR (shl rs1 (unat shift)) (\<lambda>res.
     bindR (write_gpr (m_rd instr) res sim) (\<lambda>sim.
     bindR (LOG_REG_WRITE_INSTR ''SLL'' instr sim) INCR_AND_SIM_NEXT)))))"

definition simInstr_SRL :: handler where
  "simInstr_SRL instr sim =
     bindR (read_gpr (m_rs2 instr) sim) (\<lambda>rs2 :: 8 word.
     bindR (maskBits 5 0 rs2) (\<lambda>shift.
     bindR (read_gpr (m_rs1 instr) sim) (\<lambda>rs1 :: 64 word.
     bindR (shr rs1 (unat shift)) (\<lambda>res.
     bindR (write_gpr (m_rd instr) res sim) (\<lambda>sim.
     bindR (LOG_REG_WRITE_INSTR ''SRL'' instr sim) INCR_AND_SIM_NEXT)))))"

definition simInstr_SRA :: handler where
  "simInstr_SRA instr sim =
     bindR (read_gpr (m_rs2 instr) sim) (\<lambda>rs2 :: 8 word.
     bindR (maskBits 5 0 rs2) (\<lambda>shift.
     bindR (read_gpr (m_rs1 instr) sim) (\<lambda>rs1 :: 64 word.
     bindR (sar rs1 (unat shift)) (\<lambda>res.
     bindR (write_gpr (m_rd instr) res sim) (\<lambda>sim.
     bindR (LOG_REG_WRITE_INSTR ''SRA'' instr sim) INCR_AND_SIM_NEXT)))))"

definition simInstr_ADDW :: handler where
  "simInstr_ADDW instr sim =
     bindR (read_gpr (m_rs1 instr) sim) (\<lambda>rs1 :: 32 word.
     bindR (read_gpr (m_rs2 instr) sim) (\<lambda>rs2 :: 32 word.
     bindR (add_signed rs1 rs2) (\<lambda>res.
     bindR (write_gpr (m_rd instr) (scast res) sim) (\<lambda>sim.
     bindR (LOG_REG_WRITE_INSTR ''ADDW'' instr sim) INCR_AND_SIM_NEXT))))"

definition simInstr_SUBW :: handler where
  "simInstr_SUBW instr sim =
     bindR (read_gpr (m_rs1 instr) sim) (\<lambda>rs1 :: 32 word.
     bindR (read_gpr (m_rs2 instr) sim) (\<lambda>rs2 :: 32 word.
     bindR (sub_signed rs1 rs2) (\<lambda>res.
     bindR (write_gpr (m_rd instr) (scast res) sim) (\<lambda>sim.
     bindR (LOG_REG_WRITE_INSTR ''SUBW'' instr sim) INCR_AND_SIM_NEXT))))"

definition simInstr_SLLW :: handler where
  "simInstr_SLLW instr sim =
     bindR (read_gpr (m_rs2 instr) sim) (\<lambda>rs2 :: 8 word.
     bindR (maskBits 4 0 rs2) (\<lambda>shift.
     bindR (read_gpr (m_rs1 instr) sim) (\<lambda>rs1 :: 32 word.
     bindR (shl rs1 (unat shift)) (\<lambda>res.
     bindR (write_gpr (m_rd instr) (scast res) sim) (\<lambda>sim.
     bindR (LOG_REG_WRITE_INSTR ''SLLW'' instr sim) INCR_AND_SIM_NEXT)))))"

definition simInstr_SRLW :: handler where
  "simInstr_SRLW instr sim =
     bindR (read_gpr (m_rs2 instr) sim) (\<lambda>rs2 :: 8 word.
     bindR (maskBits 4 0 rs2) (\<lambda>shift.
     bindR (read_gpr (m_rs1 instr) sim) (\<lambda>rs1 :: 32 word.
     bindR (shr rs1 (unat shift)) (\<lambda>res.
     bindR (write_gpr (m_rd instr) (scast res) sim) (\<lambda>sim.
     bindR (LOG_REG_WRITE_INSTR ''SRLW'' instr sim) INCR_AND_SIM_NEXT)))))"

definition simInstr_SRAW :: handler where
  "simInstr_SRAW instr sim =
     bindR (read_gpr (m_rs2 instr) sim) (\<lambda>rs2 :: 8 word.
     bindR (maskBits 4 0 rs2) (\<lambda>shift.
     bindR (read_gpr (m_rs1 instr) sim) (\<lambda>rs1 :: 32 word.
     bindR (sar rs1 (unat shift)) (\<lambda>res.
     bindR (write_gpr (m_rd instr) (scast res) sim) (\<lambda>sim.
     bindR (LOG_REG_WRITE_INSTR ''SRAW'' instr sim) INCR_AND_SIM_NEXT)))))"

definition simInstr_LD :: handler where
  "simInstr_LD instr sim =
     next_if_OK (simLoadInstr ((\<lambda>v. v) :: 64 word \<Rightarrow> RegValue) instr (logInstr ''LD'' sim))"

definition simInstr_LW :: handler where
  "simInstr_LW instr sim =
     next_if_OK (simLoadInstr (scast :: 32 word \<Rightarrow> RegValue) instr (logInstr ''LW'' sim))"

definition simInstr_LH :: handler where
  "simInstr_LH instr sim =
     next_if_OK (simLoadInstr (scast :: 16 word \<Rightarrow> RegValue) instr (logInstr ''LH'' sim))"

definition simInstr_LB :: handler where
  "simInstr_LB instr sim =
     next_if_OK (simLoadInstr (scast :: 8 word \<Rightarrow> RegValue) instr (logInstr ''LB'' sim))"

definition simInstr_LWU :: handler where
  "simInstr_LWU instr sim =
     next_if_OK (simLoadInstr (ucast :: 32 word \<Rightarrow> RegValue) instr (logInstr ''LWU'' sim))"

definition simInstr_LHU :: handler where
  "simInstr_LHU instr sim =
     next_if_OK (simLoadInstr (ucast :: 16 word \<Rightarrow> RegValue) instr (logInstr ''LHU'' sim))"

definition simInstr_LBU :: handler where
  "simInstr_LBU instr sim =
     next_if_OK (simLoadInstr (ucast :: 8 word \<Rightarrow> RegValue) instr (logInstr ''LBU'' sim))"

definition simInstr_SD :: handler where
  "simInstr_SD instr sim =
     next_if_OK (simStoreInstr TYPE(64) instr (logInstr ''SD'' sim))"

definition simInstr_SW :: handler where
  "simInstr_SW instr sim =
     next_if_OK (simStoreInstr TYPE(32) instr (logInstr ''SW'' sim))"

definition simInstr_SH :: handler where
  "simInstr_SH instr sim =
     next_if_OK (simStoreInstr TYPE(16) instr (logInstr ''SH'' sim))"

definition simInstr_SB :: handler where
  "simInstr_SB instr sim =
     next_if_OK (simStoreInstr TYPE(8) instr (logInstr ''SB'' sim))"

definition simInstr_JAL :: handler where
  "simInstr_JAL instr sim =
     (let sim = logInstr ''JAL'' sim;
          link_pc = pc_of sim + 4;
          new_pc = pc_of sim + scast (m_imm instr)
      in if new_pc AND PC_ALIGN_MASK \<noteq> 0 then Inr (Return SIM_PC_ALIGN_ERROR, sim)
         else
           bindR (write_gpr (m_rd instr) link_pc sim) (\<lambda>sim.
           bindR (logGprWrite (m_rd instr) (incr_to new_pc sim)) (\<lambda>sim.
           Inr (Return OK, logPcWrite sim))))"

definition simInstr_JALR :: handler where
  "simInstr_JALR instr sim =
     (let sim = logInstr ''JALR'' sim; link_pc = pc_of sim + 4; offset = scast (m_imm instr) in
      bindR (read_gpr (m_rs1 instr) sim) (\<lambda>rs1.
      bindR (add_signed offset rs1) (\<lambda>sum.
      let new_pc = sum AND NOT 1 in
      if new_pc AND PC_ALIGN_MASK \<noteq> 0 then Inr (Return SIM_PC_ALIGN_ERROR, sim)
      else
        bindR (write_gpr (m_rd instr) link_pc sim) (\<lambda>sim.
        bindR (logGprWrite (m_rd instr) (incr_to new_pc sim)) (\<lambda>sim.
        Inr (Return OK, logPcWrite sim))))))"

definition simInstr_BEQ :: handler where
  "simInstr_BEQ instr sim =
     return_status (simCondBranch (\<lambda>a b. a = b) instr (logInstr ''BEQ'' sim))"

definition simInstr_BNE :: handler where
  "simInstr_BNE instr sim =
     return_status (simCondBranch (\<lambda>a b. a \<noteq> b) instr (logInstr ''BNE'' sim))"

definition simInstr_BLT :: handler where
  "simInstr_BLT instr sim =
     return_status (simCondBranch (\<lambda>a b. sint a < sint b) instr (logInstr ''BLT'' sim))"

definition simInstr_BLTU :: handler where
  "simInstr_BLTU instr sim =
     return_status (simCondBranch (\<lambda>a b. a < b) instr (logInstr ''BLTU'' sim))"

definition simInstr_BGE :: handler where
  "simInstr_BGE instr sim =
     return_status (simCondBranch (\<lambda>a b. sint a \<ge> sint b) instr (logInstr ''BGE'' sim))"

definition simInstr_BGEU :: handler where
  "simInstr_BGEU instr sim =
     return_status (simCondBranch (\<lambda>a b. a \<ge> b) instr (logInstr ''BGEU'' sim))"

section \<open>Dispatch\<close>

text \<open>\<open>None\<close> is the \<^verbatim>\<open>nullptr\<close> of an instruction without a handler.\<close>

fun dispatch :: "InstrId \<Rightarrow> handler option" where
  "dispatch SIM_STATUS_INSTR = Some simInstr_SIM_STATUS_INSTR"
| "dispatch I_ECALL = Some simInstr_ECALL"
| "dispatch I_ADD = Some simInstr_ADD"
| "dispatch I_SUB = Some simInstr_SUB"
| "dispatch I_SLT = Some simInstr_SLT"
| "dispatch I_SLTU = Some simInstr_SLTU"
| "dispatch I_AND = Some simInstr_AND"
| "dispatch I_OR = Some simInstr_OR"
| "dispatch I_XOR = Some simInstr_XOR"
| "dispatch I_ADDI = Some simInstr_ADDI"
| "dispatch I_SLTI = Some simInstr_SLTI"
| "dispatch I_SLTIU = Some simInstr_SLTIU"
| "dispatch I_ANDI = Some simInstr_ANDI"
| "dispatch I_ORI = Some simInstr_ORI"
| "dispatch I_XORI = Some simInstr_XORI"
| "dispatch I_ADDIW = Some simInstr_ADDIW"
| "dispatch I_SLLI = Some simInstr_SLLI"
| "dispatch I_SRLI = Some simInstr_SRLI"
| "dispatch I_SRAI = Some simInstr_SRAI"
| "dispatch I_SLLIW = Some simInstr_SLLIW"
| "dispatch I_SRLIW = Some simInstr_SRLIW"
| "dispatch I_SRAIW = Some simInstr_SRAIW"
| "dispatch I_LUI = Some simInstr_LUI"
| "dispatch I_AUIPC = Some simInstr_AUIPC"
| "dispatch I_SLL = Some simInstr_SLL"
| "dispatch I_SRL = Some simInstr_SRL"
| "dispatch I_SRA = Some simInstr_SRA"
| "dispatch I_ADDW = Some simInstr_ADDW"
| "dispatch I_SUBW = Some simInstr_SUBW"
| "dispatch I_SLLW = Some simInstr_SLLW"
| "dispatch I_SRLW = Some simInstr_SRLW"
| "dispatch I_SRAW = Some simInstr_SRAW"
| "dispatch I_LD = Some simInstr_LD"
| "dispatch I_LW = Some simInstr_LW"
| "dispatch I_LH = Some simInstr_LH"
| "dispatch I_LB = Some simInstr_LB"
| "dispatch I_LWU = Some simInstr_LWU"
| "dispatch I_LHU = Some simInstr_LHU"
| "dispatch I_LBU = Some simInstr_LBU"
| "dispatch I_SD = Some simInstr_SD"
| "dispatch I_SW = Some simInstr_SW"
| "dispatch I_SH = Some simInstr_SH"
| "dispatch I_SB = Some simInstr_SB"
| "dispatch I_JAL = Some simInstr_JAL"
| "dispatch I_JALR = Some simInstr_JALR"
| "dispatch I_BEQ = Some simInstr_BEQ"
| "dispatch I_BNE = Some simInstr_BNE"
| "dispatch I_BLT = Some simInstr_BLT"
| "dispatch I_BLTU = Some simInstr_BLTU"
| "dispatch I_BGE = Some simInstr_BGE"
| "dispatch I_BGEU = Some simInstr_BGEU"
| "dispatch (NotImpl _) = None"

definition call :: handler where
  "call instr sim =
     (case dispatch (m_id instr) of None \<Rightarrow> Inl NullCall | Some h \<Rightarrow> h instr sim)"

text \<open>The chain of tail calls that the call for the first instruction starts.\<close>

fun exec :: "Instr list \<Rightarrow> Simulator \<Rightarrow> (SimStatus \<times> Simulator) res" where
  "exec [] sim = Inl OutOfBounds"
| "exec (instr # instrs) sim =
     bindR (call instr sim) (\<lambda>(flow, sim).
     case flow of Return status \<Rightarrow> Inr (status, sim) | Next \<Rightarrow> exec instrs sim)"

section \<open>The main loop\<close>

text \<open>Finding, and if need be decoding, the block at the program counter.\<close>

definition find_bb :: "Simulator \<Rightarrow> (Bb \<times> Simulator) res" where
  "find_bb sim =
     bindR (BbCache_find BB_CACHE_SIZE_LOG_2 (pc_of sim) (m_bb_cache sim)) (\<lambda>i.
     let cached_bb = m_bbs (m_bb_cache sim) ! i in
     if m_virt_addr cached_bb \<noteq> pc_of sim then
       bindR (Bb_update Fetch (pc_of sim) cached_bb (sim, pc_of sim)) (\<lambda>(bb, (sim, _)).
       let cache = m_bb_cache sim in
       Inr (bb, sim\<lparr>m_bb_cache := cache\<lparr>m_bbs := (m_bbs cache)[i := bb]\<rparr>\<rparr>))
     else Inr (cached_bb, sim))"

definition sim_block :: "Simulator \<Rightarrow> (SimStatus \<times> Simulator) res" where
  "sim_block sim = bindR (find_bb sim) (\<lambda>(bb, sim). exec (m_instrs bb) sim)"

text \<open>The endless loop, cut off after \<open>fuel\<close> rounds with the result \<open>None\<close>.\<close>

fun sim_loop :: "nat \<Rightarrow> Simulator \<Rightarrow> (SimStatus \<times> Simulator) res option" where
  "sim_loop 0 sim = None"
| "sim_loop (Suc fuel) sim =
     (case sim_block sim of
        Inl e \<Rightarrow> Some (Inl e)
      | Inr (status, sim) \<Rightarrow>
          if status = SIM_EXIT then Some (Inr (OK, sim))
          else if status \<noteq> OK then Some (Inr (status, sim))
          else sim_loop fuel sim)"

definition simulate :: "nat \<Rightarrow> VirtAddr \<Rightarrow> Simulator \<Rightarrow> (SimStatus \<times> Simulator) res option" where
  "simulate fuel start_pc sim =
     sim_loop fuel (sim\<lparr>m_hart := (m_hart sim)\<lparr>m_pc := start_pc\<rparr>, m_icount := 0\<rparr>)"

end
