(* ===== verification/SimInv.thy ===== *)
theory SimInv
  imports SimInstr
begin

text \<open>
  What running a program keeps: every handler, every basic block and the main loop keep the
  invariant of the simulator (register 0 is 0, the TLBs agree with the page tables, the cached
  blocks are well-formed, the page tables are out of reach), and a block never runs past its end.
\<close>

section \<open>Handlers\<close>

text \<open>A handler's result is safe if it is an abort or a state that satisfies the invariant.\<close>

definition safe :: "Simulator \<Rightarrow> ('b \<times> Simulator) res \<Rightarrow> bool" where
  "safe sim r \<longleftrightarrow> (\<forall>x sim'. r = Inr (x, sim') \<longrightarrow> sim_inv sim' \<and> m_bb_cache sim' = m_bb_cache sim)"

lemma safe_Inl [simp]: "safe sim (Inl e)"
  by (simp add: safe_def)

lemma safe_Inr [simp]: "safe sim (Inr (x, sim')) \<longleftrightarrow> sim_inv sim' \<and> m_bb_cache sim' = m_bb_cache sim"
  by (simp add: safe_def)

lemma safe_bind: "(\<And>x. m = Inr x \<Longrightarrow> safe sim (f x)) \<Longrightarrow> safe sim (bindR m f)"
  by (cases m) simp_all

text \<open>Registers, program counter and instruction count do not matter to memory.\<close>

lemma user_translate_hart:
  "user_translate acc va (sim\<lparr>m_hart := h, m_icount := n\<rparr>) =
     (if m_csr_file h = m_csr_file (m_hart sim) then user_translate acc va sim
      else user_translate acc va (sim\<lparr>m_hart := h\<rparr>))"
  by (simp add: user_translate_def)

lemma sim_inv_hart:
  assumes "sim_inv sim" and "gpr_inv (m_gpr_file h)" and "m_csr_file h = m_csr_file (m_hart sim)"
  shows "sim_inv (sim\<lparr>m_hart := h, m_icount := n\<rparr>)"
proof -
  let ?s = "sim\<lparr>m_hart := h, m_icount := n\<rparr>"
  have "tlb_sound acc ?s t = tlb_sound acc sim t" for acc t
    using assms(3) by (intro tlb_sound_cong) (simp_all add: user_translate_hart)
  then show ?thesis using assms by (simp add: sim_inv_def)
qed

lemma incr_to_inv [simp]: "sim_inv sim \<Longrightarrow> sim_inv (incr_to pc sim)"
  unfolding incr_to_def by (rule sim_inv_hart) (simp_all add: sim_inv_def)

lemma incr_to_simps [simp]:
  "m_bb_cache (incr_to pc sim) = m_bb_cache sim" "m_phys_memory (incr_to pc sim) = m_phys_memory sim"
  "pc_of (incr_to pc sim) = pc" "m_gpr_file (m_hart (incr_to pc sim)) = m_gpr_file (m_hart sim)"
  "m_icount (incr_to pc sim) = m_icount sim + 1" "m_log (incr_to pc sim) = m_log sim"
  by (simp_all add: incr_to_def)

text \<open>The log does not matter either.\<close>

lemma emit_simps [simp]:
  "m_phys_memory (emit ls sim) = m_phys_memory sim" "m_hart (emit ls sim) = m_hart sim"
  "m_read_tlb (emit ls sim) = m_read_tlb sim" "m_write_tlb (emit ls sim) = m_write_tlb sim"
  "m_fetch_tlb (emit ls sim) = m_fetch_tlb sim" "m_bb_cache (emit ls sim) = m_bb_cache sim"
  "m_icount (emit ls sim) = m_icount sim" "m_log (emit ls sim) = map_option (\<lambda>log. log @ ls) (m_log sim)"
  by (simp_all add: emit_def)

lemma sim_inv_log [simp]: "sim_inv (sim\<lparr>m_log := log\<rparr>) \<longleftrightarrow> sim_inv sim"
proof -
  have "tlb_sound acc (sim\<lparr>m_log := log\<rparr>) t = tlb_sound acc sim t" for acc t
    by (intro tlb_sound_cong) (simp_all add: user_translate_def)
  then show ?thesis by (simp add: sim_inv_def)
qed

lemma emit_inv [simp]: "sim_inv (emit ls sim) \<longleftrightarrow> sim_inv sim"
  by (simp add: emit_def)

lemma logInstr_inv [simp]: "sim_inv (logInstr mn sim) \<longleftrightarrow> sim_inv sim" "m_bb_cache (logInstr mn sim) = m_bb_cache sim"
  and logPcWrite_inv [simp]: "sim_inv (logPcWrite sim) \<longleftrightarrow> sim_inv sim" "m_bb_cache (logPcWrite sim) = m_bb_cache sim"
  and logMemWrite_inv [simp]: "sim_inv (logMemWrite va v sim) \<longleftrightarrow> sim_inv sim" "m_bb_cache (logMemWrite va v sim) = m_bb_cache sim"
  by (simp_all add: logInstr_def logPcWrite_def logMemWrite_def)

lemma logGprWrite_inv:
  assumes "sim_inv sim" and "logGprWrite idx sim = Inr sim'"
  shows "sim_inv sim' \<and> m_bb_cache sim' = m_bb_cache sim"
  using assms by (auto simp: logGprWrite_def res_simps split: if_splits)

lemma write_gpr_inv:
  assumes "sim_inv sim" and "write_gpr idx v sim = Inr sim'"
  shows "sim_inv sim' \<and> m_bb_cache sim' = m_bb_cache sim"
proof -
  from assms(2) obtain g where g: "GPRFile_write (unat idx) v (m_gpr_file (m_hart sim)) = Inr g"
    and sim': "sim' = sim\<lparr>m_hart := (m_hart sim)\<lparr>m_gpr_file := g\<rparr>\<rparr>"
    by (auto simp: write_gpr_def res_simps)
  have "gpr_inv g" using gpr.wr_inv [OF _ g] assms(1) by (simp add: sim_inv_def)
  then have "sim_inv (sim\<lparr>m_hart := (m_hart sim)\<lparr>m_gpr_file := g\<rparr>, m_icount := m_icount sim\<rparr>)"
    by (intro sim_inv_hart assms) simp_all
  then show ?thesis by (simp add: sim')
qed

lemma LOG_REG_WRITE_INSTR_inv:
  "sim_inv sim \<Longrightarrow> LOG_REG_WRITE_INSTR mn instr sim = Inr sim' \<Longrightarrow> sim_inv sim' \<and> m_bb_cache sim' = m_bb_cache sim"
  using logGprWrite_inv [of "logInstr mn sim"] by (simp add: LOG_REG_WRITE_INSTR_def)

lemma safe_logInstr [simp]: "safe (logInstr mn sim) r \<longleftrightarrow> safe sim r"
  by (simp add: safe_def)

lemmas write_inv = write_gpr_inv [rotated] logGprWrite_inv [rotated] LOG_REG_WRITE_INSTR_inv [rotated]

lemma safe_next: "sim_inv sim' \<and> m_bb_cache sim' = m_bb_cache sim \<Longrightarrow> safe sim (INCR_AND_SIM_NEXT sim')"
  by (simp add: INCR_AND_SIM_NEXT_def SIM_NEXT_def)

lemma safe_flow:
  "safe sim r \<Longrightarrow> safe sim (next_if_OK r)" "safe sim r \<Longrightarrow> safe sim (return_status r)"
  by (auto simp: safe_def next_if_OK_def return_status_def SIM_NEXT_def res_simps split: if_splits)

lemma safe_load:
  fixes ext :: "'a::len word \<Rightarrow> RegValue"
  assumes ty: "int_type TYPE('a)" and inv: "sim_inv sim"
  shows "safe sim (simLoadInstr ext instr sim)"
proof -
  have "safe sim (bindR (loadInt READ va sim) (\<lambda>((status, res), sim). if status \<noteq> OK then Inr (status, sim)
      else bindR (write_gpr (m_rd instr) (ext res) sim) (\<lambda>sim. bindR (logGprWrite (m_rd instr) sim) (\<lambda>sim.
        Inr (OK, incr_to (pc_of sim + INSTR_CODE_SIZE) sim)))))" for va
  proof (rule safe_bind, clarify)
    fix st v sim' assume "loadInt READ va sim = Inr ((st, v :: 'a word), sim')"
    from loadInt_Inr [OF ty inv _ this] have "sim_inv sim'" "m_bb_cache sim' = m_bb_cache sim"
      by (simp_all add: same_arch_def)
    then show "safe sim (if st \<noteq> OK then Inr (st, sim')
        else bindR (write_gpr (m_rd instr) (ext v) sim') (\<lambda>sim. bindR (logGprWrite (m_rd instr) sim) (\<lambda>sim.
          Inr (OK, incr_to (pc_of sim + INSTR_CODE_SIZE) sim))))"
      by (auto intro!: safe_bind dest!: write_inv)
  qed
  then show ?thesis unfolding simLoadInstr_def Let_def by (rule safe_bind)
qed

lemma safe_store:
  assumes ty: "int_type TYPE('a::len)" and inv: "sim_inv sim"
  shows "safe sim (simStoreInstr TYPE('a) instr sim)"
proof -
  have "sim_inv sim' \<and> m_bb_cache sim' = m_bb_cache sim"
    if "storeInt va (v :: 'a word) sim = Inr (st, sim')" for va v st sim'
    using storeInt_Inr [OF ty inv that] by (auto simp: store_post_def same_regs_def)
  then show ?thesis
    unfolding simStoreInstr_def Let_def by (auto intro!: safe_bind)
qed

lemma safe_branch: "sim_inv sim \<Longrightarrow> safe sim (simCondBranch cmp instr sim)"
  unfolding simCondBranch_def Let_def by (auto intro!: safe_bind)

lemma safe_logged:
  assumes "sim_inv sim"
  shows "int_type TYPE('a::len) \<Longrightarrow> safe sim (simLoadInstr (ext :: 'a word \<Rightarrow> RegValue) instr (logInstr mn sim))"
    and "int_type TYPE('a) \<Longrightarrow> safe sim (simStoreInstr TYPE('a) instr (logInstr mn sim))"
    and "safe sim (simCondBranch cmp instr (logInstr mn sim))"
  using safe_load [of "logInstr mn sim" ext instr] safe_store [of "logInstr mn sim" instr, where 'a = 'a]
    safe_branch [of "logInstr mn sim" cmp instr] assms by simp_all

lemmas handler_defs =
  simInstr_SIM_STATUS_INSTR_def simInstr_ECALL_def simInstr_ADD_def simInstr_SUB_def simInstr_SLT_def
  simInstr_SLTU_def simInstr_AND_def simInstr_OR_def simInstr_XOR_def simInstr_ADDI_def simInstr_SLTI_def
  simInstr_SLTIU_def simInstr_ANDI_def simInstr_ORI_def simInstr_XORI_def simInstr_ADDIW_def simInstr_SLLI_def
  simInstr_SRLI_def simInstr_SRAI_def simInstr_SLLIW_def simInstr_SRLIW_def simInstr_SRAIW_def simInstr_LUI_def
  simInstr_AUIPC_def simInstr_SLL_def simInstr_SRL_def simInstr_SRA_def simInstr_ADDW_def simInstr_SUBW_def
  simInstr_SLLW_def simInstr_SRLW_def simInstr_SRAW_def simInstr_LD_def simInstr_LW_def simInstr_LH_def
  simInstr_LB_def simInstr_LWU_def simInstr_LHU_def simInstr_LBU_def simInstr_SD_def simInstr_SW_def
  simInstr_SH_def simInstr_SB_def simInstr_JAL_def simInstr_JALR_def simInstr_BEQ_def simInstr_BNE_def
  simInstr_BLT_def simInstr_BLTU_def simInstr_BGE_def simInstr_BGEU_def

lemma call_safe:
  assumes "sim_inv sim"
  shows "safe sim (call instr sim)"
  using assms
  by (cases "m_id instr")
    (auto simp: call_def handler_defs Let_def safe_logged intro!: safe_bind safe_flow safe_next dest!: write_inv)

text \<open>Exactly the instructions that end a block do not go on to the next one.\<close>

lemma call_ends:
  assumes "ends_bb instr" and "call instr sim = Inr (f, sim')"
  shows "f \<noteq> Next"
  using assms
  by (cases "m_id instr")
    (auto simp: ends_bb_def call_def handler_defs Let_def return_status_def res_simps split: if_splits)

section \<open>Blocks\<close>

lemma exec_inv:
  "block_ok instrs \<Longrightarrow> sim_inv sim \<Longrightarrow> exec instrs sim = Inr (st, sim') \<Longrightarrow>
     sim_inv sim' \<and> m_bb_cache sim' = m_bb_cache sim"
proof (induction instrs arbitrary: sim)
  case (Cons instr instrs)
  from Cons.prems(3) obtain f sim1 where call: "call instr sim = Inr (f, sim1)"
    and rest: "(case f of Return status \<Rightarrow> Inr (status, sim1) | Next \<Rightarrow> exec instrs sim1) = Inr (st, sim')"
    by (auto simp: res_simps)
  have s1: "sim_inv sim1" "m_bb_cache sim1 = m_bb_cache sim"
    using call_safe [OF Cons.prems(2), of instr] call by simp_all
  show ?case
  proof (cases f)
    case Next
    then have "block_ok instrs" using Cons.prems(1) call_ends [OF _ call] by auto
    with Cons.IH [OF _ s1(1)] rest Next s1(2) show ?thesis by simp
  next
    case (Return status)
    with rest s1 show ?thesis by simp
  qed
qed simp


text \<open>
  The aborts that a program can cause: the null pointers of the TLB and of the dispatch table, the
  undefined operators, and the assertion on the accessed and dirty bits of a page table entry.
\<close>

definition program_aborts :: "abort set" where
  "program_aborts = {NullDeref, NullCall, ShiftUB, SignedOverflow, AssertFailed}"

definition aborts_in :: "abort set \<Rightarrow> 'b res \<Rightarrow> bool" where
  "aborts_in S r \<longleftrightarrow> (\<forall>e. r = Inl e \<longrightarrow> e \<in> S)"

lemma aborts_in_Inr [simp]: "aborts_in S (Inr x)" and aborts_in_Inl [simp]: "aborts_in S (Inl e) \<longleftrightarrow> e \<in> S"
  by (simp_all add: aborts_in_def)

lemma aborts_in_bind:
  "aborts_in S m \<Longrightarrow> (\<And>x. m = Inr x \<Longrightarrow> aborts_in S (f x)) \<Longrightarrow> aborts_in S (bindR m f)"
  by (cases m) simp_all

lemma aborts_in_mono: "aborts_in S r \<Longrightarrow> S \<subseteq> T \<Longrightarrow> aborts_in T r"
  by (auto simp: aborts_in_def)

lemma aborts_translate: "aborts_in {AssertFailed} (user_translate acc va sim)"
  by (auto simp: user_translate_def translate_c_def SIM_ASSERT_def split: walk_end.splits)

lemma aborts_load_ref: "aborts_in {AssertFailed} (load_ref acc va sim)"
  unfolding load_ref_def by (simp add: aborts_in_bind aborts_translate)

lemma aborts_store_ref: "aborts_in {AssertFailed} (store_ref va v sim)"
  unfolding store_ref_def by (simp add: aborts_in_bind aborts_translate)

lemma aborts_load:
  assumes "int_type TYPE('a::len)" and "sim_inv sim" and "acc \<noteq> WRITE"
  shows "aborts_in {NullDeref, AssertFailed} (loadInt acc va sim :: ((SimStatus \<times> 'a word) \<times> Simulator) res)"
  using loadInt_cases [OF assms, of va] aborts_load_ref [of acc va sim, where 'a = 'a]
  by (auto simp: aborts_in_def split: sum.splits)

lemma aborts_store:
  fixes v :: "'a::len word"
  assumes "int_type TYPE('a)" and "sim_inv sim"
  shows "aborts_in {NullDeref, AssertFailed} (storeInt va v sim)"
  using storeInt_cases [OF assms, of va v] aborts_store_ref [of va v sim]
  by (auto simp: aborts_in_def split: sum.splits)

lemma aborts_regs [simp]:
  "aborts_in program_aborts (read_gpr idx sim)" "aborts_in program_aborts (write_gpr idx v sim)"
  "aborts_in program_aborts (add_signed a b)" "aborts_in program_aborts (sub_signed a b)"
  "aborts_in program_aborts (shl a n)" "aborts_in program_aborts (shr a n)" "aborts_in program_aborts (sar a n)"
  "aborts_in program_aborts (SIM_NEXT sim)" "aborts_in program_aborts (INCR_AND_SIM_NEXT sim)"
  "aborts_in program_aborts (maskBits hi lo (byte :: 8 word))"
  by (auto simp: aborts_in_def program_aborts_def read_gpr_def write_gpr_def GPRFile_read_def GPRFile_write_def
      SIM_ASSERT_def add_signed_def sub_signed_def shl_def shr_def sar_def SIM_NEXT_def INCR_AND_SIM_NEXT_def
      maskBits_def getBitField_def Let_def split: if_splits)

lemma aborts_logGprWrite [simp]: "aborts_in program_aborts (logGprWrite idx sim)"
  unfolding logGprWrite_def by (auto intro!: aborts_in_bind)

lemma aborts_LOG_REG_WRITE_INSTR [simp]: "aborts_in program_aborts (LOG_REG_WRITE_INSTR mn instr sim)"
  by (simp add: LOG_REG_WRITE_INSTR_def)

lemma aborts_flow:
  "aborts_in S r \<Longrightarrow> aborts_in S (next_if_OK r)" "aborts_in S r \<Longrightarrow> aborts_in S (return_status r)"
  unfolding next_if_OK_def return_status_def SIM_NEXT_def by (auto intro!: aborts_in_bind)

lemma aborts_memory:
  assumes "sim_inv sim"
  shows "int_type TYPE('a::len) \<Longrightarrow> aborts_in program_aborts (simLoadInstr (ext :: 'a word \<Rightarrow> RegValue) instr sim)"
    and "int_type TYPE('a) \<Longrightarrow> aborts_in program_aborts (simStoreInstr TYPE('a) instr sim)"
    and "aborts_in program_aborts (simCondBranch cmp instr sim)"
proof -
  have sub: "{NullDeref, AssertFailed} \<subseteq> program_aborts" by (auto simp: program_aborts_def)
  show "int_type TYPE('a) \<Longrightarrow> aborts_in program_aborts (simLoadInstr ext instr sim)"
    unfolding simLoadInstr_def Let_def
    by (intro aborts_in_bind aborts_in_mono [OF aborts_load sub] assms) (auto intro!: aborts_in_bind)
  show "int_type TYPE('a) \<Longrightarrow> aborts_in program_aborts (simStoreInstr TYPE('a) instr sim)"
    unfolding simStoreInstr_def Let_def
    by (intro aborts_in_bind aborts_in_mono [OF aborts_store sub] assms) auto
  show "aborts_in program_aborts (simCondBranch cmp instr sim)"
    unfolding simCondBranch_def Let_def by (intro aborts_in_bind) auto
qed

lemma NullCall_abort: "NullCall \<in> program_aborts"
  by (simp add: program_aborts_def)

lemma call_aborts:
  assumes "sim_inv sim" and "instr_ok instr"
  shows "aborts_in program_aborts (call instr sim)"
proof (cases "m_id instr = SIM_STATUS_INSTR")
  case True
  then obtain s where "m_imm instr = to_underlying s" using assms(2) by (auto simp: instr_ok_def)
  then show ?thesis using True by (simp add: call_def simInstr_SIM_STATUS_INSTR_def Instr_status_def)
next
  case False
  then show ?thesis
    using assms(1)
    by (cases "m_id instr")
      (auto simp: call_def handler_defs Let_def NullCall_abort aborts_memory intro!: aborts_in_bind aborts_flow)
qed


lemma exec_aborts:
  "block_ok instrs \<Longrightarrow> sim_inv sim \<Longrightarrow> aborts_in program_aborts (exec instrs sim)"
proof (induction instrs arbitrary: sim)
  case (Cons instr instrs)
  show ?case
    unfolding exec.simps
  proof (rule aborts_in_bind)
    show "aborts_in program_aborts (call instr sim)" using Cons.prems by (intro call_aborts) simp_all
  next
    fix x assume x: "call instr sim = Inr x"
    obtain f sim1 where fs: "x = (f, sim1)" by (cases x)
    have "sim_inv sim1" using call_safe [OF Cons.prems(2), of instr] x fs by simp
    then show "aborts_in program_aborts (case x of (flow, sim) \<Rightarrow>
        case flow of Next \<Rightarrow> exec instrs sim | Return status \<Rightarrow> Inr (status, sim))"
      using Cons call_ends [of instr sim f sim1] x fs by (cases f) auto
  qed
qed simp

section \<open>The main loop\<close>

text \<open>Fetching.\<close>

abbreviation fetch_inv :: "BbCache \<Rightarrow> Simulator \<times> VirtAddr \<Rightarrow> bool" where
  "fetch_inv c s \<equiv> sim_inv (fst s) \<and> m_bb_cache (fst s) = c"

lemma Fetch_step:
  assumes "fetch_inv c s" and "Fetch s = Inr (r, s')"
  shows "fetch_inv c s'"
proof -
  obtain sim va where s: "s = (sim, va)" by (cases s)
  from assms(2) obtain st v sim' where "loadInt FETCH va sim = Inr ((st, v :: 32 word), sim')" and "s' = (sim', va + INSTR_CODE_SIZE)"
    by (auto simp: Fetch_def s res_simps)
  with loadInt_Inr [OF _ _ _ this(1)] assms(1) show ?thesis by (simp add: s same_arch_def)
qed

lemma Fetch_aborts: "fetch_inv c s \<Longrightarrow> Fetch s = Inl e \<Longrightarrow> e \<in> program_aborts"
  using aborts_load [where 'a = 32, of "fst s" FETCH "snd s"]
  by (cases s) (auto simp: Fetch_def bindR_eq_Inl_iff aborts_in_def program_aborts_def)

lemma set_bb_inv:
  assumes "sim_inv sim" and "bb_inv bb" and "i < length (m_bbs (m_bb_cache sim))"
  shows "sim_inv (sim\<lparr>m_bb_cache := (m_bb_cache sim)\<lparr>m_bbs := (m_bbs (m_bb_cache sim))[i := bb]\<rparr>\<rparr>)"
proof -
  let ?s = "sim\<lparr>m_bb_cache := (m_bb_cache sim)\<lparr>m_bbs := (m_bbs (m_bb_cache sim))[i := bb]\<rparr>\<rparr>"
  have "tlb_sound acc ?s t = tlb_sound acc sim t" for acc t
    by (intro tlb_sound_cong) (simp_all add: user_translate_def)
  moreover have "bbc_inv 7 (m_bb_cache ?s)"
    using assms by (auto simp: sim_inv_def bbc_inv_def list_all_iff dest!: set_update_subset_insert [THEN subsetD])
  ultimately show ?thesis using assms(1) by (simp add: sim_inv_def)
qed

lemma find_bb_spec:
  assumes inv: "sim_inv sim"
  shows "aborts_in program_aborts (find_bb sim)"
    and "find_bb sim = Inr (bb, sim') \<Longrightarrow> sim_inv sim' \<and> bb_inv bb \<and> m_virt_addr bb = pc_of sim"
proof -
  have cache: "bbc_inv 7 (m_bb_cache sim)" using inv by (simp add: sim_inv_def)
  obtain i where i: "BbCache_find 7 (pc_of sim) (m_bb_cache sim) = Inr i" "i < length (m_bbs (m_bb_cache sim))"
    using BbCache_find_ok [OF cache] by auto
  let ?bb = "m_bbs (m_bb_cache sim) ! i"
  have bb: "bb_inv ?bb" using cache i(2) by (simp add: bbc_inv_def list_all_length)
  have find: "find_bb sim = (if m_virt_addr ?bb \<noteq> pc_of sim then
       bindR (Bb_update Fetch (pc_of sim) ?bb (sim, pc_of sim)) (\<lambda>(bb, (sim, _)).
       Inr (bb, sim\<lparr>m_bb_cache := (m_bb_cache sim)\<lparr>m_bbs := (m_bbs (m_bb_cache sim))[i := bb]\<rparr>\<rparr>))
     else Inr (?bb, sim))"
    using i by (simp add: find_bb_def BB_CACHE_SIZE_LOG_2_def Let_def)
  let ?P = "fetch_inv (m_bb_cache sim)"
  have P: "?P (sim, pc_of sim)" using inv by simp
  have "e \<in> program_aborts" if "Bb_update Fetch (pc_of sim) ?bb (sim, pc_of sim) = Inl e" for e
  proof -
    from that have "Bb_fill Fetch 0 (m_instrs ?bb) (sim, pc_of sim) = Inl e"
      by (auto simp: Bb_update_def Let_def bindR_eq_Inl_iff)
    with P show ?thesis by (rule Bb_fill_aborts [rotated 2]) (rule Fetch_step, assumption+, rule Fetch_aborts)
  qed
  then show "aborts_in program_aborts (find_bb sim)"
    unfolding find by (auto simp: aborts_in_def bindR_eq_Inl_iff)
  assume found: "find_bb sim = Inr (bb, sim')"
  show "sim_inv sim' \<and> bb_inv bb \<and> m_virt_addr bb = pc_of sim"
  proof (cases "m_virt_addr ?bb = pc_of sim")
    case True
    with found inv bb show ?thesis by (auto simp: find)
  next
    case False
    with found obtain sim1 va1 where upd: "Bb_update Fetch (pc_of sim) ?bb (sim, pc_of sim) = Inr (bb, (sim1, va1))"
      and sim': "sim' = sim1\<lparr>m_bb_cache := (m_bb_cache sim1)\<lparr>m_bbs := (m_bbs (m_bb_cache sim1))[i := bb]\<rparr>\<rparr>"
      by (auto simp: find res_simps)
    from upd obtain instrs where "Bb_fill Fetch 0 (m_instrs ?bb) (sim, pc_of sim) = Inr (instrs, (sim1, va1))"
      by (auto simp: Bb_update_def Let_def res_simps)
    then have "?P (sim1, va1)" using P by (rule Bb_fill_state [rotated]) (rule Fetch_step)
    moreover have "bb_inv bb \<and> m_virt_addr bb = pc_of sim" using Bb_update_inv [OF bb upd] .
    ultimately show ?thesis using set_bb_inv [of sim1 bb i] i(2) by (simp add: sim')
  qed
qed

lemma sim_block_inv:
  assumes "sim_inv sim"
  shows "aborts_in program_aborts (sim_block sim)"
    and "sim_block sim = Inr (st, sim') \<Longrightarrow> sim_inv sim'"
proof -
  show "aborts_in program_aborts (sim_block sim)"
    unfolding sim_block_def
    using find_bb_spec [OF assms] by (auto intro!: aborts_in_bind exec_aborts simp: bb_inv_def)
  assume "sim_block sim = Inr (st, sim')"
  then obtain bb sim1 where "find_bb sim = Inr (bb, sim1)" "exec (m_instrs bb) sim1 = Inr (st, sim')"
    by (auto simp: sim_block_def res_simps)
  with find_bb_spec(2) [OF assms] exec_inv show "sim_inv sim'" by (auto simp: bb_inv_def)
qed

lemma sim_loop_inv:
  "sim_inv sim \<Longrightarrow> sim_loop fuel sim = Some r \<Longrightarrow>
     aborts_in program_aborts r \<and> (\<forall>st sim'. r = Inr (st, sim') \<longrightarrow> sim_inv sim' \<and> st \<noteq> SIM_EXIT)"
proof (induction fuel arbitrary: sim)
  case (Suc fuel)
  show ?case
  proof (cases "sim_block sim")
    case (Inl e)
    then show ?thesis using Suc.prems sim_block_inv(1) [OF Suc.prems(1)] by auto
  next
    case (Inr x)
    obtain st sim1 where x: "x = (st, sim1)" by (cases x)
    have "sim_inv sim1" using sim_block_inv(2) [OF Suc.prems(1)] Inr x by simp
    then show ?thesis
      using Suc.IH [of sim1] Suc.prems(2) Inr x sim_block_inv(1) [OF Suc.prems(1)]
      by (cases "st = SIM_EXIT"; cases "st = OK") auto
  qed
qed simp

text \<open>More rounds do not change a result.\<close>

lemma sim_loop_mono: "sim_loop fuel sim = Some r \<Longrightarrow> sim_loop (fuel + n) sim = Some r"
  by (induction fuel arbitrary: sim) (auto split: sum.splits if_splits)

lemma start_inv: "sim_inv sim \<Longrightarrow> sim_inv (sim\<lparr>m_hart := (m_hart sim)\<lparr>m_pc := pc\<rparr>, m_icount := 0\<rparr>)"
  by (rule sim_inv_hart) (simp_all add: sim_inv_def)

text \<open>
  C8: running a program keeps the invariant of the simulator. When \<open>simulate\<close> returns, it is with a
  status other than \<open>SIM_EXIT\<close>; when the process stops, it is for a reason of \<open>program_aborts\<close>: in
  particular no block runs past its end and no array is accessed out of bounds.
\<close>

theorem simulate_inv:
  assumes "sim_inv sim" and "simulate fuel pc sim = Some r"
  shows "case r of Inl e \<Rightarrow> e \<in> program_aborts | Inr (st, sim') \<Rightarrow> sim_inv sim' \<and> st \<noteq> SIM_EXIT"
  using sim_loop_inv [OF start_inv [OF assms(1)] assms(2) [unfolded simulate_def]]
  by (auto simp: aborts_in_def split: sum.split)

text \<open>
  The value of \<open>simulate\<close> does not depend on the bound on the number of rounds, once that is
  large enough for it to return.
\<close>

theorem simulate_fuel:
  assumes "simulate fuel pc sim = Some r" and "fuel \<le> fuel'"
  shows "simulate fuel' pc sim = Some r"
  using sim_loop_mono [of fuel _ r "fuel' - fuel"] assms by (simp add: simulate_def)

end
