(* ===== verification/SimIsa.thy ===== *)
theory SimIsa
  imports SimInv
begin

text \<open>
  The instruction handlers against the RV64I specification. The reference is written from the
  architecture manual, independently of the handlers: result values for the register instructions,
  access width and extension for loads and stores, conditions for branches.
\<close>

section \<open>Register instructions\<close>

fun isa_alu :: "InstrId \<Rightarrow> 64 word \<Rightarrow> 64 word \<Rightarrow> 64 word \<Rightarrow> 32 word \<Rightarrow> 64 word option" where
  "isa_alu I_ADD pc a b imm = Some (a + b)"
| "isa_alu I_SUB pc a b imm = Some (a - b)"
| "isa_alu I_SLT pc a b imm = Some (of_bool (sint a < sint b))"
| "isa_alu I_SLTU pc a b imm = Some (of_bool (a < b))"
| "isa_alu I_AND pc a b imm = Some (a AND b)"
| "isa_alu I_OR pc a b imm = Some (a OR b)"
| "isa_alu I_XOR pc a b imm = Some (a XOR b)"
| "isa_alu I_SLL pc a b imm = Some (push_bit (unat (take_bit 6 b)) a)"
| "isa_alu I_SRL pc a b imm = Some (drop_bit (unat (take_bit 6 b)) a)"
| "isa_alu I_SRA pc a b imm = Some (signed_drop_bit (unat (take_bit 6 b)) a)"
| "isa_alu I_ADDI pc a b imm = Some (a + scast imm)"
| "isa_alu I_SLTI pc a b imm = Some (of_bool (sint a < sint imm))"
| "isa_alu I_SLTIU pc a b imm = Some (of_bool (a < scast imm))"
| "isa_alu I_ANDI pc a b imm = Some (a AND scast imm)"
| "isa_alu I_ORI pc a b imm = Some (a OR scast imm)"
| "isa_alu I_XORI pc a b imm = Some (a XOR scast imm)"
| "isa_alu I_SLLI pc a b imm = Some (push_bit (unat imm) a)"
| "isa_alu I_SRLI pc a b imm = Some (drop_bit (unat imm) a)"
| "isa_alu I_SRAI pc a b imm = Some (signed_drop_bit (unat imm) a)"
| "isa_alu I_LUI pc a b imm = Some (scast imm)"
| "isa_alu I_AUIPC pc a b imm = Some (pc + scast imm)"
| "isa_alu I_ADDIW pc a b imm = Some (scast (ucast a + imm :: 32 word))"
| "isa_alu I_SLLIW pc a b imm = Some (scast (push_bit (unat imm) (ucast a :: 32 word)))"
| "isa_alu I_SRLIW pc a b imm = Some (scast (drop_bit (unat imm) (ucast a :: 32 word)))"
| "isa_alu I_SRAIW pc a b imm = Some (scast (signed_drop_bit (unat imm) (ucast a :: 32 word)))"
| "isa_alu I_ADDW pc a b imm = Some (scast (ucast a + ucast b :: 32 word))"
| "isa_alu I_SUBW pc a b imm = Some (scast (ucast a - ucast b :: 32 word))"
| "isa_alu I_SLLW pc a b imm = Some (scast (push_bit (unat (take_bit 5 b)) (ucast a :: 32 word)))"
| "isa_alu I_SRLW pc a b imm = Some (scast (drop_bit (unat (take_bit 5 b)) (ucast a :: 32 word)))"
| "isa_alu I_SRAW pc a b imm = Some (scast (signed_drop_bit (unat (take_bit 5 b)) (ucast a :: 32 word)))"
| "isa_alu _ pc a b imm = None"

text \<open>The operands for which the C++ expression of the handler is defined.\<close>

fun alu_defined :: "InstrId \<Rightarrow> 64 word \<Rightarrow> 64 word \<Rightarrow> bool" where
  "alu_defined I_ADD a b \<longleftrightarrow> sint (a + b) = sint a + sint b"
| "alu_defined I_SUB a b \<longleftrightarrow> sint (a - b) = sint a - sint b"
| "alu_defined I_ADDW a b \<longleftrightarrow> sint (ucast a + ucast b :: 32 word) = sint (ucast a :: 32 word) + sint (ucast b :: 32 word)"
| "alu_defined I_SUBW a b \<longleftrightarrow> sint (ucast a - ucast b :: 32 word) = sint (ucast a :: 32 word) - sint (ucast b :: 32 word)"
| "alu_defined I_SLL a b \<longleftrightarrow> take_bit 8 b < 64"
| "alu_defined I_SRL a b \<longleftrightarrow> take_bit 8 b < 64"
| "alu_defined I_SRA a b \<longleftrightarrow> take_bit 8 b < 64"
| "alu_defined I_SLLW a b \<longleftrightarrow> take_bit 8 b < 32"
| "alu_defined I_SRLW a b \<longleftrightarrow> take_bit 8 b < 32"
| "alu_defined I_SRAW a b \<longleftrightarrow> take_bit 8 b < 32"
| "alu_defined _ a b \<longleftrightarrow> True"

abbreviation reg :: "Simulator \<Rightarrow> 8 word \<Rightarrow> 64 word" where
  "reg sim r \<equiv> m_gpr (m_gpr_file (m_hart sim)) ! unat r"

text \<open>Writing a result and going on.\<close>

definition set_reg :: "8 word \<Rightarrow> 64 word \<Rightarrow> Simulator \<Rightarrow> Simulator" where
  "set_reg r v sim =
     sim\<lparr>m_hart := (m_hart sim)\<lparr>m_gpr_file := (m_gpr_file (m_hart sim))\<lparr>m_gpr := (m_gpr (m_gpr_file (m_hart sim)))[unat r := v, 0 := 0]\<rparr>\<rparr>\<rparr>"

lemma read_gpr_ok: "r < 32 \<Longrightarrow> read_gpr r sim = Inr (ucast (reg sim r))"
  by (simp add: read_gpr_def GPRFile_read_ok GPR_NUMBER_def word_less_nat_alt)

lemma write_gpr_ok: "r < 32 \<Longrightarrow> write_gpr r v sim = Inr (set_reg r v sim)"
  by (simp add: write_gpr_def GPRFile_write_ok GPR_NUMBER_def word_less_nat_alt set_reg_def)

lemma pc_set_reg [simp]: "pc_of (set_reg r v sim) = pc_of sim"
  by (simp add: set_reg_def)

lemma incr_next: "INCR_AND_SIM_NEXT sim = Inr (Next, incr_to (pc_of sim + 4) sim)"
  by (simp add: INCR_AND_SIM_NEXT_def SIM_NEXT_def INSTR_CODE_SIZE_def)

text \<open>
  What an instruction writes to the log: a line with its address and its name, one with the new
  content of a register that it writes, and one with the program counter after a branch or jump.
\<close>

fun instr_name :: "InstrId \<Rightarrow> string" where
  "instr_name SIM_STATUS_INSTR = ''SIM_STATUS_INSTR''"
| "instr_name I_BEQ = ''BEQ''"
| "instr_name I_BNE = ''BNE''"
| "instr_name I_BLT = ''BLT''"
| "instr_name I_BGE = ''BGE''"
| "instr_name I_BLTU = ''BLTU''"
| "instr_name I_BGEU = ''BGEU''"
| "instr_name I_JALR = ''JALR''"
| "instr_name I_JAL = ''JAL''"
| "instr_name I_LUI = ''LUI''"
| "instr_name I_AUIPC = ''AUIPC''"
| "instr_name I_ADDI = ''ADDI''"
| "instr_name I_SLLI = ''SLLI''"
| "instr_name I_SLTI = ''SLTI''"
| "instr_name I_SLTIU = ''SLTIU''"
| "instr_name I_XORI = ''XORI''"
| "instr_name I_SRLI = ''SRLI''"
| "instr_name I_SRAI = ''SRAI''"
| "instr_name I_ORI = ''ORI''"
| "instr_name I_ANDI = ''ANDI''"
| "instr_name I_ADD = ''ADD''"
| "instr_name I_SUB = ''SUB''"
| "instr_name I_SLL = ''SLL''"
| "instr_name I_SLT = ''SLT''"
| "instr_name I_SLTU = ''SLTU''"
| "instr_name I_XOR = ''XOR''"
| "instr_name I_SRL = ''SRL''"
| "instr_name I_SRA = ''SRA''"
| "instr_name I_OR = ''OR''"
| "instr_name I_AND = ''AND''"
| "instr_name I_ADDIW = ''ADDIW''"
| "instr_name I_SLLIW = ''SLLIW''"
| "instr_name I_SRLIW = ''SRLIW''"
| "instr_name I_SRAIW = ''SRAIW''"
| "instr_name I_ADDW = ''ADDW''"
| "instr_name I_SUBW = ''SUBW''"
| "instr_name I_SLLW = ''SLLW''"
| "instr_name I_SRLW = ''SRLW''"
| "instr_name I_SRAW = ''SRAW''"
| "instr_name I_LB = ''LB''"
| "instr_name I_LH = ''LH''"
| "instr_name I_LW = ''LW''"
| "instr_name I_LD = ''LD''"
| "instr_name I_LBU = ''LBU''"
| "instr_name I_LHU = ''LHU''"
| "instr_name I_LWU = ''LWU''"
| "instr_name I_SB = ''SB''"
| "instr_name I_SH = ''SH''"
| "instr_name I_SW = ''SW''"
| "instr_name I_SD = ''SD''"
| "instr_name I_ECALL = ''ECALL''"
| "instr_name (NotImpl mn) = mn"

definition traced :: "Instr \<Rightarrow> Simulator \<Rightarrow> Simulator" where
  "traced instr sim = emit [LogInstr (pc_of sim) (instr_name (m_id instr))] sim"

definition put_reg :: "8 word \<Rightarrow> 64 word \<Rightarrow> Simulator \<Rightarrow> Simulator" where
  "put_reg r v sim = emit [LogGpr (unat r) (reg (set_reg r v sim) r)] (set_reg r v sim)"

definition jump_to :: "VirtAddr \<Rightarrow> Simulator \<Rightarrow> Simulator" where
  "jump_to target sim = logPcWrite (incr_to target sim)"

lemma emit_None: "m_log sim = None \<Longrightarrow> emit ls sim = sim"
  by (cases sim) (simp add: emit_def)

lemma emit_emit [simp]: "emit ls (emit ls' sim) = emit (ls' @ ls) sim"
  by (simp add: emit_def option.map_comp o_def)

lemma emit_commute:
  "set_reg r v (emit ls sim) = emit ls (set_reg r v sim)" "incr_to pc (emit ls sim) = emit ls (incr_to pc sim)"
  by (simp_all add: emit_def set_reg_def incr_to_def)

lemma user_translate_emit [simp]: "user_translate acc va (emit ls sim) = user_translate acc va sim"
  by (simp add: user_translate_def)

lemma traced_simps [simp]:
  "m_phys_memory (traced instr sim) = m_phys_memory sim" "m_hart (traced instr sim) = m_hart sim"
  "user_translate acc va (traced instr sim) = user_translate acc va sim" "sim_inv (traced instr sim) = sim_inv sim"
  "m_bb_cache (traced instr sim) = m_bb_cache sim" "m_icount (traced instr sim) = m_icount sim"
  by (simp_all add: traced_def)

lemma traced_logInstr: "logInstr (instr_name (m_id instr)) sim = traced instr sim"
  by (simp add: logInstr_def traced_def)

lemma pc_put_reg [simp]: "pc_of (put_reg r v sim) = pc_of sim"
  by (simp add: put_reg_def)

lemma logGprWrite_ok: "r < 32 \<Longrightarrow> logGprWrite r sim = Inr (emit [LogGpr (unat r) (reg sim r)] sim)"
  by (simp add: logGprWrite_def read_gpr_ok emit_None)

lemma logGprWrite_set: "r < 32 \<Longrightarrow> logGprWrite r (set_reg r v sim) = Inr (put_reg r v sim)"
  by (simp add: logGprWrite_ok put_reg_def)

lemma LOG_REG_WRITE_INSTR_ok:
  "m_rd instr < 32 \<Longrightarrow> LOG_REG_WRITE_INSTR mn instr (set_reg (m_rd instr) v sim) = Inr (put_reg (m_rd instr) v (logInstr mn sim))"
  by (simp add: LOG_REG_WRITE_INSTR_def logInstr_def logGprWrite_ok put_reg_def emit_commute)

lemma jump_log_ok:
  "r < 32 \<Longrightarrow> logGprWrite r (incr_to pc (set_reg r v sim)) = Inr (incr_to pc (put_reg r v sim))"
  by (simp add: logGprWrite_ok put_reg_def emit_commute)

lemma ucast_8_take_bit: "unat (ucast (b :: 64 word) :: 8 word) = unat (take_bit 8 b)"
  by (simp add: unsigned_ucast_eq unsigned_take_bit_eq)

lemma small_shift:
  assumes "take_bit 8 (b :: 64 word) < 2 ^ k" and "k \<le> 8"
  shows "unat (take_bit k b) = unat (ucast b :: 8 word)"
proof -
  have less: "unat (take_bit 8 b) < 2 ^ k" using assms by (simp add: word_less_nat_alt unat_two_power)
  have "unat (take_bit k b) = unat (take_bit 8 b) mod 2 ^ k"
  proof -
    have "(2 :: nat) ^ k dvd 2 ^ 8" using assms(2) by (rule le_imp_power_dvd)
    then show ?thesis by (simp add: unsigned_take_bit_eq take_bit_nat_def mod_mod_cancel)
  qed
  then show ?thesis using less by (simp add: ucast_8_take_bit)
qed

lemmas shift_counts = small_shift [where k = 6, simplified] small_shift [where k = 5, simplified]

lemma byte_less:
  "take_bit 8 (b :: 64 word) < 64 \<longleftrightarrow> unat (ucast b :: 8 word) < 64"
  "take_bit 8 (b :: 64 word) < 32 \<longleftrightarrow> unat (ucast b :: 8 word) < 32"
  by (simp_all add: ucast_8_take_bit word_less_nat_alt)

lemma maskBits_byte [simp]:
  "maskBits 5 0 (b :: 8 word) = Inr b" "maskBits 4 0 (b :: 8 word) = Inr b"
  by (simp_all add: maskBits_narrow)

text \<open>What a handler of a register instruction returns, by the definedness of its expression.\<close>

lemma alu_result:
  assumes ok: "instr_ok instr" and isa: "isa_alu (m_id instr) (pc_of sim) (reg sim (m_rs1 instr)) (reg sim (m_rs2 instr)) (m_imm instr) = Some v"
    and not_auipc: "m_id instr \<noteq> I_AUIPC"
  shows "call instr sim =
    (if alu_defined (m_id instr) (reg sim (m_rs1 instr)) (reg sim (m_rs2 instr))
     then Inr (Next, incr_to (pc_of sim + 4) (put_reg (m_rd instr) v (traced instr sim)))
     else Inl (if m_id instr \<in> {I_ADD, I_SUB, I_ADDW, I_SUBW} then SignedOverflow else ShiftUB))"
proof -
  have regs: "read_gpr (m_rs1 instr) sim = Inr (ucast (reg sim (m_rs1 instr)))"
      "read_gpr (m_rs2 instr) sim = Inr (ucast (reg sim (m_rs2 instr)))"
      "write_gpr (m_rd instr) w sim = Inr (set_reg (m_rd instr) w sim)" "m_rd instr < 32" for w
    using ok by (auto simp: instr_ok_def read_gpr_ok write_gpr_ok)
  have imm: "m_id instr \<in> {I_SLLI, I_SRLI, I_SRAI} \<Longrightarrow> unat (m_imm instr) < 64"
      "m_id instr \<in> {I_SLLIW, I_SRLIW, I_SRAIW} \<Longrightarrow> unat (m_imm instr) < 32"
    using ok by (auto simp: instr_ok_def word_less_nat_alt)
  have sint: "sint (scast (m_imm instr) :: 64 word) = sint (m_imm instr)"
    by (simp add: signed_scast_eq sint_uint [of "m_imm instr"])
  show ?thesis
    using isa not_auipc imm
    by (cases "m_id instr")
      (auto simp: call_def handler_defs Let_def regs incr_next LOG_REG_WRITE_INSTR_ok traced_def logInstr_def add_signed_def sub_signed_def shl_def shr_def sar_def
        byte_less shift_counts sint of_bool_def add.commute)
qed

text \<open>
  C35: otherwise it is undefined behaviour: \<open>add\<close>, \<open>sub\<close> and their 32-bit forms on every signed
  overflow (where the specification asks for the wrapped result), the register shifts on every count
  whose low byte is not below the width (where it asks for the count modulo the width).
\<close>

theorem alu_undefined:
  assumes "instr_ok instr" and "\<not> alu_defined (m_id instr) (reg sim (m_rs1 instr)) (reg sim (m_rs2 instr))"
  shows "\<exists>v. isa_alu (m_id instr) (pc_of sim) (reg sim (m_rs1 instr)) (reg sim (m_rs2 instr)) (m_imm instr) = Some v \<and>
    call instr sim = Inl (if m_id instr \<in> {I_ADD, I_SUB, I_ADDW, I_SUBW} then SignedOverflow else ShiftUB)"
proof -
  have "\<exists>v. isa_alu (m_id instr) (pc_of sim) (reg sim (m_rs1 instr)) (reg sim (m_rs2 instr)) (m_imm instr) = Some v"
    "m_id instr \<noteq> I_AUIPC"
    using assms(2) by (cases "m_id instr"; simp)+
  with alu_result [OF assms(1) _ this(2)] assms(2) show ?thesis by auto
qed

lemma AUIPC_result:
  assumes "instr_ok instr" and "m_id instr = I_AUIPC"
  shows "call instr sim = Inr (Next, incr_to (pc_of sim + 4) (put_reg (m_rd instr) (pc_of sim + ucast (m_imm instr)) (traced instr sim)))"
  using assms
  by (simp add: call_def simInstr_AUIPC_def Let_def instr_ok_def write_gpr_ok incr_next LOG_REG_WRITE_INSTR_ok traced_def logInstr_def add.commute)

lemma scast_eq_ucast_iff: "(scast (w :: 32 word) :: 64 word) = ucast w \<longleftrightarrow> \<not> bit w 31"
proof
  assume "(scast w :: 64 word) = ucast w"
  then have "bit (scast w :: 64 word) 32 = bit (ucast w :: 64 word) 32" by simp
  then show "\<not> bit w 31" by (simp add: bit_signed_iff bit_unsigned_iff)
next
  assume w: "\<not> bit w 31"
  show "(scast w :: 64 word) = ucast w"
  proof (rule bit_word_eqI)
    fix n
    have "\<not> bit w n" if "31 \<le> n"
      using that w by (cases "n = 31") (auto dest: bit_imp_le_length)
    then show "bit (scast w :: 64 word) n = bit (ucast w :: 64 word) n" if "n < LENGTH(64)"
      using that w by (cases "n < 31") (auto simp: bit_signed_iff bit_unsigned_iff min_def)
  qed
qed

lemma ucast_eq_scast: "(ucast (w :: 32 word) :: 64 word) = scast w + (if bit w 31 then 2 ^ 32 else 0)"
proof -
  have "sint w = uint w - 2 ^ 32 * of_bool (bit w 31)"
    using uint_bounded [of w]
    by (simp add: sint_uint signed_take_bit_eq_take_bit_minus bit_unsigned_iff take_bit_int_eq_self)
  then have "word_of_int (uint w) = (word_of_int (sint w + 2 ^ 32 * of_bool (bit w 31)) :: 64 word)" by simp
  then show ?thesis by (simp only: wi_hom_add [symmetric]) simp
qed

text \<open>
  C12: a register instruction, whenever its C++ expression is defined, advances the program counter by 4, counts
  one instruction, logs both, and writes the value of the specification to its destination; except
  that \<open>auipc\<close> with an immediate whose sign bit is set writes \<open>2 ^ 32\<close> more than that.
\<close>

theorem alu_conforms:
  assumes ok: "instr_ok instr"
    and isa: "isa_alu (m_id instr) (pc_of sim) (reg sim (m_rs1 instr)) (reg sim (m_rs2 instr)) (m_imm instr) = Some v"
    and def: "alu_defined (m_id instr) (reg sim (m_rs1 instr)) (reg sim (m_rs2 instr))"
  shows "call instr sim = Inr (Next, incr_to (pc_of sim + 4)
    (put_reg (m_rd instr) (if m_id instr = I_AUIPC \<and> bit (m_imm instr) 31 then v + 2 ^ 32 else v) (traced instr sim)))"
proof (cases "m_id instr = I_AUIPC")
  case True
  with AUIPC_result [OF ok True, of sim] isa show ?thesis by (auto simp: ucast_eq_scast add.assoc)
next
  case False
  with alu_result [OF ok isa] def show ?thesis by simp
qed

text \<open>
  C36: \<open>auipc\<close> gives the specified value exactly for immediates with a clear sign bit; for the others,
  the ones that reach below the program counter, the handler adds the zero-extended immediate.
\<close>

theorem auipc_conforms_iff:
  assumes "instr_ok instr" and "m_id instr = I_AUIPC" and "0 < m_rd instr" and "sim_inv sim"
  shows "call instr sim = Inr (Next, incr_to (pc_of sim + 4) (put_reg (m_rd instr) (pc_of sim + scast (m_imm instr)) (traced instr sim)))
    \<longleftrightarrow> \<not> bit (m_imm instr) 31"
proof -
  let ?set = "\<lambda>v. incr_to (pc_of sim + 4) (put_reg (m_rd instr) v (traced instr sim))"
  have rd: "unat (m_rd instr) < 32" "unat (m_rd instr) \<noteq> 0"
    using assms(1,3) by (auto simp: instr_ok_def word_less_nat_alt)
  have len: "length (m_gpr (m_gpr_file (m_hart sim))) = 32"
    using assms(4) by (simp add: sim_inv_def gpr_inv_def GPR_NUMBER_def)
  have "reg (?set v) (m_rd instr) = v" for v
    using rd len by (simp add: put_reg_def emit_commute incr_to_def set_reg_def)
  then have "?set v = ?set w \<longleftrightarrow> v = w" for v w by metis
  then show ?thesis
    using AUIPC_result [OF assms(1,2)] by (simp add: scast_eq_ucast_iff [symmetric]) metis
qed

section \<open>Loads and stores\<close>

text \<open>Access width in bytes, and the register value for the memory contents at an address.\<close>

fun isa_load :: "InstrId \<Rightarrow> (nat \<times> ((64 word \<rightharpoonup> byte) \<Rightarrow> 64 word \<Rightarrow> 64 word)) option" where
  "isa_load I_LB = Some (1, \<lambda>c a. scast (mem_word c a :: 8 word))"
| "isa_load I_LH = Some (2, \<lambda>c a. scast (mem_word c a :: 16 word))"
| "isa_load I_LW = Some (4, \<lambda>c a. scast (mem_word c a :: 32 word))"
| "isa_load I_LD = Some (8, \<lambda>c a. mem_word c a)"
| "isa_load I_LBU = Some (1, \<lambda>c a. ucast (mem_word c a :: 8 word))"
| "isa_load I_LHU = Some (2, \<lambda>c a. ucast (mem_word c a :: 16 word))"
| "isa_load I_LWU = Some (4, \<lambda>c a. ucast (mem_word c a :: 32 word))"
| "isa_load _ = None"

fun isa_store :: "InstrId \<Rightarrow> (nat \<times> (64 word \<Rightarrow> 64 word \<Rightarrow> (64 word \<rightharpoonup> byte) \<Rightarrow> (64 word \<rightharpoonup> byte))) option" where
  "isa_store I_SB = Some (1, \<lambda>a v. mem_put a (ucast v :: 8 word))"
| "isa_store I_SH = Some (2, \<lambda>a v. mem_put a (ucast v :: 16 word))"
| "isa_store I_SW = Some (4, \<lambda>a v. mem_put a (ucast v :: 32 word))"
| "isa_store I_SD = Some (8, \<lambda>a v. mem_put a v)"
| "isa_store _ = None"

definition eff_addr :: "Instr \<Rightarrow> Simulator \<Rightarrow> VirtAddr" where
  "eff_addr instr sim = reg sim (m_rs1 instr) + scast (m_imm instr)"

lemma aligned_iff:
  "va AND addrAlignMask TYPE(8) = 0" "va AND addrAlignMask TYPE(16) = 0 \<longleftrightarrow> unat va mod 2 = 0"
  "va AND addrAlignMask TYPE(32) = 0 \<longleftrightarrow> unat va mod 4 = 0" "va AND addrAlignMask TYPE(64) = 0 \<longleftrightarrow> unat va mod 8 = 0"
proof -
  have *: "va AND (2 ^ k - 1) = 0 \<longleftrightarrow> unat va mod 2 ^ k = 0" for k
  proof -
    have "va AND (2 ^ k - 1) = take_bit k va" by (simp add: take_bit_eq_mask mask_eq_exp_minus_1)
    moreover have "take_bit k va = 0 \<longleftrightarrow> unat (take_bit k va) = 0" by (simp add: unat_eq_0)
    ultimately show ?thesis by (simp add: unsigned_take_bit_eq take_bit_nat_def)
  qed
  show "va AND addrAlignMask TYPE(8) = 0" "va AND addrAlignMask TYPE(16) = 0 \<longleftrightarrow> unat va mod 2 = 0"
    "va AND addrAlignMask TYPE(32) = 0 \<longleftrightarrow> unat va mod 4 = 0" "va AND addrAlignMask TYPE(64) = 0 \<longleftrightarrow> unat va mod 8 = 0"
    using * [of 1] * [of 2] * [of 3] by (simp_all add: addrAlignMask_def)
qed

lemma eff_addr_traced [simp]: "eff_addr instr (traced instr' sim) = eff_addr instr sim"
  by (simp add: eff_addr_def)

lemma simLoadInstr_ref:
  fixes ext :: "'a::len word \<Rightarrow> RegValue"
  assumes ty: "int_type TYPE('a)" and inv: "sim_inv sim" and ok: "instr_ok instr"
    and page: "page_base (eff_addr instr sim) \<noteq> POISON_VA"
    and ref: "load_ref READ (eff_addr instr sim) sim = Inr (st, v :: 'a word)"
  shows "\<exists>sim1. sim_inv sim1 \<and> same_arch sim sim1 \<and> next_if_OK (simLoadInstr ext instr sim) =
    Inr (if st \<noteq> OK then (Return st, sim1)
         else (Next, incr_to (pc_of sim + 4) (put_reg (m_rd instr) (ext v) sim1)))"
proof -
  from loadInt_cases [where 'a = 'a, OF ty inv, of READ "eff_addr instr sim"] page ref obtain sim1 where
    "loadInt READ (eff_addr instr sim) sim = Inr ((st, v), sim1)" "sim_inv sim1" "same_arch sim sim1" by auto
  then show ?thesis
    using ok
    by (auto simp: simLoadInstr_def next_if_OK_def SIM_NEXT_def instr_ok_def read_gpr_ok write_gpr_ok eff_addr_def
        logGprWrite_set INSTR_CODE_SIZE_def same_arch_def)
qed

text \<open>The log shows the stored value, the low bits of the register.\<close>

lemma low_bits: "int_type TYPE('a::len) \<Longrightarrow> (ucast (ucast (w :: 64 word) :: 'a word) :: 64 word) = take_bit LENGTH('a) w"
  by (rule bit_word_eqI) (auto simp: int_type_def bit_unsigned_iff bit_take_bit_iff)

lemma simStoreInstr_ref:
  assumes ty: "int_type TYPE('a::len)" and inv: "sim_inv sim" and ok: "instr_ok instr"
    and page: "page_base (eff_addr instr sim) \<noteq> POISON_VA"
    and ref: "store_ref (eff_addr instr sim) (ucast (reg sim (m_rs2 instr)) :: 'a word) sim = Inr (st, c')"
  shows "\<exists>sim1. store_post sim c' sim1 \<and> next_if_OK (simStoreInstr TYPE('a) instr sim) =
    Inr (if st \<noteq> OK then (Return st, sim1)
         else (Next, incr_to (pc_of sim + 4) (logMemWrite (eff_addr instr sim) (take_bit LENGTH('a) (reg sim (m_rs2 instr))) sim1)))"
proof -
  let ?v = "ucast (reg sim (m_rs2 instr)) :: 'a word"
  from storeInt_cases [OF ty inv, of "eff_addr instr sim" ?v] page ref obtain sim1 where
    "storeInt (eff_addr instr sim) ?v sim = Inr (st, sim1)" "store_post sim c' sim1" by auto
  moreover have "m_hart (logMemWrite va v sim1) = m_hart sim1" for va v by (simp add: logMemWrite_def)
  ultimately show ?thesis
    using ok low_bits [OF ty, of "reg sim (m_rs2 instr)"]
    by (auto simp: simStoreInstr_def next_if_OK_def SIM_NEXT_def instr_ok_def read_gpr_ok eff_addr_def
        INSTR_CODE_SIZE_def store_post_def same_regs_def Let_def)
qed

text \<open>All outcomes of the two templates, by alignment, the slot of the TLB and the translation.\<close>

lemma simLoadInstr_exact:
  fixes ext :: "'a::len word \<Rightarrow> RegValue"
  assumes ty: "int_type TYPE('a)" and inv: "sim_inv sim" and ok: "instr_ok instr" and va: "va = eff_addr instr sim"
  shows "if va AND addrAlignMask TYPE('a) \<noteq> 0 then next_if_OK (simLoadInstr ext instr sim) = Inr (Return SIM_UNALIGNED_LOAD, sim)
    else if TLB_find 7 va (m_read_tlb sim) = Inr (True, None)
    then page_base va = POISON_VA \<and> next_if_OK (simLoadInstr ext instr sim) = Inl NullDeref
    else (case user_translate READ va sim of
        Inl e \<Rightarrow> next_if_OK (simLoadInstr ext instr sim) = Inl e
      | Inr r \<Rightarrow> \<exists>sim1. sim_inv sim1 \<and> same_arch sim sim1 \<and> next_if_OK (simLoadInstr ext instr sim) = Inr (
          if mmu_status r \<noteq> OK then (Return (mmu_status r), sim1)
          else if contents_of sim (phys_addr r) = None then (Return PHYS_MEM_ACCESS_FAULT, sim1)
          else (Next, incr_to (pc_of sim + 4) (put_reg (m_rd instr) (ext (mem_word (contents_of sim) (phys_addr r))) sim1))))"
proof -
  have body: "next_if_OK (simLoadInstr ext instr sim) = Inr
      (if st \<noteq> OK then (Return st, sim1) else (Next, incr_to (pc_of sim + 4) (put_reg (m_rd instr) (ext v) sim1)))"
    if "loadInt READ va sim = Inr ((st, v), sim1)" "same_arch sim sim1" for st v sim1
    using ok that
    by (auto simp: va simLoadInstr_def next_if_OK_def SIM_NEXT_def instr_ok_def read_gpr_ok write_gpr_ok eff_addr_def
        logGprWrite_set INSTR_CODE_SIZE_def same_arch_def)
  have err: "next_if_OK (simLoadInstr ext instr sim) = Inl e"
    if "loadInt READ va sim = (Inl e :: ((SimStatus \<times> 'a word) \<times> Simulator) res)" for e
    using ok that by (auto simp: va simLoadInstr_def next_if_OK_def instr_ok_def read_gpr_ok eff_addr_def)
  note exact = loadInt_exact [where 'a = 'a, OF ty inv, of READ va]
  show ?thesis
  proof (cases "va AND addrAlignMask TYPE('a) = 0")
    case False
    then have "loadInt READ va sim = Inr ((SIM_UNALIGNED_LOAD, 0 :: 'a word), sim)" by (simp add: loadInt_def)
    with body [of SIM_UNALIGNED_LOAD 0 sim] False show ?thesis by simp
  next
    case al: True
    show ?thesis
    proof (cases "TLB_find 7 va (m_read_tlb sim) = Inr (True, None)")
      case True
      with exact al err show ?thesis by (auto simp: getReadTLB_def)
    next
      case False
      with exact al have ref: "case load_ref READ va sim of
          Inl e \<Rightarrow> loadInt READ va sim = (Inl e :: ((SimStatus \<times> 'a word) \<times> Simulator) res)
        | Inr (r :: SimStatus \<times> 'a word) \<Rightarrow> \<exists>sim'. loadInt READ va sim = Inr (r, sim') \<and> sim_inv sim' \<and> same_arch sim sim'"
        by (simp add: getReadTLB_def)
      show ?thesis
      proof (cases "user_translate READ va sim")
        case (Inl e)
        with ref al False err show ?thesis by (simp add: load_ref_def)
      next
        case (Inr r)
        with ref al obtain sim1 where "loadInt READ va sim = Inr (
            if mmu_status r \<noteq> OK then (mmu_status r, 0) else if contents_of sim (phys_addr r) = None then (PHYS_MEM_ACCESS_FAULT, 0)
            else (OK, mem_word (contents_of sim) (phys_addr r) :: 'a word), sim1)" "sim_inv sim1" "same_arch sim sim1"
          by (auto simp: load_ref_def)
        with al False Inr body show ?thesis by (auto split: if_splits intro!: exI [of _ sim1])
      qed
    qed
  qed
qed

lemma simStoreInstr_exact:
  assumes ty: "int_type TYPE('a::len)" and inv: "sim_inv sim" and ok: "instr_ok instr" and va: "va = eff_addr instr sim"
  shows "if va AND addrAlignMask TYPE('a) \<noteq> 0 then next_if_OK (simStoreInstr TYPE('a) instr sim) = Inr (Return SIM_UNALIGNED_STORE, sim)
    else if TLB_find 7 va (m_write_tlb sim) = Inr (True, None)
    then page_base va = POISON_VA \<and> next_if_OK (simStoreInstr TYPE('a) instr sim) = Inl NullDeref
    else (case user_translate WRITE va sim of
        Inl e \<Rightarrow> next_if_OK (simStoreInstr TYPE('a) instr sim) = Inl e
      | Inr r \<Rightarrow> \<exists>sim1. store_post sim (if mmu_status r = OK \<and> contents_of sim (phys_addr r) \<noteq> None
            then mem_put (phys_addr r) (ucast (reg sim (m_rs2 instr)) :: 'a word) (contents_of sim) else contents_of sim) sim1 \<and>
          next_if_OK (simStoreInstr TYPE('a) instr sim) = Inr (
          if mmu_status r \<noteq> OK then (Return (mmu_status r), sim1)
          else if contents_of sim (phys_addr r) = None then (Return PHYS_MEM_ACCESS_FAULT, sim1)
          else (Next, incr_to (pc_of sim + 4) (logMemWrite va (take_bit LENGTH('a) (reg sim (m_rs2 instr))) sim1))))"
proof -
  let ?v = "ucast (reg sim (m_rs2 instr)) :: 'a word"
  have hart: "m_hart (logMemWrite va v sim1) = m_hart sim1" for va v sim1 by (simp add: logMemWrite_def)
  have body: "next_if_OK (simStoreInstr TYPE('a) instr sim) = Inr
      (if st \<noteq> OK then (Return st, sim1)
       else (Next, incr_to (pc_of sim + 4) (logMemWrite va (take_bit LENGTH('a) (reg sim (m_rs2 instr))) sim1)))"
    if "storeInt va ?v sim = Inr (st, sim1)" "store_post sim c' sim1" for st c' sim1
    using ok that hart low_bits [OF ty, of "reg sim (m_rs2 instr)"]
    by (auto simp: va simStoreInstr_def next_if_OK_def SIM_NEXT_def instr_ok_def read_gpr_ok eff_addr_def
        INSTR_CODE_SIZE_def store_post_def same_regs_def Let_def)
  have err: "next_if_OK (simStoreInstr TYPE('a) instr sim) = Inl e" if "storeInt va ?v sim = Inl e" for e
    using ok that by (auto simp: va simStoreInstr_def next_if_OK_def instr_ok_def read_gpr_ok eff_addr_def Let_def)
  note exact = storeInt_exact [OF ty inv, of va ?v]
  show ?thesis
  proof (cases "va AND addrAlignMask TYPE('a) = 0")
    case False
    then have "storeInt va ?v sim = Inr (SIM_UNALIGNED_STORE, sim)" by (simp add: storeInt_def)
    with body [OF _ store_post_refl [OF inv]] False show ?thesis by simp
  next
    case al: True
    show ?thesis
    proof (cases "TLB_find 7 va (m_write_tlb sim) = Inr (True, None)")
      case True
      with exact al err show ?thesis by auto
    next
      case False
      with exact al have ref: "case store_ref va ?v sim of
          Inl e \<Rightarrow> storeInt va ?v sim = Inl e
        | Inr (st, c') \<Rightarrow> \<exists>sim'. storeInt va ?v sim = Inr (st, sim') \<and> store_post sim c' sim'"
        by simp
      show ?thesis
      proof (cases "user_translate WRITE va sim")
        case (Inl e)
        with ref al False err show ?thesis by (simp add: store_ref_def)
      next
        case (Inr r)
        let ?st = "if mmu_status r \<noteq> OK then mmu_status r else if contents_of sim (phys_addr r) = None then PHYS_MEM_ACCESS_FAULT else OK"
        let ?c = "if mmu_status r = OK \<and> contents_of sim (phys_addr r) \<noteq> None
              then mem_put (phys_addr r) ?v (contents_of sim) else contents_of sim"
        obtain sim1 where st: "storeInt va ?v sim = Inr (?st, sim1)" "store_post sim ?c sim1"
          using ref al Inr by (auto simp: store_ref_def split: if_splits)
        from body [OF st] st(2) al False Inr show ?thesis by (auto split: if_splits intro!: exI [of _ sim1])
      qed
    qed
  qed
qed

lemma traced_tlbs [simp]: "m_read_tlb (traced instr sim) = m_read_tlb sim" "m_write_tlb (traced instr sim) = m_write_tlb sim"
  by (simp_all add: traced_def)

lemma load_case:
  fixes ext :: "'a::len word \<Rightarrow> RegValue"
  assumes "int_type TYPE('a)" and "sim_inv sim" and "instr_ok instr" and va: "va = eff_addr instr sim"
    and al: "\<And>va. va AND addrAlignMask TYPE('a) = 0 \<longleftrightarrow> unat va mod n = 0"
    and h: "call instr sim = next_if_OK (simLoadInstr ext instr (traced instr sim)) \<and> value = (\<lambda>c a. ext (mem_word c a))"
  shows "if unat va mod n \<noteq> 0 then call instr sim = Inr (Return SIM_UNALIGNED_LOAD, traced instr sim)
    else if TLB_find 7 va (m_read_tlb sim) = Inr (True, None) then page_base va = POISON_VA \<and> call instr sim = Inl NullDeref
    else (case user_translate READ va sim of
        Inl e \<Rightarrow> call instr sim = Inl e
      | Inr r \<Rightarrow> \<exists>sim1. sim_inv sim1 \<and> same_arch (traced instr sim) sim1 \<and> call instr sim = Inr (
          if mmu_status r \<noteq> OK then (Return (mmu_status r), sim1)
          else if contents_of sim (phys_addr r) = None then (Return PHYS_MEM_ACCESS_FAULT, sim1)
          else (Next, incr_to (pc_of sim + 4) (put_reg (m_rd instr) (value (contents_of sim) (phys_addr r)) sim1))))"
proof -
  have "sim_inv (traced instr sim)" "va = eff_addr instr (traced instr sim)" using assms(2) va by simp_all
  from simLoadInstr_exact [where ext = ext, OF assms(1) this(1) assms(3) this(2)]
  show ?thesis unfolding h [THEN conjunct1] h [THEN conjunct2] al traced_simps traced_tlbs .
qed

lemma store_case:
  assumes "int_type TYPE('a::len)" and "sim_inv sim" and "instr_ok instr" and va: "va = eff_addr instr sim"
    and al: "\<And>va. va AND addrAlignMask TYPE('a) = 0 \<longleftrightarrow> unat va mod n = 0" and n: "LENGTH('a) = 8 * n"
    and h: "call instr sim = next_if_OK (simStoreInstr TYPE('a) instr (traced instr sim)) \<and> put = (\<lambda>a v. mem_put a (ucast v :: 'a word))"
  shows "if unat va mod n \<noteq> 0 then call instr sim = Inr (Return SIM_UNALIGNED_STORE, traced instr sim)
    else if TLB_find 7 va (m_write_tlb sim) = Inr (True, None) then page_base va = POISON_VA \<and> call instr sim = Inl NullDeref
    else (case user_translate WRITE va sim of
        Inl e \<Rightarrow> call instr sim = Inl e
      | Inr r \<Rightarrow> \<exists>sim1. sim_inv sim1 \<and> same_regs (traced instr sim) sim1 \<and>
          contents_of sim1 = (if mmu_status r = OK \<and> contents_of sim (phys_addr r) \<noteq> None
            then put (phys_addr r) (reg sim (m_rs2 instr)) (contents_of sim) else contents_of sim) \<and>
          (\<forall>acc va. user_translate acc va sim1 = user_translate acc va sim) \<and>
          call instr sim = Inr (
            if mmu_status r \<noteq> OK then (Return (mmu_status r), sim1)
            else if contents_of sim (phys_addr r) = None then (Return PHYS_MEM_ACCESS_FAULT, sim1)
            else (Next, incr_to (pc_of sim + 4) (logMemWrite va (take_bit (8 * n) (reg sim (m_rs2 instr))) sim1))))"
proof -
  have "sim_inv (traced instr sim)" "va = eff_addr instr (traced instr sim)" using assms(2) va by simp_all
  from simStoreInstr_exact [OF assms(1) this(1) assms(3) this(2)]
  show ?thesis unfolding h [THEN conjunct1] h [THEN conjunct2] al n traced_simps traced_tlbs store_post_def conj_assoc .
qed

text \<open>
  C13: every outcome of a load at an effective address \<open>va\<close>. A misaligned address gives \<open>SIM_UNALIGNED_LOAD\<close>. A
  read TLB slot that still holds the entry of the constructor hits on the page at \<open>POISON_VA\<close>, and the load
  dereferences a null pointer. Otherwise the page tables decide: their abort (an entry without accessed or dirty
  bit) or status is that of the load, absent memory is an access fault, and the load puts the
  value at the physical address, extended as the instruction asks for, into its destination, logs that and goes on. It
  changes no memory.
\<close>

theorem load_conforms:
  assumes inv: "sim_inv sim" and ok: "instr_ok instr" and isa: "isa_load (m_id instr) = Some (n, value)"
    and va: "va = eff_addr instr sim"
  shows "if unat va mod n \<noteq> 0 then call instr sim = Inr (Return SIM_UNALIGNED_LOAD, traced instr sim)
    else if TLB_find 7 va (m_read_tlb sim) = Inr (True, None) then page_base va = POISON_VA \<and> call instr sim = Inl NullDeref
    else (case user_translate READ va sim of
        Inl e \<Rightarrow> call instr sim = Inl e
      | Inr r \<Rightarrow> \<exists>sim1. sim_inv sim1 \<and> same_arch (traced instr sim) sim1 \<and> call instr sim = Inr (
          if mmu_status r \<noteq> OK then (Return (mmu_status r), sim1)
          else if contents_of sim (phys_addr r) = None then (Return PHYS_MEM_ACCESS_FAULT, sim1)
          else (Next, incr_to (pc_of sim + 4) (put_reg (m_rd instr) (value (contents_of sim) (phys_addr r)) sim1))))"
proof -
  note [simp] = call_def handler_defs
  let ?h = "\<lambda>ext. call instr sim = next_if_OK (simLoadInstr ext instr (traced instr sim)) \<and> value = (\<lambda>c a. ext (mem_word c a))"
  from isa consider
      "n = 1" "\<exists>ext :: 8 word \<Rightarrow> RegValue. ?h ext" | "n = 2" "\<exists>ext :: 16 word \<Rightarrow> RegValue. ?h ext"
    | "n = 4" "\<exists>ext :: 32 word \<Rightarrow> RegValue. ?h ext" | "n = 8" "\<exists>ext :: 64 word \<Rightarrow> RegValue. ?h ext"
    using traced_logInstr [of instr sim] by (cases "m_id instr") auto
  then show ?thesis
  proof cases
    case 1
    then obtain ext :: "8 word \<Rightarrow> RegValue" where "?h ext" by blast
    then show ?thesis by (rule load_case [OF _ inv ok va, rotated 2]) (simp_all add: 1 aligned_iff)
  next
    case 2
    then obtain ext :: "16 word \<Rightarrow> RegValue" where "?h ext" by blast
    then show ?thesis by (rule load_case [OF _ inv ok va, rotated 2]) (simp_all add: 2 aligned_iff)
  next
    case 3
    then obtain ext :: "32 word \<Rightarrow> RegValue" where "?h ext" by blast
    then show ?thesis by (rule load_case [OF _ inv ok va, rotated 2]) (simp_all add: 3 aligned_iff)
  next
    case 4
    then obtain ext :: "64 word \<Rightarrow> RegValue" where "?h ext" by blast
    then show ?thesis by (rule load_case [OF _ inv ok va, rotated 2]) (simp_all add: 4 aligned_iff)
  qed
qed

text \<open>
  C14: every outcome of a store at an effective address \<open>va\<close>, with the same cases. A store to present memory puts the
  low bytes of its source register there, logs that and changes nothing else: all other bytes, all
  registers and all translations are as before; a store that fails changes no memory.
\<close>

theorem store_conforms:
  assumes inv: "sim_inv sim" and ok: "instr_ok instr" and isa: "isa_store (m_id instr) = Some (n, put)"
    and va: "va = eff_addr instr sim"
  shows "if unat va mod n \<noteq> 0 then call instr sim = Inr (Return SIM_UNALIGNED_STORE, traced instr sim)
    else if TLB_find 7 va (m_write_tlb sim) = Inr (True, None) then page_base va = POISON_VA \<and> call instr sim = Inl NullDeref
    else (case user_translate WRITE va sim of
        Inl e \<Rightarrow> call instr sim = Inl e
      | Inr r \<Rightarrow> \<exists>sim1. sim_inv sim1 \<and> same_regs (traced instr sim) sim1 \<and>
          contents_of sim1 = (if mmu_status r = OK \<and> contents_of sim (phys_addr r) \<noteq> None
            then put (phys_addr r) (reg sim (m_rs2 instr)) (contents_of sim) else contents_of sim) \<and>
          (\<forall>acc va. user_translate acc va sim1 = user_translate acc va sim) \<and>
          call instr sim = Inr (
            if mmu_status r \<noteq> OK then (Return (mmu_status r), sim1)
            else if contents_of sim (phys_addr r) = None then (Return PHYS_MEM_ACCESS_FAULT, sim1)
            else (Next, incr_to (pc_of sim + 4) (logMemWrite va (take_bit (8 * n) (reg sim (m_rs2 instr))) sim1))))"
proof -
  note [simp] = call_def handler_defs
  let ?h = "\<lambda>ty f. call instr sim = next_if_OK (simStoreInstr ty instr (traced instr sim)) \<and> put = f"
  from isa consider
      "n = 1" "?h TYPE(8) (\<lambda>a v. mem_put a (ucast v :: 8 word))" | "n = 2" "?h TYPE(16) (\<lambda>a v. mem_put a (ucast v :: 16 word))"
    | "n = 4" "?h TYPE(32) (\<lambda>a v. mem_put a (ucast v :: 32 word))" | "n = 8" "?h TYPE(64) (\<lambda>a v. mem_put a (ucast v :: 64 word))"
    using traced_logInstr [of instr sim] by (cases "m_id instr") auto
  then show ?thesis
  proof cases
    case 1
    show ?thesis by (rule store_case [OF _ inv ok va _ _ 1(2)]) (simp_all add: 1 aligned_iff)
  next
    case 2
    show ?thesis by (rule store_case [OF _ inv ok va _ _ 2(2)]) (simp_all add: 2 aligned_iff)
  next
    case 3
    show ?thesis by (rule store_case [OF _ inv ok va _ _ 3(2)]) (simp_all add: 3 aligned_iff)
  next
    case 4
    show ?thesis by (rule store_case [OF _ inv ok va _ _ 4(2)]) (simp_all add: 4 aligned_iff)
  qed
qed

section \<open>Branches and jumps\<close>

fun isa_branch :: "InstrId \<Rightarrow> (64 word \<Rightarrow> 64 word \<Rightarrow> bool) option" where
  "isa_branch I_BEQ = Some (=)"
| "isa_branch I_BNE = Some (\<noteq>)"
| "isa_branch I_BLT = Some (\<lambda>a b. sint a < sint b)"
| "isa_branch I_BGE = Some (\<lambda>a b. sint b \<le> sint a)"
| "isa_branch I_BLTU = Some (<)"
| "isa_branch I_BGEU = Some (\<lambda>a b. b \<le> a)"
| "isa_branch _ = None"

lemma call_branch:
  assumes "instr_ok instr" and "isa_branch (m_id instr) = Some cmp"
  shows "call instr sim =
    (let target = (if cmp (reg sim (m_rs1 instr)) (reg sim (m_rs2 instr)) then pc_of sim + scast (m_imm instr)
                   else pc_of sim + 4)
     in if cmp (reg sim (m_rs1 instr)) (reg sim (m_rs2 instr)) \<and> target AND 3 \<noteq> 0
        then Inr (Return SIM_PC_ALIGN_ERROR, traced instr sim)
        else Inr (Return OK, jump_to target (traced instr sim)))"
  using assms traced_logInstr [of instr sim]
  by (cases "m_id instr")
    (auto simp: call_def handler_defs return_status_def simCondBranch_def instr_ok_def read_gpr_ok
      INSTR_CODE_SIZE_def Let_def jump_to_def)

lemma call_jump:
  assumes "instr_ok instr" and "m_id instr = I_JAL \<or> m_id instr = I_JALR"
    and target: "target = (if m_id instr = I_JAL then pc_of sim + scast (m_imm instr)
                           else (reg sim (m_rs1 instr) + scast (m_imm instr)) AND NOT 1)"
    and no_overflow: "m_id instr = I_JALR \<Longrightarrow> sint (reg sim (m_rs1 instr) + scast (m_imm instr)) =
       sint (reg sim (m_rs1 instr)) + sint (m_imm instr)"
  shows "call instr sim =
    (if target AND 3 \<noteq> 0 then Inr (Return SIM_PC_ALIGN_ERROR, traced instr sim)
     else Inr (Return OK, jump_to target (put_reg (m_rd instr) (pc_of sim + 4) (traced instr sim))))"
proof -
  have sint: "sint (scast (m_imm instr) :: 64 word) = sint (m_imm instr)"
    by (simp add: signed_scast_eq sint_uint [of "m_imm instr"])
  show ?thesis
  proof (cases "m_id instr = I_JAL")
    case True
    then show ?thesis
      using assms(1) traced_logInstr [of instr sim]
      by (simp add: target call_def simInstr_JAL_def Let_def PC_ALIGN_MASK_def instr_ok_def write_gpr_ok jump_log_ok jump_to_def)
  next
    case False
    then have jalr: "m_id instr = I_JALR" using assms(2) by simp
    then have "add_signed (scast (m_imm instr)) (reg sim (m_rs1 instr)) = Inr (reg sim (m_rs1 instr) + scast (m_imm instr))"
      using no_overflow sint by (simp add: add_signed_def add.commute)
    then show ?thesis
      using assms(1) jalr traced_logInstr [of instr sim]
      by (simp add: target call_def simInstr_JALR_def Let_def PC_ALIGN_MASK_def instr_ok_def write_gpr_ok read_gpr_ok
        jump_log_ok jump_to_def)
  qed
qed

text \<open>
  C15: a conditional branch goes to the target if its condition holds and to the next instruction
  otherwise, counts one instruction and logs the new program counter, and reports a misaligned target
  with the line of the instruction as the only change of state.
\<close>

theorem branch_conforms:
  assumes "instr_ok instr" and "isa_branch (m_id instr) = Some cmp"
  shows "call instr sim =
    (let target = (if cmp (reg sim (m_rs1 instr)) (reg sim (m_rs2 instr)) then pc_of sim + scast (m_imm instr)
                   else pc_of sim + 4)
     in if cmp (reg sim (m_rs1 instr)) (reg sim (m_rs2 instr)) \<and> target AND 3 \<noteq> 0
        then Inr (Return SIM_PC_ALIGN_ERROR, traced instr sim)
        else Inr (Return OK, jump_to target (traced instr sim)))"
  using assms by (rule call_branch)

lemma jalr_overflow:
  assumes "instr_ok instr" and "m_id instr = I_JALR"
    and "sint (reg sim (m_rs1 instr) + scast (m_imm instr)) \<noteq> sint (reg sim (m_rs1 instr)) + sint (m_imm instr)"
  shows "call instr sim = Inl SignedOverflow"
proof -
  have sint: "sint (scast (m_imm instr) :: 64 word) = sint (m_imm instr)"
    by (simp add: signed_scast_eq sint_uint [of "m_imm instr"])
  have "add_signed (scast (m_imm instr)) (reg sim (m_rs1 instr)) = Inl SignedOverflow"
    using assms(3) sint by (simp add: add_signed_def add.commute)
  then show ?thesis
    using assms(1,2) traced_logInstr [of instr sim]
    by (simp add: call_def simInstr_JALR_def Let_def instr_ok_def read_gpr_ok)
qed

text \<open>
  C16: \<open>jal\<close> and \<open>jalr\<close> link the address of the next instruction and jump to the specified target, or report a
  misaligned target; \<open>jalr\<close> reads its base register before it writes the link. The log has the line of
  the instruction first, then the link and the new program counter. The handler of \<open>jalr\<close> adds base and offset
  as signed numbers: it is undefined behaviour exactly where that sum overflows, though the
  specification asks for the wrapped target.
\<close>

theorem jump_conforms:
  assumes "instr_ok instr" and "m_id instr = I_JAL \<or> m_id instr = I_JALR"
    and target: "target = (if m_id instr = I_JAL then pc_of sim + scast (m_imm instr)
                           else (reg sim (m_rs1 instr) + scast (m_imm instr)) AND NOT 1)"
  shows "call instr sim =
    (if m_id instr = I_JALR \<and>
        sint (reg sim (m_rs1 instr) + scast (m_imm instr)) \<noteq> sint (reg sim (m_rs1 instr)) + sint (m_imm instr)
     then Inl SignedOverflow
     else if target AND 3 \<noteq> 0 then Inr (Return SIM_PC_ALIGN_ERROR, traced instr sim)
     else Inr (Return OK, jump_to target (put_reg (m_rd instr) (pc_of sim + 4) (traced instr sim))))"
  using jalr_overflow [OF assms(1), of sim] call_jump [OF assms] by auto

end
