(* ===== verification/Mapper.thy ===== *)
theory Mapper
  imports Mmu
begin

text \<open>
  \<^verbatim>\<open>memory/include/sim/memory/simple_mapper.hpp\<close> and \<open>SimpleMemoryMapper::map\<close> of
  \<^verbatim>\<open>memory/src/memory.cpp\<close>: the builder of page tables. The physical memory the class holds
  by reference is passed along. The loop of \<open>map\<close> counts \<open>i\<close> down from the mode's levels and
  returns at \<open>i = 0\<close>; it is the recursive \<open>map_walk\<close>.
\<close>

section \<open>Model\<close>

definition DEFAULT_FLAGS :: PTEFlags where
  "DEFAULT_FLAGS = V_MASK OR A_MASK OR D_MASK"

record MemoryMapping =
  mp_flags :: PTEFlags
  mp_vpn :: VPN
  mp_ppn :: PPN

definition MemoryMapping_new :: "PTEFlags \<Rightarrow> VPN \<Rightarrow> PPN \<Rightarrow> MemoryMapping" where
  "MemoryMapping_new flags vpn ppn = \<lparr>mp_flags = flags OR DEFAULT_FLAGS, mp_vpn = vpn, mp_ppn = ppn\<rparr>"

record SimpleMemoryMapper =
  sm_mode :: MODEValue
  sm_table_region_begin :: PPN
  sm_curr_table :: PPN
  sm_table_region_end :: PPN

text \<open>The constructor's loop over the pages of the table region.\<close>

function map_tables :: "mmap_fn \<Rightarrow> PPN \<Rightarrow> PPN \<Rightarrow> PhysMemory \<Rightarrow> PhysMemory res" where
  "map_tables mm table_ppn region_end pm =
     (if table_ppn = region_end then Inr pm
      else bindR (addRAMPage mm (table_ppn * PAGE_SIZE) pm) (\<lambda>(added, pm).
           bindR (SIM_ASSERT added) (\<lambda>_. map_tables mm (table_ppn + 1) region_end pm)))"
  by pat_completeness auto
termination
proof (relation "measure (\<lambda>(mm, t, e, pm). unat (e - t))", simp)
  fix mm :: mmap_fn and t e :: PPN and pm pm' :: PhysMemory and x :: "bool \<times> PhysMemory" and y :: bool
  assume "t \<noteq> e"
  then have "e - t \<noteq> 0" by simp
  then have "unat (e - t - 1) < unat (e - t)" by (simp add: unat_minus_one unat_gt_0)
  then show "((mm, t + 1, e, pm'), (mm, t, e, pm)) \<in> measure (\<lambda>(mm, t, e, pm). unat (e - t))"
    by (simp add: diff_diff_eq)
qed

declare map_tables.simps [simp del]

definition SimpleMemoryMapper_new ::
  "mmap_fn \<Rightarrow> MODEValue \<Rightarrow> PPN \<Rightarrow> PPN \<Rightarrow> PhysMemory \<Rightarrow> (SimpleMemoryMapper \<times> PhysMemory) res" where
  "SimpleMemoryMapper_new mm mode table_region_begin table_region_end pm =
     bindR (SIM_ASSERT (table_region_begin < table_region_end)) (\<lambda>_.
     bindR (map_tables mm table_region_begin table_region_end pm) (\<lambda>pm.
     Inr (\<lparr>sm_mode = mode, sm_table_region_begin = table_region_begin,
           sm_curr_table = table_region_begin + 1, sm_table_region_end = table_region_end\<rparr>, pm)))"

text \<open>
  One round of the loop: read the entry; where it is not valid, add one (a pointer to the next
  unused table, or the leaf at level 0) and write it; then return or go down a level.
\<close>

fun map_walk :: "MemoryMapping \<Rightarrow> VirtAddr \<Rightarrow> nat \<Rightarrow> PPN \<Rightarrow> SimpleMemoryMapper \<Rightarrow> PhysMemory \<Rightarrow>
    (SimStatus \<times> SimpleMemoryMapper \<times> PhysMemory) res" where
  "map_walk mapping va i table_ppn m pm =
     bindR (getVPN va i) (\<lambda>vpn.
     let pte_pa = table_ppn * PAGE_SIZE + vpn * 8 in
     bindR (PhysMemory_read pte_pa (0 :: PTE) pm) (\<lambda>(res, pte).
     if rd_status res \<noteq> OK then Inr (rd_status res, m, pm)
     else if \<not> flag_v (ucast pte) then
       (if i \<noteq> 0 then
          (if sm_curr_table m = sm_table_region_end m then Inr (MAPPER_TABLE_REGION_END, m, pm)
           else
             let new_table = sm_curr_table m; m = m\<lparr>sm_curr_table := sm_curr_table m + 1\<rparr> in
             bindR (createPTE new_table V_MASK) (\<lambda>pte.
             bindR (PhysMemory_write pte_pa pte pm) (\<lambda>(res, pm).
             if wr_status res \<noteq> OK then Inr (wr_status res, m, pm)
             else bindR (getBitField PTE_PPN_HI PTE_PPN_LO pte) (\<lambda>ppn.
                  map_walk mapping va (i - 1) ppn m pm))))
        else
          bindR (createPTE (mp_ppn mapping) (mp_flags mapping)) (\<lambda>pte.
          bindR (PhysMemory_write pte_pa pte pm) (\<lambda>(res, pm).
          if wr_status res \<noteq> OK then Inr (wr_status res, m, pm)
          else Inr (OK, m, pm))))
     else if i = 0 then Inr (MAPPER_ALREADY_MAPPED, m, pm)
     else bindR (getBitField PTE_PPN_HI PTE_PPN_LO pte) (\<lambda>ppn.
          map_walk mapping va (i - 1) ppn m pm)))"

declare map_walk.simps [simp del]

definition mapper_map :: "MemoryMapping \<Rightarrow> SimpleMemoryMapper \<Rightarrow> PhysMemory \<Rightarrow>
    (SimStatus \<times> SimpleMemoryMapper \<times> PhysMemory) res" where
  "mapper_map mapping m pm =
     (if mp_ppn mapping \<ge> sm_table_region_begin m \<and> mp_ppn mapping < sm_table_region_end m
      then Inr (MAPPER_TABLE_REGION_PAGE_MAPPED, m, pm)
      else
        let va = mp_vpn mapping * PAGE_SIZE in
        bindR (modeToLevels (sm_mode m)) (\<lambda>levels.
        map_walk mapping va (levels - 1) (sm_table_region_begin m) m pm))"

section \<open>Entries and slots\<close>

definition slot :: "(64 word \<rightharpoonup> byte) \<Rightarrow> PPN \<Rightarrow> VirtAddr \<Rightarrow> nat \<Rightarrow> PTE" where
  "slot c t va i = mem_word c (pte_addr t va i)"

text \<open>Entries are 8-byte aligned, so a written entry changes itself and no other entry.\<close>

lemma pte_addr_aligned: "take_bit 3 (pte_addr t va i) = 0"
proof -
  have "bit (pte_addr t va i) n = bit (page_offset (pte_addr t va i)) n" if "n < 3" for n
    using that by (simp add: bit_page_offset_iff)
  moreover have "\<not> bit (vpn_field va i * 8) n" if "n < 3" for n
  proof -
    have "vpn_field va i * 8 = push_bit 3 (vpn_field va i)" by (simp add: push_bit_eq_mult)
    with that show ?thesis by (simp add: bit_push_bit_iff)
  qed
  ultimately show ?thesis
    by (intro bit_word_eqI) (simp add: bit_take_bit_iff pte_addr_offset)
qed

lemma take_bit_3_mod: "take_bit 3 (a :: 64 word) = 0 \<longleftrightarrow> unat a mod 8 = 0"
proof -
  have "take_bit 3 a = 0 \<longleftrightarrow> unat (take_bit 3 a) = 0" by (simp add: unat_eq_0)
  then show ?thesis by (simp add: unsigned_take_bit_eq take_bit_nat_def)
qed

lemma aligned_8_disjoint:
  fixes a b :: "64 word"
  assumes "take_bit 3 a = 0" and "take_bit 3 b = 0" and "k < 8" and "unat (b + of_nat k - a) < 8"
  shows "a = b"
proof -
  have "take_bit 3 (b - a) = (take_bit 3 b - take_bit 3 a) AND mask 3"
    by (simp add: take_bit_eq_mask mask_eqs)
  then have "take_bit 3 (b - a) = 0" using assms(1,2) by simp
  then obtain q where q: "unat (b - a) = 8 * q" by (auto simp: take_bit_3_mod mod_eq_0_iff_dvd dvd_def)
  have "unat (b - a) < 2 ^ LENGTH(64)" by (rule unsigned_less)
  then have "8 * q < 2 ^ 64" using q by simp
  then have "unat (b - a) + k < 2 ^ 64" using q assms(3) by simp
  moreover have "b + of_nat k - a = (b - a) + of_nat k" by simp
  ultimately have "unat (b + of_nat k - a) = unat (b - a) + k"
    using assms(3) by (simp only: unat_word_ariths) (simp add: unat_of_nat)
  with assms(4) q have "unat (b - a) = 0" by simp
  then show ?thesis by (simp add: unat_eq_0)
qed

lemma pte_addr_eq_iff:
  "pte_addr t va i = pte_addr t' va' i' \<longleftrightarrow>
     t * PAGE_SIZE = t' * PAGE_SIZE \<and> vpn_field va i * 8 = vpn_field va' i' * 8"
  by (metis pte_addr_def pte_addr_page pte_addr_offset)

lemma slot_put:
  "slot (mem_put (pte_addr t va i) v c) t' va' i' =
     (if pte_addr t va i = pte_addr t' va' i' then v else slot c t' va' i')"
proof (cases "pte_addr t va i = pte_addr t' va' i'")
  case True
  then show ?thesis by (simp add: slot_def mem64.mem_word_put_same)
next
  case False
  have "mem_put (pte_addr t va i) v c (pte_addr t' va' i' + of_nat k) = c (pte_addr t' va' i' + of_nat k)"
    if "k < 8" for k
    using aligned_8_disjoint [OF pte_addr_aligned pte_addr_aligned that] False by (auto simp: mem_put_unat)
  with False show ?thesis
    unfolding slot_def mem_word_def by (auto intro!: arg_cong [where f = word_of_bytes] map_cong)
qed

text \<open>Entries as \<open>createPTE\<close> makes them.\<close>

definition new_pte :: "PPN \<Rightarrow> PTEFlags \<Rightarrow> PTE" where
  "new_pte ppn flags = put_field 53 10 (ucast flags) ppn"

lemma bit_RESERWED_MASK_iff: "bit PTE_RESERWED_MASK n \<longleftrightarrow> n = 8 \<or> n = 9 \<or> (54 \<le> n \<and> n < 64)"
proof -
  have eq: "PTE_RESERWED_MASK = push_bit 54 (mask 10) OR push_bit 8 (mask 2)"
    by (simp add: PTE_RESERWED_MASK_def mask_eq_exp_minus_1)
  show ?thesis unfolding eq by (auto simp only: bit_or_iff bit_push_bit_iff bit_mask_iff) auto
qed

lemma new_pte_unreserved: "new_pte ppn flags AND PTE_RESERWED_MASK = 0"
  by (rule bit_word_eqI)
    (auto simp: bit_and_iff bit_RESERWED_MASK_iff new_pte_def bit_put_field_iff bit_unsigned_iff
      dest: bit_imp_le_length)

lemma createPTE_ok [simp]: "createPTE ppn flags = Inr (new_pte ppn flags)"
  using new_pte_unreserved [of ppn flags] by (simp add: createPTE_def mmu_consts new_pte_def)

lemma pte_ppn_new_pte [simp]: "pte_ppn (new_pte ppn flags) = take_bit 44 ppn"
  by (simp add: new_pte_def)

lemma flags_new_pte [simp]: "ucast (new_pte ppn flags) = flags"
  by (rule bit_word_eqI) (auto simp: bit_simps new_pte_def)

lemma flag_V_MASK [simp]: "flag_v V_MASK" "\<not> flag_r V_MASK" "\<not> flag_w V_MASK" "\<not> flag_x V_MASK"
  by (simp_all add: flag_v_def flag_r_def flag_w_def flag_x_def V_MASK_def R_MASK_def W_MASK_def X_MASK_def)

lemma pointer_pte [simp]: "\<not> pte_bad (new_pte t V_MASK)" "\<not> pte_leaf (new_pte t V_MASK)"
  by (simp_all add: pte_bad_def pte_leaf_def new_pte_unreserved)

lemma mapping_flags_DEFAULT:
  "flag_v (f OR DEFAULT_FLAGS)" "flag_a (f OR DEFAULT_FLAGS)" "flag_d (f OR DEFAULT_FLAGS)"
proof -
  have *: "(w :: 8 word) AND push_bit n 1 \<noteq> 0 \<longleftrightarrow> bit w n" if "n < 8" for w n
    using that by (simp add: push_bit_of_1 and_exp_eq_0_iff_not_bit)
  have "bit DEFAULT_FLAGS n" if "n = 0 \<or> n = 6 \<or> n = 7" for n
    using that by (auto simp: DEFAULT_FLAGS_def V_MASK_def A_MASK_def D_MASK_def push_bit_of_1 bit_simps)
  then show "flag_v (f OR DEFAULT_FLAGS)" "flag_a (f OR DEFAULT_FLAGS)" "flag_d (f OR DEFAULT_FLAGS)"
    unfolding flag_v_def flag_a_def flag_d_def V_MASK_def A_MASK_def D_MASK_def
    using * [of 0 "f OR DEFAULT_FLAGS"] * [of 6 "f OR DEFAULT_FLAGS"] * [of 7 "f OR DEFAULT_FLAGS"]
    by (auto simp: bit_or_iff)
qed

lemma write_pte:
  assumes "pm_ok pm" and "pm_contents pm (t * PAGE_SIZE) \<noteq> None"
  obtains p pm' where
    "PhysMemory_write (pte_addr t va i) (pte :: PTE) pm = Inr (\<lparr>wr_status = OK, wr_host_page_ptr = Some p\<rparr>, pm')"
    and "m_ram pm' = m_ram pm" and "pm_contents pm' = mem_put (pte_addr t va i) pte (pm_contents pm)"
    and "\<forall>mm. pm_inv mm pm \<longrightarrow> pm_inv mm pm'"
proof -
  from assms(2) obtain p where p: "m_mapping (m_ram pm) (page_base (pte_addr t va i)) = Some p"
    by (auto simp: pm_contents_def pte_addr_page page_base_aligned split: option.splits)
  let ?pm' = "pm\<lparr>host_mem := host_write (ptr_add p (page_offset (pte_addr t va i))) pte (host_mem pm)\<rparr>"
  have w: "PhysMemory_write (pte_addr t va i) pte pm =
      Inr (\<lparr>wr_status = OK, wr_host_page_ptr = Some p\<rparr>, ?pm')"
    using pte_addr_in_page [of t va i] p by (simp add: PhysMemory_write_eq)
  show thesis
  proof (rule that [OF w])
    show "\<forall>mm. pm_inv mm pm \<longrightarrow> pm_inv mm ?pm'"
      using PhysMemory_write_inv [OF _ _ w] by simp
    show "pm_contents ?pm' = mem_put (pte_addr t va i) pte (pm_contents pm)"
      using pte_addr_in_page [of t va i] p assms(1) by (intro pm_contents_host_write) auto
  qed simp
qed

section \<open>Invariant of the mapper\<close>

definition in_region :: "SimpleMemoryMapper \<Rightarrow> PPN \<Rightarrow> bool" where
  "in_region m t \<longleftrightarrow> sm_table_region_begin m \<le> t \<and> t < sm_table_region_end m"

abbreviation used_table :: "SimpleMemoryMapper \<Rightarrow> PPN \<Rightarrow> bool" where
  "used_table m t \<equiv> sm_table_region_begin m \<le> t \<and> t < sm_curr_table m"

definition region_pages :: "SimpleMemoryMapper \<Rightarrow> 64 word set" where
  "region_pages m = {t * PAGE_SIZE | t. in_region m t}"

text \<open>
  \<open>lv\<close> gives the level of every used table. Valid entries of a table above level 0 are pointers
  to used tables one level below; valid entries at level 0 map no page of the table region; the
  tables not yet used hold no valid entry.
\<close>

definition mapper_ok :: "SimpleMemoryMapper \<Rightarrow> (PPN \<Rightarrow> nat) \<Rightarrow> (64 word \<rightharpoonup> byte) \<Rightarrow> bool" where
  "mapper_ok m lv c \<longleftrightarrow>
     sm_mode m \<noteq> BARE \<and> sm_table_region_begin m < sm_curr_table m \<and>
     sm_curr_table m \<le> sm_table_region_end m \<and> sm_table_region_end m \<le> 2 ^ 44 \<and>
     lv (sm_table_region_begin m) = mode_levels (sm_mode m) - 1 \<and>
     (\<forall>t. in_region m t \<longrightarrow> c (t * PAGE_SIZE) \<noteq> None) \<and>
     (\<forall>t va i. used_table m t \<and> flag_v (ucast (slot c t va i)) \<longrightarrow>
        (if lv t = 0 then \<not> in_region m (pte_ppn (slot c t va i))
         else \<not> pte_bad (slot c t va i) \<and> \<not> pte_leaf (slot c t va i) \<and>
              used_table m (pte_ppn (slot c t va i)) \<and> Suc (lv (pte_ppn (slot c t va i))) = lv t)) \<and>
     (\<forall>t va i. sm_curr_table m \<le> t \<and> t < sm_table_region_end m \<longrightarrow> \<not> flag_v (ucast (slot c t va i)))"

lemma mapper_okI:
  assumes "sm_mode m \<noteq> BARE" and "sm_table_region_begin m < sm_curr_table m"
    and "sm_curr_table m \<le> sm_table_region_end m" and "sm_table_region_end m \<le> 2 ^ 44"
    and "lv (sm_table_region_begin m) = mode_levels (sm_mode m) - 1"
    and "\<And>t. in_region m t \<Longrightarrow> c (t * PAGE_SIZE) \<noteq> None"
    and "\<And>t va i. used_table m t \<Longrightarrow> flag_v (ucast (slot c t va i)) \<Longrightarrow>
        (if lv t = 0 then \<not> in_region m (pte_ppn (slot c t va i))
         else \<not> pte_bad (slot c t va i) \<and> \<not> pte_leaf (slot c t va i) \<and>
              used_table m (pte_ppn (slot c t va i)) \<and> Suc (lv (pte_ppn (slot c t va i))) = lv t)"
    and "\<And>t va i. sm_curr_table m \<le> t \<Longrightarrow> t < sm_table_region_end m \<Longrightarrow> \<not> flag_v (ucast (slot c t va i))"
  shows "mapper_ok m lv c"
  using assms unfolding mapper_ok_def by blast

lemma mapper_okD:
  assumes "mapper_ok m lv c"
  shows "sm_mode m \<noteq> BARE" and "sm_table_region_begin m < sm_curr_table m"
    and "sm_curr_table m \<le> sm_table_region_end m" and "sm_table_region_end m \<le> 2 ^ 44"
    and "lv (sm_table_region_begin m) = mode_levels (sm_mode m) - 1"
    and "in_region m t \<Longrightarrow> c (t * PAGE_SIZE) \<noteq> None"
    and "sm_curr_table m \<le> t \<Longrightarrow> t < sm_table_region_end m \<Longrightarrow> \<not> flag_v (ucast (slot c t va i))"
  using assms unfolding mapper_ok_def by blast+

lemma mapper_ok_entry:
  assumes "mapper_ok m lv c" and "used_table m t" and "flag_v (ucast (slot c t va i))"
  shows "if lv t = 0 then \<not> in_region m (pte_ppn (slot c t va i))
         else \<not> pte_bad (slot c t va i) \<and> \<not> pte_leaf (slot c t va i) \<and>
              used_table m (pte_ppn (slot c t va i)) \<and> Suc (lv (pte_ppn (slot c t va i))) = lv t"
  using assms unfolding mapper_ok_def by blast

lemma region_bound: "mapper_ok m lv c \<Longrightarrow> in_region m t \<Longrightarrow> t < 2 ^ 44"
  by (auto simp: mapper_ok_def in_region_def)

lemma used_in_region: "mapper_ok m lv c \<Longrightarrow> used_table m t \<Longrightarrow> in_region m t"
  by (auto simp: mapper_ok_def in_region_def)

lemma region_pte_addr_inj:
  assumes "mapper_ok m lv c" and "in_region m t" and "in_region m t'"
    and "pte_addr t va i = pte_addr t' va' i'"
  shows "t = t'"
proof -
  have "t < 2 ^ 52" and "t' < 2 ^ 52"
    using region_bound [OF assms(1,2)] region_bound [OF assms(1,3)] by (auto simp: word_less_nat_alt)
  with assms(4) show ?thesis using page_mult_inj by (auto simp: pte_addr_eq_iff)
qed

lemma take_bit_44_self: "(t :: 64 word) < 2 ^ 44 \<Longrightarrow> take_bit 44 t = t"
  by (simp add: word_unat_eq_iff unsigned_take_bit_eq take_bit_nat_eq_self word_less_nat_alt)

lemma mem_put_dom: "c b \<noteq> None \<Longrightarrow> mem_put a v c b \<noteq> None"
  by (simp add: mem_put_unat)

text \<open>Adding a pointer to a fresh table.\<close>

lemma mapper_ok_pointer:
  assumes ok: "mapper_ok m lv c" and t: "used_table m t" "lv t = Suc i"
    and room: "sm_curr_table m \<noteq> sm_table_region_end m"
  shows "mapper_ok (m\<lparr>sm_curr_table := sm_curr_table m + 1\<rparr>) (lv(sm_curr_table m := i))
           (mem_put (pte_addr t va (Suc i)) (new_pte (sm_curr_table m) V_MASK) c)"
proof -
  let ?n = "sm_curr_table m" and ?m' = "m\<lparr>sm_curr_table := sm_curr_table m + 1\<rparr>"
    and ?lv' = "lv(sm_curr_table m := i)"
    and ?c' = "mem_put (pte_addr t va (Suc i)) (new_pte (sm_curr_table m) V_MASK) c"
  have lt: "?n < sm_table_region_end m" using ok room by (auto simp: mapper_ok_def)
  then have used': "used_table ?m' x \<longleftrightarrow> used_table m x \<or> x = ?n" for x
    using ok by (auto simp: mapper_ok_def) (unat_arith+)
  have reg: "in_region ?m' x = in_region m x" for x by (simp add: in_region_def)
  have n_reg: "in_region m ?n" using ok lt by (auto simp: in_region_def mapper_ok_def)
  have t_reg: "in_region m t" using used_in_region [OF ok t(1)] .
  have n_ppn: "pte_ppn (new_pte ?n V_MASK) = ?n"
    using region_bound [OF ok n_reg] by (simp add: take_bit_44_self)
  have slot': "slot ?c' x va' j = (if x = t \<and> pte_addr t va (Suc i) = pte_addr x va' j
      then new_pte ?n V_MASK else slot c x va' j)" if "in_region m x" for x va' j
    using region_pte_addr_inj [OF ok t_reg that] by (auto simp: slot_put)
  have used_ok: "if ?lv' x = 0 then \<not> in_region ?m' (pte_ppn (slot ?c' x va' j))
         else \<not> pte_bad (slot ?c' x va' j) \<and> \<not> pte_leaf (slot ?c' x va' j) \<and>
              used_table ?m' (pte_ppn (slot ?c' x va' j)) \<and> Suc (?lv' (pte_ppn (slot ?c' x va' j))) = ?lv' x"
    if x: "used_table ?m' x" and v: "flag_v (ucast (slot ?c' x va' j))" for x va' j
  proof (cases "x = t \<and> pte_addr t va (Suc i) = pte_addr x va' j")
    case True
    then have "slot ?c' x va' j = new_pte ?n V_MASK" using slot' t_reg by simp
    moreover have "t \<noteq> ?n" using t(1) by auto
    ultimately show ?thesis using True t(2) used' n_ppn by simp
  next
    case False
    have "in_region m x" using x used' used_in_region [OF ok] n_reg by blast
    then have s: "slot ?c' x va' j = slot c x va' j" using slot' False by auto
    have "x \<noteq> ?n" using v s lt ok by (auto simp: mapper_ok_def)
    with x used' have used: "used_table m x" by blast
    from mapper_ok_entry [OF ok used, of va' j] v s
    show ?thesis using \<open>x \<noteq> ?n\<close> unfolding used' reg s by (auto split: if_splits)
  qed
  have free: "\<not> flag_v (ucast (slot ?c' x va' j))"
    if "?n + 1 \<le> x" "x < sm_table_region_end m" for x va' j
  proof -
    have "?n \<le> x" using that(1) lt by unat_arith
    then have "in_region m x" "x \<noteq> t" using that ok t(1) by (auto simp: in_region_def mapper_ok_def)
    then show ?thesis using slot' ok \<open>?n \<le> x\<close> that by (simp add: mapper_ok_def)
  qed
  show ?thesis
  proof (rule mapper_okI)
    show "sm_mode ?m' \<noteq> BARE" "sm_table_region_end ?m' \<le> 2 ^ 44" using mapper_okD [OF ok] by simp_all
    show "sm_table_region_begin ?m' < sm_curr_table ?m'"
      using mapper_okD(2) [OF ok] lt by simp unat_arith
    show "sm_curr_table ?m' \<le> sm_table_region_end ?m'" using lt by simp unat_arith
    show "?lv' (sm_table_region_begin ?m') = mode_levels (sm_mode ?m') - 1"
      using mapper_okD(2,5) [OF ok] by auto
    show "?c' (x * PAGE_SIZE) \<noteq> None" if "in_region ?m' x" for x
      using mapper_okD(6) [OF ok] that reg by (intro mem_put_dom) blast
    show "\<not> flag_v (ucast (slot ?c' x va' j))"
      if "sm_curr_table ?m' \<le> x" "x < sm_table_region_end ?m'" for x va' j
      using free that by simp
  qed (rule used_ok)
qed

lemma mapper_ok_leaf:
  assumes ok: "mapper_ok m lv c" and t: "used_table m t" "lv t = 0"
    and ppn: "\<not> in_region m (take_bit 44 ppn)"
  shows "mapper_ok m lv (mem_put (pte_addr t va 0) (new_pte ppn flags) c)"
proof -
  let ?c' = "mem_put (pte_addr t va 0) (new_pte ppn flags) c"
  have t_reg: "in_region m t" using used_in_region [OF ok t(1)] .
  have slot': "slot ?c' x va' j = (if x = t \<and> pte_addr t va 0 = pte_addr x va' j
      then new_pte ppn flags else slot c x va' j)" if "in_region m x" for x va' j
    using region_pte_addr_inj [OF ok t_reg that] by (auto simp: slot_put)
  show ?thesis
  proof (rule mapper_okI)
    show "?c' (x * PAGE_SIZE) \<noteq> None" if "in_region m x" for x
      using mapper_okD(6) [OF ok that] by (rule mem_put_dom)
    show "\<not> flag_v (ucast (slot ?c' x va' j))" if "sm_curr_table m \<le> x" "x < sm_table_region_end m" for x va' j
      using slot' [of x va' j] that t(1) mapper_okD(2) [OF ok] mapper_okD(7) [OF ok that]
      by (auto simp: in_region_def)
    show "if lv x = 0 then \<not> in_region m (pte_ppn (slot ?c' x va' j))
         else \<not> pte_bad (slot ?c' x va' j) \<and> \<not> pte_leaf (slot ?c' x va' j) \<and>
              used_table m (pte_ppn (slot ?c' x va' j)) \<and> Suc (lv (pte_ppn (slot ?c' x va' j))) = lv x"
      if "used_table m x" and v: "flag_v (ucast (slot ?c' x va' j))" for x va' j
      using slot' [OF used_in_region [OF ok that(1)], of va' j] mapper_ok_entry [OF ok that(1), of va' j] v t ppn
      by (auto split: if_splits)
  qed (use mapper_okD [OF ok] in simp_all)
qed

section \<open>What a walk of the mapper does\<close>

text \<open>A chain of pointer entries from a table down to a level-0 entry.\<close>

fun reaches :: "(64 word \<rightharpoonup> byte) \<Rightarrow> VirtAddr \<Rightarrow> nat \<Rightarrow> PPN \<Rightarrow> PTE \<Rightarrow> bool" where
  "reaches c va 0 t pte \<longleftrightarrow> c (t * PAGE_SIZE) \<noteq> None \<and> slot c t va 0 = pte"
| "reaches c va (Suc i) t pte \<longleftrightarrow> c (t * PAGE_SIZE) \<noteq> None \<and> \<not> pte_bad (slot c t va (Suc i)) \<and>
     \<not> pte_leaf (slot c t va (Suc i)) \<and> reaches c va i (pte_ppn (slot c t va (Suc i))) pte"

lemma reaches_leaf_at:
  "reaches c va i t pte \<Longrightarrow> \<not> pte_bad pte \<Longrightarrow> pte_leaf pte \<Longrightarrow> leaf_at c va i t pte 0"
  by (induction i arbitrary: t) (auto simp: slot_def intro: leaf_at.intros)

text \<open>Nothing valid changes, and nothing outside the table region changes.\<close>

definition slots_kept :: "SimpleMemoryMapper \<Rightarrow> (64 word \<rightharpoonup> byte) \<Rightarrow> (64 word \<rightharpoonup> byte) \<Rightarrow> bool" where
  "slots_kept m c c' \<longleftrightarrow>
     (\<forall>t va i. flag_v (ucast (slot c t va i)) \<longrightarrow> slot c' t va i = slot c t va i) \<and>
     (\<forall>a. c a \<noteq> None \<longrightarrow> c' a \<noteq> None) \<and> (\<forall>a. page_base a \<notin> region_pages m \<longrightarrow> c' a = c a)"

lemma slots_keptD:
  assumes "slots_kept m c c'"
  shows "flag_v (ucast (slot c t va i)) \<Longrightarrow> slot c' t va i = slot c t va i"
    and "c a \<noteq> None \<Longrightarrow> c' a \<noteq> None"
    and "page_base a \<notin> region_pages m \<Longrightarrow> c' a = c a"
  using assms by (simp_all add: slots_kept_def)

lemma slots_keptI:
  assumes "\<And>t va i. flag_v (ucast (slot c t va i)) \<Longrightarrow> slot c' t va i = slot c t va i"
    and "\<And>a. c a \<noteq> None \<Longrightarrow> c' a \<noteq> None"
    and "\<And>a. page_base a \<notin> region_pages m \<Longrightarrow> c' a = c a"
  shows "slots_kept m c c'"
  using assms by (simp add: slots_kept_def)

lemma slots_kept_refl [simp]: "slots_kept m c c"
  by (simp add: slots_kept_def)

lemma slots_kept_trans:
  assumes 1: "slots_kept m c c'" and 2: "slots_kept m' c' c''" and 3: "region_pages m' = region_pages m"
  shows "slots_kept m c c''"
proof (rule slots_keptI)
  show "slot c'' t va i = slot c t va i" if "flag_v (ucast (slot c t va i))" for t va i
    using slots_keptD(1) [OF 1 that] slots_keptD(1) [OF 2, of t va i] that by simp
  show "c'' a \<noteq> None" if "c a \<noteq> None" for a
    using slots_keptD(2) [OF 2 slots_keptD(2) [OF 1 that]] .
  show "c'' a = c a" if "page_base a \<notin> region_pages m" for a
    using slots_keptD(3) [OF 1 that] slots_keptD(3) [OF 2, of a] that 3 by simp
qed

lemma slots_kept_put:
  assumes "in_region m t" and "\<not> flag_v (ucast (slot c t va i))"
  shows "slots_kept m c (mem_put (pte_addr t va i) (pte :: PTE) c)"
proof -
  have "slot (mem_put (pte_addr t va i) pte c) t' va' i' = slot c t' va' i'"
    if v: "flag_v (ucast (slot c t' va' i'))" for t' va' i'
  proof -
    have "pte_addr t va i \<noteq> pte_addr t' va' i'"
    proof
      assume "pte_addr t va i = pte_addr t' va' i'"
      then have "slot c t' va' i' = slot c t va i" unfolding slot_def by (rule arg_cong [OF sym])
      with v assms(2) show False by simp
    qed
    then show ?thesis by (simp only: slot_put if_False)
  qed
  moreover have "mem_put (pte_addr t va i) pte c a = c a" if "page_base a \<notin> region_pages m" for a
    using that assms(1) pte_addr_in_page [of t va i]
    by (intro mem_put_other_page) (auto simp: pte_addr_page region_pages_def)
  ultimately show ?thesis by (intro slots_keptI mem_put_dom)
qed

lemma usable_slot_kept:
  assumes "slots_kept m c c'" and "\<not> pte_bad (slot c t va i)"
  shows "slot c' t va i = slot c t va i"
  using slots_keptD(1) [OF assms(1)] assms(2) unfolding pte_bad_def by blast

lemma leaf_at_slots_kept:
  assumes "leaf_at c va i t pte j" and kept: "slots_kept m c c'"
  shows "leaf_at c' va i t pte j"
  using assms(1)
proof (induction rule: leaf_at.induct)
  case (here t pte i)
  then have "mem_word c' (pte_addr t va i) = pte"
    using usable_slot_kept [OF kept, of t va i] by (simp add: slot_def)
  with here slots_keptD(2) [OF kept here(1)] show ?case by (intro leaf_at.here) simp_all
next
  case (below t pte i pte' j)
  then have "mem_word c' (pte_addr t va (Suc i)) = pte"
    using usable_slot_kept [OF kept, of t va "Suc i"] by (simp add: slot_def)
  with below slots_keptD(2) [OF kept below(1)] show ?case by (intro leaf_at.below [where pte = pte]) simp_all
qed

lemma map_walk_unfold:
  assumes "i < 5" and "pm_contents pm (t * PAGE_SIZE) \<noteq> None"
  shows "map_walk mp va i t m pm =
    (let pte = slot (pm_contents pm) t va i in
     if \<not> flag_v (ucast pte) then
       (if i \<noteq> 0 then
          (if sm_curr_table m = sm_table_region_end m then Inr (MAPPER_TABLE_REGION_END, m, pm)
           else let m' = m\<lparr>sm_curr_table := sm_curr_table m + 1\<rparr>; pte' = new_pte (sm_curr_table m) V_MASK in
             bindR (PhysMemory_write (pte_addr t va i) pte' pm) (\<lambda>(res, pm).
             if wr_status res \<noteq> OK then Inr (wr_status res, m', pm)
             else map_walk mp va (i - 1) (pte_ppn pte') m' pm))
        else
          bindR (PhysMemory_write (pte_addr t va i) (new_pte (mp_ppn mp) (mp_flags mp)) pm) (\<lambda>(res, pm).
          if wr_status res \<noteq> OK then Inr (wr_status res, m, pm) else Inr (OK, m, pm)))
     else if i = 0 then Inr (MAPPER_ALREADY_MAPPED, m, pm)
     else map_walk mp va (i - 1) (pte_ppn pte) m pm)"
proof -
  let ?body = "\<lambda>s pte. if s \<noteq> OK then Inr (s, m, pm)
     else if \<not> flag_v (ucast pte) then
       (if i \<noteq> 0 then
          (if sm_curr_table m = sm_table_region_end m then Inr (MAPPER_TABLE_REGION_END, m, pm)
           else let m' = m\<lparr>sm_curr_table := sm_curr_table m + 1\<rparr>; pte' = new_pte (sm_curr_table m) V_MASK in
             bindR (PhysMemory_write (pte_addr t va i) pte' pm) (\<lambda>(res, pm).
             if wr_status res \<noteq> OK then Inr (wr_status res, m', pm)
             else map_walk mp va (i - 1) (pte_ppn pte') m' pm))
        else
          bindR (PhysMemory_write (pte_addr t va i) (new_pte (mp_ppn mp) (mp_flags mp)) pm) (\<lambda>(res, pm).
          if wr_status res \<noteq> OK then Inr (wr_status res, m, pm) else Inr (OK, m, pm)))
     else if i = 0 then Inr (MAPPER_ALREADY_MAPPED, m, pm)
     else map_walk mp va (i - 1) (pte_ppn pte) m pm"
  have "map_walk mp va i t m pm =
    bindR (PhysMemory_read (pte_addr t va i) (0 :: PTE) pm) (\<lambda>(res, pte). ?body (rd_status res) pte)"
    using assms
    by (subst map_walk.simps) (auto simp: pte_addr_def mmu_consts Let_def intro!: bindR_cong)
  then show ?thesis
    using assms(2) read_pte [of t va i pm ?body] by (simp add: Let_def slot_def)
qed

text \<open>The number of tables that the path of an address lacks.\<close>

fun missing :: "(64 word \<rightharpoonup> byte) \<Rightarrow> VirtAddr \<Rightarrow> nat \<Rightarrow> PPN \<Rightarrow> nat" where
  "missing c va 0 t = 0"
| "missing c va (Suc i) t =
     (if flag_v (ucast (slot c t va (Suc i))) then missing c va i (pte_ppn (slot c t va (Suc i))) else Suc i)"

lemma missing_le: "missing c va i t \<le> i"
  by (induction i arbitrary: t) (auto simp: le_SucI)

lemma missing_empty: "\<not> flag_v (ucast (slot c t va i)) \<Longrightarrow> missing c va i t = i"
  by (cases i) simp_all

text \<open>
  What is true after a walk from level \<open>i\<close>, by the status it returns: on \<open>OK\<close> the tables lead to
  the new entry and the missing tables were taken; on \<open>MAPPER_ALREADY_MAPPED\<close> they led to a valid
  entry before and nothing changed; on \<open>MAPPER_TABLE_REGION_END\<close> fewer tables were left than were
  missing. It returns nothing else. Valid entries stay.
\<close>

definition map_frame where
  "map_frame m pm m' pm' \<longleftrightarrow> m_ram pm' = m_ram pm \<and> (\<forall>mm. pm_inv mm pm \<longrightarrow> pm_inv mm pm') \<and>
     (\<exists>n. m' = m\<lparr>sm_curr_table := n\<rparr>) \<and> slots_kept m (pm_contents pm) (pm_contents pm')"

definition map_post where
  "map_post mp va i t m pm s m' pm' \<longleftrightarrow>
     map_frame m pm m' pm' \<and> (\<exists>lv'. mapper_ok m' lv' (pm_contents pm')) \<and>
     (s = OK \<and> reaches (pm_contents pm') va i t (new_pte (mp_ppn mp) (mp_flags mp)) \<and>
        unat (sm_curr_table m') = unat (sm_curr_table m) + missing (pm_contents pm) va i t \<or>
      s = MAPPER_ALREADY_MAPPED \<and> m' = m \<and> pm' = pm \<and>
        (\<exists>pte. flag_v (ucast pte) \<and> reaches (pm_contents pm) va i t pte) \<or>
      s = MAPPER_TABLE_REGION_END \<and>
        unat (sm_table_region_end m) < unat (sm_curr_table m) + missing (pm_contents pm) va i t)"

lemma reaches_valid: "reaches c va i t pte \<Longrightarrow> flag_v (ucast pte) \<Longrightarrow> flag_v (ucast (slot c t va i))"
  by (cases i) (auto simp: pte_bad_def)

lemma region_curr [simp]:
  "in_region (m\<lparr>sm_curr_table := n\<rparr>) = in_region m" "region_pages (m\<lparr>sm_curr_table := n\<rparr>) = region_pages m"
  by (simp_all add: fun_eq_iff in_region_def region_pages_def)

lemma map_frame_refl [simp]: "map_frame m pm m pm"
  by (auto simp: map_frame_def intro: exI [of _ "sm_curr_table m"])

lemma map_frame_trans:
  assumes 1: "map_frame m pm m1 pm1" and 2: "map_frame m1 pm1 m' pm'"
  shows "map_frame m pm m' pm'"
proof -
  from 1 obtain n where n: "m1 = m\<lparr>sm_curr_table := n\<rparr>" unfolding map_frame_def by blast
  from 2 obtain n' where n': "m' = m1\<lparr>sm_curr_table := n'\<rparr>" unfolding map_frame_def by blast
  have "slots_kept m (pm_contents pm) (pm_contents pm1)" "slots_kept m1 (pm_contents pm1) (pm_contents pm')"
    using 1 2 unfolding map_frame_def by blast+
  then have "slots_kept m (pm_contents pm) (pm_contents pm')"
    by (rule slots_kept_trans) (simp add: n)
  moreover have "m' = m\<lparr>sm_curr_table := n'\<rparr>" by (simp add: n n')
  moreover have "m_ram pm' = m_ram pm" "\<forall>mm. pm_inv mm pm \<longrightarrow> pm_inv mm pm'"
    using 1 2 unfolding map_frame_def by simp_all
  ultimately show ?thesis unfolding map_frame_def by blast
qed

text \<open>Going down through a usable pointer.\<close>

lemma reaches_down:
  assumes kept: "slots_kept m c c'" and present: "c (t * PAGE_SIZE) \<noteq> None"
    and pte: "slot c t va (Suc i) = pte" "\<not> pte_bad pte" "\<not> pte_leaf pte"
  shows "reaches c' va (Suc i) t x \<longleftrightarrow> reaches c' va i (pte_ppn pte) x"
  using usable_slot_kept [OF kept, of t va "Suc i"] slots_keptD(2) [OF kept present] pte by simp

lemma map_post_down:
  assumes post: "map_post mp va i (pte_ppn pte) m pm s m' pm'" and present: "pm_contents pm (t * PAGE_SIZE) \<noteq> None"
    and pte: "slot (pm_contents pm) t va (Suc i) = pte" "\<not> pte_bad pte" "\<not> pte_leaf pte"
  shows "map_post mp va (Suc i) t m pm s m' pm'"
proof -
  have "slots_kept m (pm_contents pm) (pm_contents pm')"
    using post by (simp add: map_post_def map_frame_def)
  note r = reaches_down [OF this present pte] reaches_down [OF slots_kept_refl [of m] present pte]
  have "missing (pm_contents pm) va (Suc i) t = missing (pm_contents pm) va i (pte_ppn pte)"
    using pte by (auto simp: pte_bad_def)
  with post show ?thesis unfolding map_post_def r by auto
qed

text \<open>The same for a pointer that was just added, in memory \<open>pm1\<close>, to an empty table.\<close>

lemma map_post_new:
  assumes post: "map_post mp va i (pte_ppn pte) m1 pm1 s m' pm'" and present: "pm_contents pm1 (t * PAGE_SIZE) \<noteq> None"
    and pte: "slot (pm_contents pm1) t va (Suc i) = pte" "\<not> pte_bad pte" "\<not> pte_leaf pte"
    and frame: "map_frame m pm m1 pm1" and m1: "m1 = m\<lparr>sm_curr_table := n\<rparr>" "unat n = Suc (unat (sm_curr_table m))"
    and empty: "\<not> flag_v (ucast (slot (pm_contents pm1) (pte_ppn pte) va i))" "\<not> flag_v (ucast (slot (pm_contents pm) t va (Suc i)))"
  shows "map_post mp va (Suc i) t m pm s m' pm'"
proof -
  have f: "map_frame m1 pm1 m' pm'" using post by (simp add: map_post_def)
  have "slots_kept m1 (pm_contents pm1) (pm_contents pm')" using f by (simp add: map_frame_def)
  note r = reaches_down [OF this present pte]
  have "\<not> (flag_v (ucast x) \<and> reaches (pm_contents pm1) va i (pte_ppn pte) x)" for x
    using reaches_valid empty(1) by blast
  then have "s = OK \<and> reaches (pm_contents pm') va i (pte_ppn pte) (new_pte (mp_ppn mp) (mp_flags mp)) \<and>
        unat (sm_curr_table m') = unat (sm_curr_table m) + missing (pm_contents pm) va (Suc i) t \<or>
      s = MAPPER_TABLE_REGION_END \<and>
        unat (sm_table_region_end m) < unat (sm_curr_table m) + missing (pm_contents pm) va (Suc i) t"
    using post m1 missing_empty [OF empty(1)] missing_empty [OF empty(2)] unfolding map_post_def by auto
  with post map_frame_trans [OF frame f] show ?thesis unfolding map_post_def r by auto
qed

text \<open>One round of the walk: what it finds in the entry, what it does, and where it goes on.\<close>

lemma map_walk_step:
  assumes ok: "mapper_ok m lv (pm_contents pm)" and pm: "pm_ok pm" and t: "used_table m t" "lv t = i" and i: "i < 5"
  obtains
    (mapped) "i = 0" and "flag_v (ucast (slot (pm_contents pm) t va 0))"
      and "map_walk mp va i t m pm = Inr (MAPPER_ALREADY_MAPPED, m, pm)"
  | (leaf) pm' where "i = 0" and "\<not> flag_v (ucast (slot (pm_contents pm) t va 0))"
      and "map_walk mp va i t m pm = Inr (OK, m, pm')"
      and "m_ram pm' = m_ram pm" and "\<forall>mm. pm_inv mm pm \<longrightarrow> pm_inv mm pm'"
      and "pm_contents pm' = mem_put (pte_addr t va 0) (new_pte (mp_ppn mp) (mp_flags mp)) (pm_contents pm)"
  | (down) k pte where "i = Suc k" and "pte = slot (pm_contents pm) t va (Suc k)" and "flag_v (ucast pte)"
      and "\<not> pte_bad pte" and "\<not> pte_leaf pte" and "used_table m (pte_ppn pte)" and "lv (pte_ppn pte) = k"
      and "map_walk mp va i t m pm = map_walk mp va k (pte_ppn pte) m pm"
  | (full) k where "i = Suc k" and "\<not> flag_v (ucast (slot (pm_contents pm) t va (Suc k)))"
      and "sm_curr_table m = sm_table_region_end m"
      and "map_walk mp va i t m pm = Inr (MAPPER_TABLE_REGION_END, m, pm)"
  | (fresh) k m1 pm1 where "i = Suc k" and "\<not> flag_v (ucast (slot (pm_contents pm) t va (Suc k)))"
      and "sm_curr_table m \<noteq> sm_table_region_end m" and "m1 = m\<lparr>sm_curr_table := sm_curr_table m + 1\<rparr>"
      and "m_ram pm1 = m_ram pm" and "\<forall>mm. pm_inv mm pm \<longrightarrow> pm_inv mm pm1"
      and "pm_contents pm1 = mem_put (pte_addr t va (Suc k)) (new_pte (sm_curr_table m) V_MASK) (pm_contents pm)"
      and "mapper_ok m1 (lv(sm_curr_table m := k)) (pm_contents pm1)"
      and "in_region m (sm_curr_table m)" and "used_table m1 (sm_curr_table m)"
      and "pte_ppn (new_pte (sm_curr_table m) V_MASK) = sm_curr_table m"
      and "map_walk mp va i t m pm = map_walk mp va k (sm_curr_table m) m1 pm1"
proof -
  let ?c = "pm_contents pm" and ?n = "sm_curr_table m"
  have reg: "in_region m t" using used_in_region [OF ok t(1)] .
  then have present: "?c (t * PAGE_SIZE) \<noteq> None" using mapper_okD(6) [OF ok] by blast
  note unfold = map_walk_unfold [OF i present]
  show thesis
  proof (cases i)
    case 0
    note unfold = unfold [of mp va, unfolded 0]
    show thesis
    proof (cases "flag_v (ucast (slot ?c t va 0))")
      case True
      with 0 show thesis by (intro mapped) (simp_all add: unfold Let_def)
    next
      case False
      obtain p pm' where w: "PhysMemory_write (pte_addr t va 0) (new_pte (mp_ppn mp) (mp_flags mp)) pm =
            Inr (\<lparr>wr_status = OK, wr_host_page_ptr = Some p\<rparr>, pm')"
        and pm': "m_ram pm' = m_ram pm" "pm_contents pm' = mem_put (pte_addr t va 0) (new_pte (mp_ppn mp) (mp_flags mp)) ?c"
          "\<forall>mm. pm_inv mm pm \<longrightarrow> pm_inv mm pm'"
        by (rule write_pte [OF pm present])
      with 0 False show thesis by (intro leaf [of pm']) (simp_all add: unfold Let_def)
    qed
  next
    case (Suc k)
    note unfold = unfold [of mp va, unfolded Suc]
    show thesis
    proof (cases "flag_v (ucast (slot ?c t va (Suc k)))")
      case True
      from mapper_ok_entry [OF ok t(1) True] t(2) Suc
      show thesis by (intro down [OF Suc refl True]) (simp_all add: unfold True Let_def)
    next
      case False
      show thesis
      proof (cases "?n = sm_table_region_end m")
        case True
        with False show thesis by (intro full [OF Suc]) (simp_all add: unfold Let_def Suc)
      next
        case room: False
        obtain p pm1 where w: "PhysMemory_write (pte_addr t va (Suc k)) (new_pte ?n V_MASK) pm =
              Inr (\<lparr>wr_status = OK, wr_host_page_ptr = Some p\<rparr>, pm1)"
          and pm1: "m_ram pm1 = m_ram pm" "pm_contents pm1 = mem_put (pte_addr t va (Suc k)) (new_pte ?n V_MASK) ?c"
            "\<forall>mm. pm_inv mm pm \<longrightarrow> pm_inv mm pm1"
          by (rule write_pte [OF pm present])
        have ok1: "mapper_ok (m\<lparr>sm_curr_table := ?n + 1\<rparr>) (lv(?n := k)) (pm_contents pm1)"
          unfolding pm1 using ok t Suc room by (intro mapper_ok_pointer) simp_all
        have n: "used_table (m\<lparr>sm_curr_table := ?n + 1\<rparr>) ?n"
          using mapper_okD(2,3) [OF ok] mapper_okD(3) [OF ok1] room by simp unat_arith
        then have reg_n: "in_region m ?n" using used_in_region [OF ok1] by simp
        then have ppn: "pte_ppn (new_pte ?n V_MASK) = ?n" using region_bound [OF ok] by (simp add: take_bit_44_self)
        show thesis
          using fresh [OF Suc False room refl pm1(1,3,2) ok1 reg_n n ppn] False room w ppn
          by (simp add: unfold Let_def Suc del: pte_ppn_new_pte)
      qed
    qed
  qed
qed

lemma fresh_table_empty:
  assumes ok: "mapper_ok m lv c" and t: "used_table m t" and n: "in_region m (sm_curr_table m)"
  shows "\<not> flag_v (ucast (slot (mem_put (pte_addr t va i) (pte :: PTE) c) (sm_curr_table m) va' j))"
proof -
  have "pte_addr t va i \<noteq> pte_addr (sm_curr_table m) va' j"
    using region_pte_addr_inj [OF ok used_in_region [OF ok t] n] t by auto
  then show ?thesis using mapper_okD(7) [OF ok, of "sm_curr_table m"] n by (simp add: slot_put in_region_def)
qed

lemma map_walk_spec:
  assumes "mapper_ok m lv (pm_contents pm)" and "pm_ok pm" and "used_table m t" and "lv t = i" and "i < 5"
    and "\<not> in_region m (take_bit 44 (mp_ppn mp))"
  shows "\<exists>s m' pm'. map_walk mp va i t m pm = Inr (s, m', pm') \<and> map_post mp va i t m pm s m' pm'"
  using assms
proof (induction i arbitrary: t m lv pm rule: less_induct)
  case (less i)
  let ?c = "pm_contents pm"
  note ok = less.prems(1)
  have reg: "in_region m t" using used_in_region [OF ok less.prems(3)] .
  then have present: "?c (t * PAGE_SIZE) \<noteq> None" using mapper_okD(6) [OF ok] by blast
  from less.prems(1-5) show ?case
  proof (cases rule: map_walk_step [where va = va and mp = mp])
    case mapped
    then show ?thesis using ok present by (auto simp: map_post_def)
  next
    case (leaf pm')
    have "mapper_ok m lv (pm_contents pm')" unfolding leaf(6) using less.prems leaf(1) by (intro mapper_ok_leaf) simp_all
    moreover have "slots_kept m ?c (pm_contents pm')" unfolding leaf(6) using reg leaf(2) by (rule slots_kept_put)
    moreover have "reaches (pm_contents pm') va 0 t (new_pte (mp_ppn mp) (mp_flags mp))"
      using mem_put_dom [of ?c, OF present] by (simp add: leaf(6) slot_put)
    ultimately have "map_post mp va 0 t m pm OK m pm'"
      using leaf(4,5) by (auto simp: map_post_def map_frame_def intro: exI [of _ "sm_curr_table m"])
    with leaf(1,3) show ?thesis by simp
  next
    case (down k pte)
    from less.IH [of k, OF _ ok less.prems(2) down(6,7)] less.prems(5,6) down(1) obtain s m' pm'
      where "map_walk mp va k (pte_ppn pte) m pm = Inr (s, m', pm')" "map_post mp va k (pte_ppn pte) m pm s m' pm'"
      by auto
    with down map_post_down [OF this(2) present down(2) [symmetric] down(4,5)] show ?thesis by simp
  next
    case (full k)
    then show ?thesis using ok by (auto simp: map_post_def)
  next
    case (fresh k m1 pm1)
    let ?n = "sm_curr_table m" and ?pte = "new_pte (sm_curr_table m) V_MASK"
    from less.IH [of k, OF _ fresh(8) _ fresh(10)] less.prems(2,5,6) fresh(1,4,5) obtain s m' pm'
      where post: "map_walk mp va k ?n m1 pm1 = Inr (s, m', pm')" "map_post mp va k ?n m1 pm1 s m' pm'"
      by auto
    have "map_frame m pm m1 pm1"
      using slots_kept_put [OF reg fresh(2)] fresh(4-7) by (auto simp: map_frame_def)
    moreover have "slot (pm_contents pm1) t va (Suc k) = ?pte" by (simp add: fresh(7) slot_put)
    moreover have "pm_contents pm1 (t * PAGE_SIZE) \<noteq> None"
      unfolding fresh(7) using mem_put_dom [of ?c, OF present] .
    moreover have "\<not> flag_v (ucast (slot (pm_contents pm1) ?n va k))"
      unfolding fresh(7) using fresh_table_empty [OF ok less.prems(3) fresh(9)] .
    moreover have "unat (?n + 1) = Suc (unat ?n)"
      using region_bound [OF ok fresh(9)] by (simp add: unat_word_ariths word_less_nat_alt)
    ultimately have "map_post mp va (Suc k) t m pm s m' pm'"
      using map_post_new [of mp va k ?pte m1 pm1 s m' pm' t m pm "?n + 1"] fresh(2,4,11) post(2)
      by (simp del: pte_ppn_new_pte)
    with fresh(1,12) post(1) show ?thesis by auto
  qed
qed

section \<open>Mapping a page\<close>

lemma mapper_map_spec:
  assumes ok: "mapper_ok m lv (pm_contents pm)" and pm: "pm_ok pm" and ppn: "mp_ppn mp < 2 ^ 44"
  shows "\<exists>s m' pm'. mapper_map mp m pm = Inr (s, m', pm') \<and>
    (if in_region m (mp_ppn mp) then s = MAPPER_TABLE_REGION_PAGE_MAPPED \<and> m' = m \<and> pm' = pm
     else map_post mp (mp_vpn mp * PAGE_SIZE) (mode_levels (sm_mode m) - 1) (sm_table_region_begin m) m pm s m' pm')"
proof (cases "in_region m (mp_ppn mp)")
  case True
  then show ?thesis by (simp add: mapper_map_def in_region_def)
next
  case False
  have "\<exists>s m' pm'. map_walk mp (mp_vpn mp * PAGE_SIZE) (mode_levels (sm_mode m) - 1) (sm_table_region_begin m) m pm =
      Inr (s, m', pm') \<and>
    map_post mp (mp_vpn mp * PAGE_SIZE) (mode_levels (sm_mode m) - 1) (sm_table_region_begin m) m pm s m' pm'"
    using ok pm mapper_okD(2,5) [OF ok] mode_levels_le False ppn
    by (intro map_walk_spec [where lv = lv]) (simp_all add: take_bit_44_self)
  with False mapper_okD(1) [OF ok] show ?thesis by (auto simp: mapper_map_def in_region_def not_le)
qed

text \<open>The number of tables that the mapper lacks for a page.\<close>

definition path_missing :: "SimpleMemoryMapper \<Rightarrow> VPN \<Rightarrow> (64 word \<rightharpoonup> byte) \<Rightarrow> nat" where
  "path_missing m vpn c = missing c (vpn * PAGE_SIZE) (mode_levels (sm_mode m) - 1) (sm_table_region_begin m)"

lemma path_missing_le: "path_missing m vpn c \<le> mode_levels (sm_mode m) - 1"
  unfolding path_missing_def by (rule missing_le)

text \<open>How \<open>map\<close> ends for a page outside the table region.\<close>

lemma mapper_map_out:
  assumes ok: "mapper_ok m lv (pm_contents pm)" and pm: "pm_ok pm" and ppn: "mp_ppn mp < 2 ^ 44"
    and out: "\<not> in_region m (mp_ppn mp)"
  shows "\<exists>s m' pm'. mapper_map mp m pm = Inr (s, m', pm') \<and> map_frame m pm m' pm' \<and>
    (\<exists>lv'. mapper_ok m' lv' (pm_contents pm')) \<and>
    (s = OK \<and> unat (sm_curr_table m') = unat (sm_curr_table m) + path_missing m (mp_vpn mp) (pm_contents pm) \<or>
     s = MAPPER_ALREADY_MAPPED \<and> m' = m \<and> pm' = pm \<and>
       (\<exists>pte. flag_v (ucast pte) \<and> reaches (pm_contents pm) (mp_vpn mp * PAGE_SIZE) (mode_levels (sm_mode m) - 1) (sm_table_region_begin m) pte) \<or>
     s = MAPPER_TABLE_REGION_END \<and>
       unat (sm_table_region_end m) < unat (sm_curr_table m) + path_missing m (mp_vpn mp) (pm_contents pm))"
  using mapper_map_spec [OF ok pm ppn] out unfolding map_post_def path_missing_def by (simp; blast)

text \<open>The \<open>satp\<close> under which the mapper's tables are in force.\<close>

definition mapper_satp :: "SimpleMemoryMapper \<Rightarrow> SATP64 \<Rightarrow> bool" where
  "mapper_satp m satp \<longleftrightarrow> m_mode satp = sm_mode m \<and> m_ppn satp = sm_table_region_begin m"

lemma vpn_field_cong: "page_base va = page_base va' \<Longrightarrow> vpn_field va i = vpn_field va' i"
  by (metis vpn_field_page_base)

lemma leaf_at_page_base:
  assumes "page_base va = page_base va'" and "leaf_at c va i t pte j"
  shows "leaf_at c va' i t pte j"
proof -
  have "walk_c c va i t = walk_c c va' i t" using assms(1) by (metis walk_c_page_base)
  with assms(2) show ?thesis by (simp flip: walk_leaf_iff)
qed

lemma new_pte_not_bad:
  "flag_v f \<Longrightarrow> flag_r f \<or> \<not> flag_w f \<Longrightarrow> \<not> pte_bad (new_pte ppn f)"
  by (auto simp: pte_bad_def new_pte_unreserved)

lemma flag_DEFAULT [simp]:
  "flag_r (f OR DEFAULT_FLAGS) = flag_r f" "flag_w (f OR DEFAULT_FLAGS) = flag_w f"
  "flag_x (f OR DEFAULT_FLAGS) = flag_x f" "flag_u (f OR DEFAULT_FLAGS) = flag_u f"
proof -
  have same: "(f OR DEFAULT_FLAGS) AND push_bit n 1 = f AND push_bit n 1" if "n \<in> {1, 2, 3, 4}" for n
    using that
    by (intro bit_word_eqI) (auto simp: DEFAULT_FLAGS_def V_MASK_def A_MASK_def D_MASK_def bit_simps push_bit_of_1)
  show "flag_r (f OR DEFAULT_FLAGS) = flag_r f" "flag_w (f OR DEFAULT_FLAGS) = flag_w f"
    "flag_x (f OR DEFAULT_FLAGS) = flag_x f" "flag_u (f OR DEFAULT_FLAGS) = flag_u f"
    unfolding flag_r_def flag_w_def flag_x_def flag_u_def R_MASK_def W_MASK_def X_MASK_def U_MASK_def
    by (simp_all only: same insert_iff simp_thms)
qed

lemma access_allowed_DEFAULT [simp]:
  "access_allowed priv acc (f OR DEFAULT_FLAGS) ms = access_allowed priv acc f ms"
  by (cases acc) (simp_all add: access_allowed_def)

lemma leaf_pa_0: "leaf_pa pte va 0 = pte_ppn pte * PAGE_SIZE + page_offset va"
proof -
  have "pte_ppn pte * PAGE_SIZE = push_bit 12 (pte_ppn pte)" by (simp add: push_bit_eq_mult PAGE_SIZE_def PAGE_BIT_SIZE_def)
  moreover have "push_bit 12 (pte_ppn pte) + page_offset va = push_bit 12 (pte_ppn pte) OR page_offset va"
    by (rule disjunctive_add) (auto simp only: bit_push_bit_iff bit_page_offset_iff)
  moreover have "page_offset va = take_bit 12 va"
    by (rule bit_word_eqI) (auto simp: bit_page_offset_iff bit_take_bit_iff)
  ultimately show ?thesis by (simp add: leaf_pa_def)
qed

lemma mapper_map_maps:
  assumes ok: "mapper_ok m lv (pm_contents pm)" and pm: "pm_ok pm"
    and map: "mapper_map (MemoryMapping_new flags vpn ppn) m pm = Inr (OK, m', pm')" and ppn: "ppn < 2 ^ 44"
    and flags: "flag_r flags \<or> (flag_x flags \<and> \<not> flag_w flags)"
    and satp: "mapper_satp m satp" and va: "page_base va = vpn * PAGE_SIZE"
    and allowed: "access_allowed priv acc flags ms"
  shows "translate_c priv acc va ms satp (pm_contents pm') =
    Inr \<lparr>mmu_status = OK, phys_addr = ppn * PAGE_SIZE + page_offset va\<rparr>"
proof -
  let ?mp = "MemoryMapping_new flags vpn ppn" and ?f = "flags OR DEFAULT_FLAGS"
  let ?l = "mode_levels (sm_mode m) - 1"
  have mp [simp]: "mp_ppn ?mp = ppn" "mp_vpn ?mp = vpn" "mp_flags ?mp = ?f" by (simp_all add: MemoryMapping_new_def)
  have "reaches (pm_contents pm') (vpn * PAGE_SIZE) ?l (sm_table_region_begin m) (new_pte ppn ?f)"
    using mapper_map_spec [OF ok pm, of ?mp] map ppn by (auto simp: map_post_def split: if_splits)
  moreover have "pte_leaf (new_pte ppn ?f)" "\<not> pte_bad (new_pte ppn ?f)"
    using flags mapping_flags_DEFAULT by (auto simp: pte_leaf_def new_pte_not_bad)
  ultimately have "leaf_at (pm_contents pm') (vpn * PAGE_SIZE) ?l (sm_table_region_begin m) (new_pte ppn ?f) 0"
    by (intro reaches_leaf_at)
  then have "leaf_at (pm_contents pm') va ?l (sm_table_region_begin m) (new_pte ppn ?f) 0"
    by (rule leaf_at_page_base [rotated]) (use va in \<open>simp add: page_base_aligned\<close>)
  moreover have "leaf_pa (new_pte ppn ?f) va 0 = ppn * PAGE_SIZE + page_offset va"
    using ppn by (simp add: leaf_pa_0 take_bit_44_self)
  ultimately show ?thesis
    using satp allowed mapper_okD(1) [OF ok] mapping_flags_DEFAULT
    by (auto simp: translate_c_OK_iff mapper_satp_def superpage_ok_def intro!: exI [of _ "new_pte ppn ?f"])
qed

lemma translate_slots_kept:
  assumes "slots_kept m c c'" and "translate_c priv acc va ms satp c = Inr \<lparr>mmu_status = OK, phys_addr = pa\<rparr>"
  shows "translate_c priv acc va ms satp c' = Inr \<lparr>mmu_status = OK, phys_addr = pa\<rparr>"
  using assms(2) leaf_at_slots_kept [OF _ assms(1)] by (auto simp: translate_c_OK_iff split: if_splits) blast+

lemma mapper_map_frame:
  assumes ok: "mapper_ok m lv (pm_contents pm)" and pm: "pm_ok pm" and ppn: "mp_ppn mp < 2 ^ 44"
    and map: "mapper_map mp m pm = Inr (s, m', pm')"
  shows "map_frame m pm m' pm' \<and> (\<exists>lv'. mapper_ok m' lv' (pm_contents pm'))"
  using mapper_map_spec [OF ok pm ppn] map ok by (auto simp: map_post_def split: if_splits)

text \<open>
  C9: after a successful \<open>map\<close>, every address of the mapped virtual page translates to the same offset of
  the mapped physical page, for every access the flags of the mapping allow.
\<close>

theorem map_then_translate:
  assumes "mapper_ok m lv (pm_contents pm)" and "pm_ok pm"
    and "mapper_map (MemoryMapping_new flags vpn ppn) m pm = Inr (OK, m', pm')" and "ppn < 2 ^ 44"
    and "flag_r flags \<or> (flag_x flags \<and> \<not> flag_w flags)"
    and "mapper_satp m satp" and "page_base va = vpn * PAGE_SIZE"
    and "access_allowed priv acc flags ms"
  shows "translate priv acc va ms satp pm' =
    Inr \<lparr>mmu_status = OK, phys_addr = ppn * PAGE_SIZE + page_offset va\<rparr>"
  unfolding translate_eq using assms by (rule mapper_map_maps)

text \<open>
  C10: \<open>map\<close> changes no translation that was in force, whatever status it returns.
\<close>

theorem map_keeps_translations:
  assumes ok: "mapper_ok m lv (pm_contents pm)" and pm: "pm_ok pm" and ppn: "mp_ppn mp < 2 ^ 44"
    and map: "mapper_map mp m pm = Inr (s, m', pm')" and satp: "mapper_satp m satp"
    and tr: "translate priv acc va ms satp pm = Inr \<lparr>mmu_status = OK, phys_addr = pa\<rparr>"
  shows "translate priv acc va ms satp pm' = Inr \<lparr>mmu_status = OK, phys_addr = pa\<rparr>"
  using mapper_map_frame [OF ok pm ppn map] translate_slots_kept tr unfolding translate_eq map_frame_def by blast

section \<open>A new mapper\<close>

text \<open>The constructor adds zero-filled pages for the whole table region and changes nothing else.\<close>

definition pages_between :: "PPN \<Rightarrow> PPN \<Rightarrow> 64 word set" where
  "pages_between b e = {t * PAGE_SIZE | t. b \<le> t \<and> t < e}"

lemma pages_between_step:
  assumes "b < e"
  shows "pages_between b e = insert (b * PAGE_SIZE) (pages_between (b + 1) e)"
proof -
  have "unat e < 2 ^ LENGTH(64)" by (rule unsigned_less)
  then have "unat (b + 1) = unat b + 1"
    using assms by (simp add: unat_word_ariths word_less_nat_alt)
  then have step: "b + 1 \<le> t \<longleftrightarrow> b < t" for t
    by (simp add: word_le_nat_alt word_less_nat_alt Suc_le_eq)
  have "b \<le> t \<and> t < e \<longleftrightarrow> t = b \<or> b + 1 \<le> t \<and> t < e" for t
    unfolding step using assms by (cases "t = b") (auto intro: le_neq_trans)
  then have "pages_between b e = {t * PAGE_SIZE | t. t = b \<or> b + 1 \<le> t \<and> t < e}"
    by (simp add: pages_between_def)
  also have "\<dots> = insert (b * PAGE_SIZE) (pages_between (b + 1) e)"
    unfolding pages_between_def by blast
  finally show ?thesis .
qed

lemma map_tables_unfold:
  "map_tables mm b e pm = Inr pm' \<longleftrightarrow>
     (if b = e then pm' = pm
      else \<exists>pm1. addRAMPage mm (b * PAGE_SIZE) pm = Inr (True, pm1) \<and> map_tables mm (b + 1) e pm1 = Inr pm')"
  unfolding map_tables.simps [of mm b e pm] by (auto simp: res_simps)

lemma map_tables_spec:
  assumes mm: "mmap_contract mm"
  shows "pm_inv mm pm \<Longrightarrow> b \<le> e \<Longrightarrow> map_tables mm b e pm = Inr pm' \<Longrightarrow>
    pm_inv mm pm' \<and>
    pm_contents pm' = (\<lambda>a. if page_base a \<in> pages_between b e then Some 0 else pm_contents pm a)"
proof (induction "unat (e - b)" arbitrary: b pm)
  case 0
  then have "b = e" by (metis eq_iff_diff_eq_0 unat_eq_0)
  with 0 show ?case using map_tables_unfold [of mm e e] by (auto simp: pages_between_def fun_eq_iff)
next
  case (Suc n)
  then have ne: "b \<noteq> e" by auto
  then have lt: "b < e" using Suc.prems by simp
  from Suc.prems(3) ne obtain pm1
    where add: "addRAMPage mm (b * PAGE_SIZE) pm = Inr (True, pm1)"
      and rest: "map_tables mm (b + 1) e pm1 = Inr pm'"
    unfolding map_tables_unfold [of mm b] by auto
  note pm1 = addRAMPage_spec [OF mm Suc.prems(1) add]
  have "n = unat (e - (b + 1))" using Suc.hyps(2) ne by (simp add: unat_minus_one diff_diff_eq [symmetric])
  moreover have "b + 1 \<le> e" using lt by (simp add: inc_le)
  ultimately have "pm_inv mm pm' \<and>
      pm_contents pm' = (\<lambda>a. if page_base a \<in> pages_between (b + 1) e then Some 0 else pm_contents pm1 a)"
    using Suc.hyps(1) pm1 rest by blast
  then show ?case using pm1 by (auto simp: pages_between_step [OF lt] fun_eq_iff)
qed

lemma slot_zero:
  assumes "\<And>a. page_base a = t * PAGE_SIZE \<Longrightarrow> c a = Some 0"
  shows "slot c t va i = 0"
proof -
  have "word_of_bytes (map (\<lambda>_. 0) xs) = (0 :: PTE)" for xs :: "nat list"
    by (induction xs) simp_all
  moreover have "c (pte_addr t va i + of_nat k) = Some 0" if "k < 8" for k
    using in_page_step(1) [OF pte_addr_in_page that] assms by (simp add: pte_addr_page)
  then have "map (\<lambda>k. the (c (pte_addr t va i + of_nat k))) [0..<8] = map (\<lambda>_. 0) [0..<8]" by auto
  moreover have "slot c t va i = word_of_bytes (map (\<lambda>k. the (c (pte_addr t va i + of_nat k))) [0..<8])"
    by (simp add: slot_def mem_word_def)
  ultimately show ?thesis by (simp only:)
qed

lemma SimpleMemoryMapper_new_ok:
  assumes mm: "mmap_contract mm" and inv: "pm_inv mm pm" and mode: "mode \<noteq> BARE" and e: "e \<le> 2 ^ 44"
    and new: "SimpleMemoryMapper_new mm mode b e pm = Inr (m, pm')"
  shows "pm_inv mm pm' \<and> mapper_ok m (\<lambda>_. mode_levels mode - 1) (pm_contents pm') \<and>
     m = \<lparr>sm_mode = mode, sm_table_region_begin = b, sm_curr_table = b + 1, sm_table_region_end = e\<rparr> \<and>
     pm_contents pm' = (\<lambda>a. if page_base a \<in> region_pages m then Some 0 else pm_contents pm a)"
proof -
  from new have lt: "b < e" and tab: "map_tables mm b e pm = Inr pm'"
    and m: "m = \<lparr>sm_mode = mode, sm_table_region_begin = b, sm_curr_table = b + 1, sm_table_region_end = e\<rparr>"
    by (auto simp: SimpleMemoryMapper_new_def res_simps)
  have reg: "pages_between b e = region_pages m" by (simp add: pages_between_def region_pages_def in_region_def m)
  have c': "pm_inv mm pm'" "pm_contents pm' = (\<lambda>a. if page_base a \<in> region_pages m then Some 0 else pm_contents pm a)"
    using map_tables_spec [OF mm inv _ tab] lt by (auto simp: reg)
  have zero: "slot (pm_contents pm') t va i = 0" if "in_region m t" for t va i
    by (rule slot_zero) (use that c'(2) in \<open>auto simp: region_pages_def\<close>)
  have used: "b + 1 \<le> e" "b < b + 1" using lt by (auto simp: inc_le) unat_arith
  have "mapper_ok m (\<lambda>_. mode_levels mode - 1) (pm_contents pm')"
  proof (rule mapper_okI)
    show "pm_contents pm' (t * PAGE_SIZE) \<noteq> None" if "in_region m t" for t
      using that by (auto simp: c'(2) region_pages_def page_base_aligned)
    show "\<not> flag_v (ucast (slot (pm_contents pm') t va i))"
      if "sm_curr_table m \<le> t" "t < sm_table_region_end m" for t va i
    proof -
      have "in_region m t" using that used by (auto simp: in_region_def m)
      then show ?thesis using zero by (simp add: flag_v_def)
    qed
  next
    fix t va i assume "used_table m t" "flag_v (ucast (slot (pm_contents pm') t va i))"
    moreover from this(1) have "in_region m t" using used by (auto simp: in_region_def m)
    ultimately have False using zero by (simp add: flag_v_def)
    then show "if mode_levels mode - 1 = 0 then \<not> in_region m (pte_ppn (slot (pm_contents pm') t va i))
         else \<not> pte_bad (slot (pm_contents pm') t va i) \<and> \<not> pte_leaf (slot (pm_contents pm') t va i) \<and>
              used_table m (pte_ppn (slot (pm_contents pm') t va i)) \<and>
              Suc (mode_levels mode - 1) = mode_levels mode - 1" ..
  qed (use m mode used e in simp_all)
  with c' m show ?thesis by simp
qed

section \<open>Protection of the tables\<close>

text \<open>The levels of the used tables form a closed family.\<close>

definition level_pages :: "SimpleMemoryMapper \<Rightarrow> (PPN \<Rightarrow> nat) \<Rightarrow> nat \<Rightarrow> 64 word set" where
  "level_pages m lv i = {t * PAGE_SIZE | t. used_table m t \<and> lv t = i}"

lemma slot_page_cong: "t * PAGE_SIZE = t' * PAGE_SIZE \<Longrightarrow> slot c t va i = slot c t' va i"
  by (simp add: slot_def pte_addr_def)

lemma mapper_ok_closed:
  assumes ok: "mapper_ok m lv c"
  shows "tables_closed c (level_pages m lv)"
  unfolding tables_closed_def slot_def [symmetric] Let_def
proof (intro allI impI)
  fix t va i
  assume "t * PAGE_SIZE \<in> level_pages m lv (Suc i) \<and> c (t * PAGE_SIZE) \<noteq> None"
  then obtain t' where t': "used_table m t'" "lv t' = Suc i" "t * PAGE_SIZE = t' * PAGE_SIZE"
    by (auto simp: level_pages_def)
  assume "\<not> pte_bad (slot c t va (Suc i)) \<and> \<not> pte_leaf (slot c t va (Suc i))"
  then have "flag_v (ucast (slot c t' va (Suc i)))"
    using slot_page_cong [OF t'(3), of c va "Suc i"] by (simp add: pte_bad_def)
  from mapper_ok_entry [OF ok t'(1) this] t'(2)
  show "pte_ppn (slot c t va (Suc i)) * PAGE_SIZE \<in> level_pages m lv i"
    unfolding slot_page_cong [OF t'(3), of c va "Suc i"] level_pages_def by auto
qed

text \<open>A leaf below a used table is at level 0 and maps no table.\<close>

lemma mapper_leaf_outside:
  assumes ok: "mapper_ok m lv c" and "leaf_at c va i t pte j" and "used_table m t" and "lv t = i"
  shows "j = 0 \<and> \<not> in_region m (pte_ppn pte)"
  using assms(2-)
proof (induction rule: leaf_at.induct)
  case (here t pte i)
  then have "flag_v (ucast (slot c t va i))" by (simp add: slot_def pte_bad_def)
  from mapper_ok_entry [OF ok here(5) this] here show ?case by (simp add: slot_def split: if_splits)
next
  case (below t pte i pte' j)
  then have "flag_v (ucast (slot c t va (Suc i)))" by (simp add: slot_def pte_bad_def)
  from mapper_ok_entry [OF ok below(7) this] below show ?case by (simp add: slot_def)
qed

lemma pte_ppn_less: "pte_ppn pte < 2 ^ 44"
  using unat_field_less [of 53 10 pte] by (simp add: word_less_nat_alt)

lemma page_base_leaf_pa_0: "page_base (leaf_pa pte va 0) = pte_ppn pte * PAGE_SIZE"
  unfolding leaf_pa_0 using page_add_offset(1) [of "pte_ppn pte * PAGE_SIZE" "page_offset va"]
  by (simp add: unat_page_offset_less)

lemma mapped_page_outside:
  assumes ok: "mapper_ok m lv c" and satp: "mapper_satp m satp"
    and tr: "translate_c priv acc va ms satp c = Inr \<lparr>mmu_status = OK, phys_addr = pa\<rparr>"
  shows "page_base pa \<notin> region_pages m"
proof
  assume "page_base pa \<in> region_pages m"
  then obtain t where t: "in_region m t" "page_base pa = t * PAGE_SIZE" by (auto simp: region_pages_def)
  from tr satp mapper_okD(1) [OF ok] obtain pte j where
    leaf: "leaf_at c va (mode_levels (sm_mode m) - 1) (sm_table_region_begin m) pte j" "pa = leaf_pa pte va j"
    by (auto simp: translate_c_OK_iff mapper_satp_def)
  have out: "j = 0" "\<not> in_region m (pte_ppn pte)"
    using mapper_leaf_outside [OF ok leaf(1)] mapper_okD(2,5) [OF ok] by auto
  have "pte_ppn pte * PAGE_SIZE = t * PAGE_SIZE"
    using leaf(2) t(2) out(1) page_base_leaf_pa_0 by simp
  moreover have "pte_ppn pte < 2 ^ 52" "t < 2 ^ 52"
    using pte_ppn_less [of pte] region_bound [OF ok t(1)] by (auto simp: word_less_nat_alt)
  ultimately have "pte_ppn pte = t" using page_mult_inj by blast
  with out t(1) show False by simp
qed

lemma mapper_ok_protected:
  assumes ok: "mapper_ok m lv c" and satp: "mapper_satp m satp"
  shows "tables_protected ms satp c"
  unfolding tables_protected_def
proof (intro disjI2 exI conjI allI impI)
  show "tables_closed c (level_pages m lv)" by (rule mapper_ok_closed [OF ok])
  show "m_ppn satp * PAGE_SIZE \<in> level_pages m lv (mode_levels (m_mode satp) - 1)"
    using satp mapper_okD(2,5) [OF ok] by (auto simp: mapper_satp_def level_pages_def)
  show "page_base pa \<notin> level_pages m lv i"
    if "translate_c USER WRITE va ms satp c = Inr \<lparr>mmu_status = OK, phys_addr = pa\<rparr>" for va pa i
    using mapped_page_outside [OF ok satp that] used_in_region [OF ok]
    by (auto simp: level_pages_def region_pages_def)
qed

section \<open>Memory operations between calls of the mapper\<close>

lemma mapper_ok_agree:
  assumes ok: "mapper_ok m lv c" and same: "\<And>a. page_base a \<in> region_pages m \<Longrightarrow> c' a = c a"
  shows "mapper_ok m lv c'"
proof -
  have slot: "slot c' t va i = slot c t va i" if "in_region m t" for t va i
    unfolding slot_def by (rule pte_cong) (use that same in \<open>auto simp: region_pages_def\<close>)
  show ?thesis
  proof (rule mapper_okI)
    show "c' (t * PAGE_SIZE) \<noteq> None" if "in_region m t" for t
    proof -
      have "page_base (t * PAGE_SIZE) \<in> region_pages m" using that by (auto simp: region_pages_def page_base_aligned)
      then show ?thesis using mapper_okD(6) [OF ok that] same by simp
    qed
    show "\<not> flag_v (ucast (slot c' t va i))" if "sm_curr_table m \<le> t" "t < sm_table_region_end m" for t va i
      using mapper_okD(7) [OF ok that] mapper_okD(2) [OF ok] slot [of t va i] that by (auto simp: in_region_def)
    show "if lv t = 0 then \<not> in_region m (pte_ppn (slot c' t va i))
         else \<not> pte_bad (slot c' t va i) \<and> \<not> pte_leaf (slot c' t va i) \<and>
              used_table m (pte_ppn (slot c' t va i)) \<and> Suc (lv (pte_ppn (slot c' t va i))) = lv t"
      if "used_table m t" "flag_v (ucast (slot c' t va i))" for t va i
      using mapper_ok_entry [OF ok that(1), of va i] that(2)
      unfolding slot [OF used_in_region [OF ok that(1)]] by simp
  qed (use mapper_okD [OF ok] in simp_all)
qed

lemma region_page_present:
  assumes ok: "mapper_ok m lv c" and "pa \<in> region_pages m"
  shows "c pa \<noteq> None"
  using assms mapper_okD(6) [OF ok] by (auto simp: region_pages_def)

lemma addRAMPage_mapper_ok:
  assumes "mmap_contract mm" and "pm_inv mm pm" and ok: "mapper_ok m lv (pm_contents pm)"
    and "addRAMPage mm pa pm = Inr (b, pm')"
  shows "mapper_ok m lv (pm_contents pm')"
proof (rule mapper_ok_agree [OF ok])
  fix a assume "page_base a \<in> region_pages m"
  then have "pm_contents pm (page_base a) \<noteq> None" by (rule region_page_present [OF ok])
  then show "pm_contents pm' a = pm_contents pm a"
    using addRAMPage_spec [OF assms(1,2,4)] by auto
qed

section \<open>Every history of a mapper\<close>

text \<open>
  What may happen to the memory of a mapper: a call of \<open>map\<close>, whatever page and flags it is given and
  whatever it returns, the insertion of a page of RAM, and a store of any width to an address that the
  tables translate, with the privileges of any level.
\<close>

definition translated_store :: "SimpleMemoryMapper \<Rightarrow> PhysMemory \<Rightarrow> PhysMemory \<Rightarrow> bool" where
  "translated_store m pm pm' \<longleftrightarrow>
     (\<exists>priv va ms satp pa. mapper_satp m satp \<and> translate priv WRITE va ms satp pm = Inr \<lparr>mmu_status = OK, phys_addr = pa\<rparr> \<and>
        ((\<exists>(v :: 8 word) r. PhysMemory_write pa v pm = Inr (r, pm')) \<or> (\<exists>(v :: 16 word) r. PhysMemory_write pa v pm = Inr (r, pm')) \<or>
         (\<exists>(v :: 32 word) r. PhysMemory_write pa v pm = Inr (r, pm')) \<or> (\<exists>(v :: 64 word) r. PhysMemory_write pa v pm = Inr (r, pm'))))"

inductive mapper_history :: "mmap_fn \<Rightarrow> SimpleMemoryMapper \<Rightarrow> PhysMemory \<Rightarrow> SimpleMemoryMapper \<Rightarrow> PhysMemory \<Rightarrow> bool"
  for mm m0 pm0 where
  start: "mapper_history mm m0 pm0 m0 pm0"
| map_page: "mapper_history mm m0 pm0 m pm \<Longrightarrow> mp_ppn mp < 2 ^ 44 \<Longrightarrow> mapper_map mp m pm = Inr (s, m', pm') \<Longrightarrow>
    mapper_history mm m0 pm0 m' pm'"
| add_page: "mapper_history mm m0 pm0 m pm \<Longrightarrow> addRAMPage mm pa pm = Inr (b, pm') \<Longrightarrow> mapper_history mm m0 pm0 m pm'"
| store: "mapper_history mm m0 pm0 m pm \<Longrightarrow> translated_store m pm pm' \<Longrightarrow> mapper_history mm m0 pm0 m pm'"

lemma translated_write_mapper_ok:
  fixes v :: "'a::len word"
  assumes ty: "int_type TYPE('a)" and inv: "pm_inv mm pm" and ok: "mapper_ok m lv (pm_contents pm)"
    and satp: "mapper_satp m satp"
    and tr: "translate priv WRITE va ms satp pm = Inr \<lparr>mmu_status = OK, phys_addr = pa\<rparr>"
    and wr: "PhysMemory_write pa v pm = Inr (r, pm')"
  shows "pm_inv mm pm' \<and> mapper_ok m lv (pm_contents pm')"
proof (cases "in_page pa (LENGTH('a) div 8) \<and> m_mapping (m_ram pm) (page_base pa) \<noteq> None")
  case False
  then have "pm' = pm" using wr by (auto simp: PhysMemory_write_eq [OF ty] split: if_splits option.splits)
  with inv ok show ?thesis by simp
next
  case True
  then obtain p where inp: "in_page pa (LENGTH('a) div 8)" and p: "m_mapping (m_ram pm) (page_base pa) = Some p" by blast
  with wr have pm': "pm' = pm\<lparr>host_mem := host_write (ptr_add p (page_offset pa)) v (host_mem pm)\<rparr>"
    by (simp add: PhysMemory_write_eq [OF ty])
  have c: "pm_contents pm' = mem_put pa v (pm_contents pm)"
    unfolding pm' by (rule pm_contents_host_write [OF pm_inv_ok [OF inv] ty inp p])
  have out: "page_base pa \<notin> region_pages m" using mapped_page_outside [OF ok satp] tr by (simp add: translate_eq)
  have "pm_contents pm' a = pm_contents pm a" if a: "page_base a \<in> region_pages m" for a
  proof -
    have "\<not> unat (a - pa) < LENGTH('a) div 8"
    proof
      assume less: "unat (a - pa) < LENGTH('a) div 8"
      then have "page_base (pa + of_nat (unat (a - pa))) = page_base pa" using in_page_step [OF inp] by blast
      with a out show False by simp
    qed
    then show ?thesis by (simp add: c mem_put_unat)
  qed
  with PhysMemory_write_inv [OF inv ty wr] mapper_ok_agree [OF ok] show ?thesis by blast
qed

lemma mapper_history_ok:
  assumes "mapper_history mm m0 pm0 m pm" and mm: "mmap_contract mm"
    and "pm_inv mm pm0" and "mapper_ok m0 lv (pm_contents pm0)"
  shows "pm_inv mm pm \<and> (\<exists>lv. mapper_ok m lv (pm_contents pm)) \<and> (\<exists>n. m = m0\<lparr>sm_curr_table := n\<rparr>)"
  using assms(1)
proof induction
  case start
  show ?case using assms by (auto intro: exI [of _ "sm_curr_table m0"])
next
  case (map_page m pm mp s m' pm')
  then obtain lv where ok: "mapper_ok m lv (pm_contents pm)" by blast
  from mapper_map_frame [OF ok pm_inv_ok map_page(2,3)] map_page.IH show ?case
    unfolding map_frame_def by (metis SimpleMemoryMapper.update_convs(3) SimpleMemoryMapper.surjective)
next
  case (add_page m pm pa b pm')
  with addRAMPage_mapper_ok [OF mm] addRAMPage_spec [OF mm] show ?case by blast
next
  case (store m pm pm')
  then show ?case using translated_write_mapper_ok [where mm = mm and m = m and pm = pm] unfolding translated_store_def
    by (metis int_type_simps)
qed


text \<open>
  C24: as long as the tables left suffice for those the path of the page lacks, \<open>map\<close> returns without an
  abort and either maps the page, taking exactly the missing tables, or reports that it was mapped before
  and changes nothing.
\<close>

theorem map_returns:
  assumes ok: "mapper_ok m lv (pm_contents pm)" and pm: "pm_ok pm" and ppn: "mp_ppn mp < 2 ^ 44"
    and out: "\<not> in_region m (mp_ppn mp)"
    and room: "unat (sm_curr_table m) + path_missing m (mp_vpn mp) (pm_contents pm) \<le> unat (sm_table_region_end m)"
  shows "\<exists>s m' pm' lv'. mapper_map mp m pm = Inr (s, m', pm') \<and> mapper_ok m' lv' (pm_contents pm') \<and> pm_ok pm' \<and>
    (s = OK \<and> unat (sm_curr_table m') = unat (sm_curr_table m) + path_missing m (mp_vpn mp) (pm_contents pm) \<or>
     s = MAPPER_ALREADY_MAPPED \<and> m' = m \<and> pm' = pm)"
  using mapper_map_out [OF ok pm ppn out] room pm by (auto simp: map_frame_def)

end
