(* ===== verification/ElfLoad.thy ===== *)
theory ElfLoad
  imports Mapper
begin

text \<open>
  \<^verbatim>\<open>elf_load/include/sim/elf_load.hpp\<close> and \<^verbatim>\<open>elf_load/src/elf_load.cpp\<close>: the loader, which maps
  the stack and the segments of a program and copies the segments. What the operating system and
  \<^verbatim>\<open>libelf\<close> return for the file is the argument \<open>elf\<close>. The loop that maps the pages of a segment
  counts an address up to the end of the segment and would wrap around for one that ends in the last
  page of the address space; it is bounded by \<open>fuel\<close> rounds, and \<open>None\<close> means that these were not
  enough.
\<close>

section \<open>Model\<close>

definition DEFAULT_STACK_BASE :: VPN where "DEFAULT_STACK_BASE = 0x10000000"

definition DEFAULT_STACK_SIZE :: VPN where "DEFAULT_STACK_SIZE = 0x1000"

definition DEFAULT_TABLE_REGION_SIZE :: PPN where "DEFAULT_TABLE_REGION_SIZE = 0x10"

record ElfLoader =
  m_stack_base :: VPN
  m_stack_size :: VPN
  m_mmu_mode :: MODEValue
  m_table_region_begin :: PPN
  m_table_region_size :: PPN
  m_table_region_end :: PPN
  m_mapper :: SimpleMemoryMapper
  m_next_map_ppn :: PPN
  m_vpn_map :: "VPN \<rightharpoonup> PPN"

definition ElfLoader_new :: "mmap_fn \<Rightarrow> PhysMemory \<Rightarrow> (ElfLoader \<times> PhysMemory) res" where
  "ElfLoader_new mm pm =
     (let region_begin = 0; region_size = DEFAULT_TABLE_REGION_SIZE; region_end = region_begin + region_size in
      bindR (SimpleMemoryMapper_new mm SV39 region_begin region_end pm) (\<lambda>(mapper, pm).
      Inr (\<lparr>m_stack_base = DEFAULT_STACK_BASE, m_stack_size = DEFAULT_STACK_SIZE, m_mmu_mode = SV39,
            m_table_region_begin = region_begin, m_table_region_size = region_size,
            m_table_region_end = region_end, m_mapper = mapper, m_next_map_ppn = region_end,
            m_vpn_map = Map.empty\<rparr>, pm)))"

text \<open>\<open>insert\<close> keeps an existing value.\<close>

definition mapPage :: "mmap_fn \<Rightarrow> VPN \<Rightarrow> ElfLoader \<Rightarrow> PhysMemory \<Rightarrow> (SimStatus \<times> ElfLoader \<times> PhysMemory) res" where
  "mapPage mm page_vpn l pm =
     (if m_mmu_mode l = BARE then
        bindR (addRAMPage mm (page_vpn * PAGE_SIZE) pm) (\<lambda>(added, pm).
        bindR (SIM_ASSERT added) (\<lambda>_. Inr (OK, l, pm)))
      else
        let page_ppn = m_next_map_ppn l; l = l\<lparr>m_next_map_ppn := m_next_map_ppn l + 1\<rparr> in
        bindR (addRAMPage mm (page_ppn * PAGE_SIZE) pm) (\<lambda>(added, pm).
        bindR (SIM_ASSERT added) (\<lambda>_.
        let l = (if m_vpn_map l page_vpn = None then l\<lparr>m_vpn_map := (m_vpn_map l)(page_vpn \<mapsto> page_ppn)\<rparr> else l);
            flags = U_MASK OR R_MASK OR W_MASK OR X_MASK
        in bindR (mapper_map (MemoryMapping_new flags page_vpn page_ppn) (m_mapper l) pm) (\<lambda>(status, mapper, pm).
           Inr (status, l\<lparr>m_mapper := mapper\<rparr>, pm)))))"

function map_stack_pages :: "mmap_fn \<Rightarrow> VPN \<Rightarrow> VPN \<Rightarrow> ElfLoader \<Rightarrow> PhysMemory \<Rightarrow> (SimStatus \<times> ElfLoader \<times> PhysMemory) res" where
  "map_stack_pages mm curr_vpn stack_base l pm =
     (if curr_vpn = stack_base then Inr (OK, l, pm)
      else
        bindR (mapPage mm curr_vpn l pm) (\<lambda>(status, l, pm).
        if status \<noteq> OK then Inr (status, l, pm)
        else map_stack_pages mm (curr_vpn + 1) stack_base l pm))"
  by pat_completeness auto
termination
proof (relation "measure (\<lambda>(mm, v, b, l, pm). unat (b - v))", simp)
  fix mm :: mmap_fn and v b :: VPN and l l' :: ElfLoader and pm pm' :: PhysMemory
  assume "v \<noteq> b"
  then have "b - v \<noteq> 0" by simp
  then have "unat (b - v - 1) < unat (b - v)" by (simp add: unat_minus_one unat_gt_0)
  then show "((mm, v + 1, b, l', pm'), (mm, v, b, l, pm)) \<in> measure (\<lambda>(mm, v, b, l, pm). unat (b - v))"
    by (simp add: diff_diff_eq)
qed

declare map_stack_pages.simps [simp del]

definition mapStack :: "mmap_fn \<Rightarrow> ElfLoader \<Rightarrow> PhysMemory \<Rightarrow> ((SimStatus \<times> RegValue) \<times> ElfLoader \<times> PhysMemory) res" where
  "mapStack mm l pm =
     bindR (map_stack_pages mm (m_stack_base l - m_stack_size l) (m_stack_base l) l pm) (\<lambda>(status, l, pm).
     if status \<noteq> OK then Inr ((status, 0), l, pm)
     else Inr ((OK, m_stack_base l * PAGE_SIZE), l, pm))"

text \<open>What \<^verbatim>\<open>libelf\<close> returns: program headers, and the facts the loader asserts.\<close>

record GElf_Phdr =
  p_type :: "32 word"
  p_vaddr :: "64 word"
  p_memsz :: "64 word"
  p_offset :: "64 word"
  p_filesz :: "64 word"

record ElfInput =
  elf_version_ok :: bool
  elf_open_ok :: bool
  elf_buf :: "byte list option"
  elf_begin_ok :: bool
  elf_class :: nat
  elf_ehdr :: "(16 word \<times> 64 word) option"
  elf_phdr :: "nat \<Rightarrow> GElf_Phdr option"

definition ELFCLASSNONE :: nat where "ELFCLASSNONE = 0"

definition ELFCLASS32 :: nat where "ELFCLASS32 = 1"

definition PT_LOAD :: "32 word" where "PT_LOAD = 1"

text \<open>The loop over the pages of a segment.\<close>

fun map_segment :: "nat \<Rightarrow> mmap_fn \<Rightarrow> VirtAddr \<Rightarrow> VirtAddr \<Rightarrow> ElfLoader \<Rightarrow> PhysMemory \<Rightarrow>
    (SimStatus \<times> ElfLoader \<times> PhysMemory) res option" where
  "map_segment 0 mm curr_page_va seg_end l pm = None"
| "map_segment (Suc fuel) mm curr_page_va seg_end l pm =
     (if curr_page_va < seg_end then
        (case mapPage mm (curr_page_va div PAGE_SIZE) l pm of
           Inl e \<Rightarrow> Some (Inl e)
         | Inr (status, l, pm) \<Rightarrow>
             if status \<noteq> OK then Some (Inr (status, l, pm))
             else map_segment fuel mm (curr_page_va + PAGE_SIZE) seg_end l pm)
      else Some (Inr (OK, l, pm)))"

text \<open>\<open>memcpy\<close> to host memory, byte by byte, from position \<open>src\<close> of the buffer.\<close>

fun memcpy :: "host_addr \<Rightarrow> byte list \<Rightarrow> nat \<Rightarrow> nat \<Rightarrow> PhysMemory \<Rightarrow> PhysMemory res" where
  "memcpy dst buf src 0 pm = Inr pm"
| "memcpy dst buf src (Suc n) pm =
     (if src < length buf
      then memcpy (ptr_add dst 1) buf (Suc src) n (pm\<lparr>host_mem := host_write dst (buf ! src) (host_mem pm)\<rparr>)
      else Inl OutOfBounds)"

text \<open>The loop that copies a segment page by page.\<close>

function load_segment :: "byte list \<Rightarrow> GElf_Phdr \<Rightarrow> 64 word \<Rightarrow> ElfLoader \<Rightarrow> PhysMemory \<Rightarrow> PhysMemory res" where
  "load_segment buf seg offset l pm =
     (if offset < p_filesz seg then
        let curr_va = p_vaddr seg + offset;
            page_off = page_offset curr_va;
            curr_page_va = curr_va - page_off
        in bindR (case m_vpn_map l (curr_page_va div PAGE_SIZE) of
                    None \<Rightarrow> Inl AssertFailed | Some ppn \<Rightarrow> Inr (ppn * PAGE_SIZE)) (\<lambda>curr_page_pa.
           bindR (PhysMemory_write curr_page_pa (0 :: 32 word) pm) (\<lambda>(res, pm).
           bindR (SIM_ASSERT (wr_status res = OK)) (\<lambda>_.
           case wr_host_page_ptr res of
             None \<Rightarrow> Inl AssertFailed
           | Some host_page_ptr \<Rightarrow>
               let cpy_size = min (PAGE_SIZE - page_off) (p_filesz seg - offset) in
               bindR (memcpy (ptr_add host_page_ptr page_off) buf (unat (p_offset seg) + unat offset) (unat cpy_size) pm) (\<lambda>pm.
               load_segment buf seg (offset + cpy_size) l pm))))
      else Inr pm)"
  by pat_completeness auto
termination
proof (relation "measure (\<lambda>(buf, seg, offset, l, pm). unat (p_filesz seg) - unat offset)", simp, goal_cases)
  case (1 buf seg offset l pm curr_va page_off)
  let ?c = "min (PAGE_SIZE - page_off) (p_filesz seg - offset)"
  have off: "unat page_off < 4096" using 1 by (simp add: unat_page_offset_less)
  then have "unat (PAGE_SIZE - page_off) = 4096 - unat page_off"
    by (simp add: PAGE_SIZE_def unat_sub word_le_nat_alt)
  moreover have "unat (p_filesz seg - offset) = unat (p_filesz seg) - unat offset"
    using 1 by (simp add: unat_sub)
  ultimately have c: "0 < unat ?c" "unat ?c \<le> unat (p_filesz seg) - unat offset"
    using off 1 by (auto simp: min_def word_less_nat_alt word_le_nat_alt)
  have "unat (p_filesz seg) < 2 ^ LENGTH(64)" by (rule unsigned_less)
  then have "unat (offset + ?c) = unat offset + unat ?c"
    using c 1 by (simp add: unat_word_ariths word_less_nat_alt)
  then show ?case using c 1 by simp
qed

declare load_segment.simps [simp del]

text \<open>The loop over the program headers from index \<open>i\<close> on; \<open>n\<close> of them are left.\<close>

fun load_segments :: "nat \<Rightarrow> mmap_fn \<Rightarrow> ElfInput \<Rightarrow> byte list \<Rightarrow> nat \<Rightarrow> nat \<Rightarrow> ElfLoader \<Rightarrow> PhysMemory \<Rightarrow>
    (SimStatus \<times> ElfLoader \<times> PhysMemory) res option" where
  "load_segments fuel mm elf buf i 0 l pm = Some (Inr (OK, l, pm))"
| "load_segments fuel mm elf buf i (Suc n) l pm =
     (case elf_phdr elf i of
        None \<Rightarrow> Some (Inl AssertFailed)
      | Some seg \<Rightarrow>
          if p_type seg = PT_LOAD then
            let seg_base = page_base (p_vaddr seg); seg_end = p_vaddr seg + p_memsz seg in
            (case map_segment fuel mm seg_base seg_end l pm of
               None \<Rightarrow> None
             | Some (Inl e) \<Rightarrow> Some (Inl e)
             | Some (Inr (status, l, pm)) \<Rightarrow>
                 if status \<noteq> OK then Some (Inr (status, l, pm))
                 else
                   (case load_segment buf seg 0 l pm of
                      Inl e \<Rightarrow> Some (Inl e)
                    | Inr pm \<Rightarrow> load_segments fuel mm elf buf (i + 1) n l pm))
          else load_segments fuel mm elf buf (i + 1) n l pm)"

definition loadElf :: "nat \<Rightarrow> mmap_fn \<Rightarrow> ElfInput \<Rightarrow> ElfLoader \<Rightarrow> PhysMemory \<Rightarrow>
    ((SimStatus \<times> RegValue) \<times> ElfLoader \<times> PhysMemory) res option" where
  "loadElf fuel mm elf l pm =
     (if \<not> elf_version_ok elf \<or> \<not> elf_open_ok elf then Some (Inl AssertFailed)
      else
        (case elf_buf elf of
           None \<Rightarrow> Some (Inl AssertFailed)
         | Some buf \<Rightarrow>
             if \<not> elf_begin_ok elf \<or> elf_class elf = ELFCLASSNONE \<or> elf_class elf = ELFCLASS32
             then Some (Inl AssertFailed)
             else
               (case elf_ehdr elf of
                  None \<Rightarrow> Some (Inl AssertFailed)
                | Some (e_phnum, e_entry) \<Rightarrow>
                    (case load_segments fuel mm elf buf 0 (unat e_phnum) l pm of
                       None \<Rightarrow> None
                     | Some (Inl e) \<Rightarrow> Some (Inl e)
                     | Some (Inr (status, l, pm)) \<Rightarrow>
                         Some (Inr (if status \<noteq> OK then (status, 0) else (OK, e_entry), l, pm))))))"


section \<open>Page numbers\<close>

text \<open>Pages of virtual addresses.\<close>

lemma page_number_mult: "va div PAGE_SIZE * PAGE_SIZE = page_base va"
proof -
  have "page_base va = va - page_offset va" by (rule page_base_eq_minus)
  moreover have "page_offset va = va mod PAGE_SIZE"
    by (simp add: word_unat_eq_iff unat_page_offset unat_mod_distrib PAGE_SIZE_def)
  ultimately show ?thesis by (simp add: minus_mod_eq_div_mult)
qed

lemma page_number_eq_iff: "va div PAGE_SIZE = va' div PAGE_SIZE \<longleftrightarrow> page_base va = page_base va'"
proof
  assume "page_base va = page_base va'"
  then have "va div PAGE_SIZE * PAGE_SIZE = va' div PAGE_SIZE * PAGE_SIZE" by (simp add: page_number_mult)
  moreover have "x div PAGE_SIZE < 2 ^ 52" for x :: "64 word"
  proof -
    have "unat x < 2 ^ LENGTH(64)" by (rule unsigned_less)
    then show ?thesis by (simp add: word_less_nat_alt unat_div_distrib PAGE_SIZE_def div_less_iff_less_mult)
  qed
  ultimately show "va div PAGE_SIZE = va' div PAGE_SIZE" using page_mult_inj by blast
next
  assume "va div PAGE_SIZE = va' div PAGE_SIZE"
  then show "page_base va = page_base va'" by (metis page_number_mult)
qed

lemma page_base_eq_iff: "page_base va = page_base va' \<longleftrightarrow> unat va div 4096 = unat va' div 4096"
  by (simp add: word_unat_eq_iff unat_page_base)

section \<open>Invariant of the loader\<close>

text \<open>
  The memory is well-formed, the tables are those of a mapper with room for physical pages above the
  table region, and every page the loader handed out lies above the region.
\<close>

definition loader_inv :: "mmap_fn \<Rightarrow> nat \<Rightarrow> ElfLoader \<Rightarrow> PhysMemory \<Rightarrow> bool" where
  "loader_inv mm n l pm \<longleftrightarrow> pm_inv mm pm \<and> (\<exists>lv. mapper_ok (m_mapper l) lv (pm_contents pm)) \<and>
     m_mmu_mode l = SV39 \<and> sm_mode (m_mapper l) = SV39 \<and> sm_table_region_begin (m_mapper l) = 0 \<and>
     sm_table_region_end (m_mapper l) = 16 \<and> 16 \<le> unat (m_next_map_ppn l) \<and> unat (m_next_map_ppn l) \<le> n \<and>
     (\<forall>v p. m_vpn_map l v = Some p \<longrightarrow> 16 \<le> unat p \<and> unat p < n)"

lemma loader_inv_mono: "loader_inv mm n l pm \<Longrightarrow> n \<le> n' \<Longrightarrow> loader_inv mm n' l pm"
  unfolding loader_inv_def by (meson le_trans less_le_trans)

lemma ElfLoader_new_inv:
  assumes "mmap_contract mm" and "pm_inv mm pm" and "ElfLoader_new mm pm = Inr (l, pm')"
  shows "loader_inv mm 16 l pm'"
proof -
  from assms(3) obtain m where m: "SimpleMemoryMapper_new mm SV39 0 16 pm = Inr (m, pm')"
    and l: "m_mapper l = m" "m_mmu_mode l = SV39" "m_next_map_ppn l = 16" "m_vpn_map l = Map.empty"
    by (auto simp: ElfLoader_new_def Let_def res_simps DEFAULT_TABLE_REGION_SIZE_def)
  have "(16 :: 64 word) \<le> 2 ^ 44" by simp
  from SimpleMemoryMapper_new_ok [OF assms(1,2) _ this m] l show ?thesis
    by (auto simp: loader_inv_def)
qed

lemma in_region_16:
  "sm_table_region_begin m = 0 \<Longrightarrow> sm_table_region_end m = 16 \<Longrightarrow> in_region m t \<longleftrightarrow> unat t < 16"
  by (simp add: in_region_def word_less_nat_alt)

definition page_flags :: PTEFlags where
  "page_flags = U_MASK OR R_MASK OR W_MASK OR X_MASK"

lemma page_flags_set [simp]: "flag_u page_flags" "flag_r page_flags" "flag_w page_flags" "flag_x page_flags"
  by (simp_all add: page_flags_def flag_u_def flag_r_def flag_w_def flag_x_def U_MASK_def R_MASK_def W_MASK_def X_MASK_def)

lemma page_flags_allow [simp]: "access_allowed USER acc page_flags ms"
  by (cases acc) (simp_all add: access_allowed_def)

text \<open>The steps of \<open>mapPage\<close>.\<close>

lemma mapPage_steps:
  assumes "m_mmu_mode l = SV39" and map: "mapPage mm vpn l pm = Inr (s, l', pm')"
  obtains pm1 m' where "addRAMPage mm (m_next_map_ppn l * PAGE_SIZE) pm = Inr (True, pm1)"
    and "mapper_map (MemoryMapping_new page_flags vpn (m_next_map_ppn l)) (m_mapper l) pm1 = Inr (s, m', pm')"
    and "l' = l\<lparr>m_mapper := m', m_next_map_ppn := m_next_map_ppn l + 1,
        m_vpn_map := (if m_vpn_map l vpn = None then (m_vpn_map l)(vpn \<mapsto> m_next_map_ppn l) else m_vpn_map l)\<rparr>"
proof -
  let ?p = "m_next_map_ppn l" and ?flags = "U_MASK OR R_MASK OR W_MASK OR X_MASK"
  let ?l1 = "l\<lparr>m_next_map_ppn := ?p + 1\<rparr>"
  let ?l2 = "if m_vpn_map ?l1 vpn = None then ?l1\<lparr>m_vpn_map := (m_vpn_map ?l1)(vpn \<mapsto> ?p)\<rparr> else ?l1"
  define K where "K = (\<lambda>pm. bindR (mapper_map (MemoryMapping_new ?flags vpn ?p) (m_mapper ?l2) pm) (\<lambda>(status, mapper, pm). Inr (status, ?l2\<lparr>m_mapper := mapper\<rparr>, pm)))"
  have "m_mmu_mode l \<noteq> BARE" using assms(1) by simp
  then have "mapPage mm vpn l pm = bindR (addRAMPage mm (?p * PAGE_SIZE) pm) (\<lambda>(added, pm). bindR (SIM_ASSERT added) (\<lambda>_. K pm))"
    unfolding mapPage_def Let_def K_def by (simp only: if_False)
  with map obtain pm1 where add: "addRAMPage mm (?p * PAGE_SIZE) pm = Inr (True, pm1)" and rest: "K pm1 = Inr (s, l', pm')"
    by (auto simp: res_simps)
  from rest obtain m' where mp: "mapper_map (MemoryMapping_new ?flags vpn ?p) (m_mapper ?l2) pm1 = Inr (s, m', pm')"
    and l': "l' = ?l2\<lparr>m_mapper := m'\<rparr>"
    by (auto simp: K_def bindR_eq_Inr_iff simp del: ElfLoader.simps split del: if_split)
  have "m_mapper ?l2 = m_mapper l" by simp
  with mp have "mapper_map (MemoryMapping_new page_flags vpn ?p) (m_mapper l) pm1 = Inr (s, m', pm')"
    by (simp only: page_flags_def)
  moreover have "l' = l\<lparr>m_mapper := m', m_next_map_ppn := ?p + 1,
      m_vpn_map := (if m_vpn_map l vpn = None then (m_vpn_map l)(vpn \<mapsto> ?p) else m_vpn_map l)\<rparr>"
    by (simp add: l')
  ultimately show thesis using add that by blast
qed

lemma mapPage_inv:
  assumes mm: "mmap_contract mm" and inv: "loader_inv mm n l pm" and n: "n < 2 ^ 44"
    and map: "mapPage mm vpn l pm = Inr (s, l', pm')"
  shows "loader_inv mm (Suc n) l' pm'"
proof -
  let ?p = "m_next_map_ppn l" and ?mp = "MemoryMapping_new page_flags vpn (m_next_map_ppn l)"
  from inv have p: "16 \<le> unat ?p" "unat ?p \<le> n" by (simp_all add: loader_inv_def)
  have "m_mmu_mode l = SV39" using inv by (simp add: loader_inv_def)
  from mapPage_steps [OF this map] obtain pm1 m' where
    add: "addRAMPage mm (?p * PAGE_SIZE) pm = Inr (True, pm1)" and mp: "mapper_map ?mp (m_mapper l) pm1 = Inr (s, m', pm')"
    and l': "l' = l\<lparr>m_mapper := m', m_next_map_ppn := ?p + 1,
        m_vpn_map := (if m_vpn_map l vpn = None then (m_vpn_map l)(vpn \<mapsto> ?p) else m_vpn_map l)\<rparr>" .
  from inv obtain lv where lv: "mapper_ok (m_mapper l) lv (pm_contents pm)" by (auto simp: loader_inv_def)
  have inv1: "pm_inv mm pm1" "mapper_ok (m_mapper l) lv (pm_contents pm1)"
    using inv addRAMPage_spec [OF mm _ add] addRAMPage_mapper_ok [OF mm _ lv add] by (auto simp: loader_inv_def)
  have "mp_ppn ?mp < 2 ^ 44" using p n by (simp add: MemoryMapping_new_def word_less_nat_alt)
  from mapper_map_frame [OF inv1(2) pm_inv_ok [OF inv1(1)] this mp] inv1
  have "pm_inv mm pm'" "\<exists>k. m' = (m_mapper l)\<lparr>sm_curr_table := k\<rparr>" "\<exists>lv'. mapper_ok m' lv' (pm_contents pm')"
    by (auto simp: map_frame_def)
  moreover have "unat (?p + 1) = unat ?p + 1" using p n by (simp add: unat_word_ariths)
  moreover have "m_vpn_map l' v = Some q \<Longrightarrow> 16 \<le> unat q \<and> unat q < Suc n" for v q
    using inv p by (auto simp: loader_inv_def l' split: if_splits) fastforce+
  ultimately show ?thesis using inv p by (auto simp: loader_inv_def l')
qed

lemma map_stack_pages_unfold:
  "map_stack_pages mm v b l pm = Inr (s, l', pm') \<longleftrightarrow>
     (if v = b then s = OK \<and> l' = l \<and> pm' = pm
      else \<exists>s1 l1 pm1. mapPage mm v l pm = Inr (s1, l1, pm1) \<and>
        (if s1 = OK then map_stack_pages mm (v + 1) b l1 pm1 = Inr (s, l', pm') else s = s1 \<and> l' = l1 \<and> pm' = pm1))"
  unfolding map_stack_pages.simps [of mm v b l pm] by (auto simp: res_simps split: if_splits)

lemma map_stack_pages_inv:
  assumes mm: "mmap_contract mm"
  shows "loader_inv mm n l pm \<Longrightarrow> n + unat (b - v) \<le> 2 ^ 44 \<Longrightarrow> map_stack_pages mm v b l pm = Inr (s, l', pm') \<Longrightarrow>
    loader_inv mm (n + unat (b - v)) l' pm'"
proof (induction "unat (b - v)" arbitrary: v n l pm)
  case 0
  then have "v = b" by (metis eq_iff_diff_eq_0 unat_eq_0)
  with 0 show ?case using map_stack_pages_unfold [of mm b b] by simp
next
  case (Suc k)
  then have ne: "v \<noteq> b" by auto
  with Suc.prems(3) obtain s1 l1 pm1 where map: "mapPage mm v l pm = Inr (s1, l1, pm1)"
    and rest: "if s1 = OK then map_stack_pages mm (v + 1) b l1 pm1 = Inr (s, l', pm') else s = s1 \<and> l' = l1 \<and> pm' = pm1"
    unfolding map_stack_pages_unfold [of mm v] by auto
  have k: "k = unat (b - (v + 1))" using Suc.hyps(2) ne by (simp add: unat_minus_one diff_diff_eq [symmetric])
  have inv1: "loader_inv mm (Suc n) l1 pm1"
    using mapPage_inv [OF mm Suc.prems(1) _ map] Suc.hyps(2) Suc.prems(2) by simp
  show ?case
  proof (cases "s1 = OK")
    case True
    then have "loader_inv mm (Suc n + unat (b - (v + 1))) l' pm'"
      using Suc.hyps(1) [OF k inv1] rest k Suc.hyps(2) Suc.prems(2) by simp
    moreover have "Suc n + unat (b - (v + 1)) = n + unat (b - v)" using k Suc.hyps(2) by linarith
    ultimately show ?thesis by (simp only:)
  next
    case False
    then show ?thesis using rest loader_inv_mono [OF inv1, of "n + unat (b - v)"] Suc.hyps(2) by auto
  qed
qed

lemma map_segment_inv:
  assumes mm: "mmap_contract mm"
  shows "loader_inv mm n l pm \<Longrightarrow> n + fuel \<le> 2 ^ 44 \<Longrightarrow> map_segment fuel mm va e l pm = Some (Inr (s, l', pm')) \<Longrightarrow>
    loader_inv mm (n + fuel) l' pm'"
proof (induction fuel arbitrary: va n l pm)
  case (Suc fuel)
  show ?case
  proof (cases "va < e")
    case False
    then show ?thesis using Suc.prems loader_inv_mono [OF Suc.prems(1), of "n + Suc fuel"] by auto
  next
    case True
    with Suc.prems(3) obtain s1 l1 pm1 where map: "mapPage mm (va div PAGE_SIZE) l pm = Inr (s1, l1, pm1)"
      by (auto split: sum.splits)
    have inv1: "loader_inv mm (Suc n) l1 pm1" using mapPage_inv [OF mm Suc.prems(1) _ map] Suc.prems(2) by simp
    show ?thesis
    proof (cases "s1 = OK")
      case True
      then show ?thesis using Suc.IH [OF inv1] Suc.prems map \<open>va < e\<close> by simp
    next
      case False
      then show ?thesis
        using Suc.prems(3) map \<open>va < e\<close> loader_inv_mono [OF inv1, of "n + Suc fuel"] by simp
    qed
  qed
qed simp

section \<open>Copying\<close>

lemma byte_write:
  assumes map: "m_mapping (m_ram pm) page = Some p" and page: "page_offset page = 0" and off: "unat off < 4096"
  shows "PhysMemory_write (page + off) (b :: 8 word) pm =
    Inr (\<lparr>wr_status = OK, wr_host_page_ptr = Some p\<rparr>, pm\<lparr>host_mem := host_write (ptr_add p off) b (host_mem pm)\<rparr>)"
proof -
  note pg = page_add_offset [OF page off]
  have "in_page (page + off) 1" using off by (simp add: in_page_def pg)
  then show ?thesis using map by (simp add: PhysMemory_write_eq pg)
qed

text \<open>A copy within one page changes the bytes of its range to those of the source and no others.\<close>

lemma memcpy_spec:
  assumes page: "page_offset page = 0"
  shows "pm_inv mm pm \<Longrightarrow> m_mapping (m_ram pm) page = Some p \<Longrightarrow> unat off + n \<le> 4096 \<Longrightarrow>
    memcpy (ptr_add p off) buf src n pm = Inr pm' \<Longrightarrow>
    pm_inv mm pm' \<and> m_ram pm' = m_ram pm \<and> src + n \<le> max src (length buf) \<and>
    pm_contents pm' = (\<lambda>a. if page_base a = page \<and> unat off \<le> unat (page_offset a) \<and> unat (page_offset a) < unat off + n
                            then Some (buf ! (src + (unat (page_offset a) - unat off))) else pm_contents pm a)"
proof (induction n arbitrary: off src pm)
  case 0
  then show ?case by (auto simp: fun_eq_iff)
next
  case (Suc n)
  let ?pm1 = "pm\<lparr>host_mem := host_write (ptr_add p off) (buf ! src) (host_mem pm)\<rparr>"
  have off: "unat off < 4096" using Suc.prems(3) by simp
  have src: "src < length buf" using Suc.prems(4) by (simp split: if_splits)
  have "ptr_add (ptr_add p off) 1 = ptr_add p (off + 1)" by (simp add: ptr_add_def add.assoc)
  then have rest: "memcpy (ptr_add p (off + 1)) buf (Suc src) n ?pm1 = Inr pm'" using Suc.prems(4) src by simp
  have off1: "unat (off + 1) = unat off + 1" using off by (simp add: unat_word_ariths)
  have inv1: "pm_inv mm ?pm1" using PhysMemory_write_inv [OF Suc.prems(1) _ byte_write [OF Suc.prems(2) page off]] by simp
  have "pm_contents ?pm1 = mem_put (page + off) (buf ! src) (pm_contents pm)"
  proof -
    note pg = page_add_offset [OF page off]
    have "in_page (page + off) (LENGTH(8) div 8)" using off by (simp add: in_page_def pg)
    from pm_contents_host_write [OF pm_inv_ok [OF Suc.prems(1)] _ this, of p "buf ! src"] Suc.prems(2) pg show ?thesis by simp
  qed
  then have c1: "pm_contents ?pm1 = (pm_contents pm)(page + off \<mapsto> buf ! src)"
    by (auto simp: mem_put_unat fun_eq_iff byte_of_word_def unat_eq_0)
  have "m_mapping (m_ram ?pm1) page = Some p" "unat (off + 1) + n \<le> 4096" using Suc.prems(2,3) off1 by simp_all
  note Suc.IH [OF inv1 this rest, unfolded off1]
  then have IH: "pm_inv mm pm'" "m_ram pm' = m_ram pm" "Suc src + n \<le> max (Suc src) (length buf)"
    "pm_contents pm' = (\<lambda>a. if page_base a = page \<and> unat off + 1 \<le> unat (page_offset a) \<and> unat (page_offset a) < unat off + 1 + n
        then Some (buf ! (Suc src + (unat (page_offset a) - (unat off + 1)))) else pm_contents ?pm1 a)"
    by simp_all
  have here: "a = page + off \<longleftrightarrow> page_base a = page \<and> unat (page_offset a) = unat off" for a
    using page_add_offset [OF page off] word_eq_page_iff [of a "page + off"] by (auto simp: word_unat_eq_iff)
  have "pm_contents pm' a = (if page_base a = page \<and> unat off \<le> unat (page_offset a) \<and> unat (page_offset a) < unat off + Suc n
      then Some (buf ! (src + (unat (page_offset a) - unat off))) else pm_contents pm a)" for a
  proof -
    have "Suc src + (k - (unat off + 1)) = src + (k - unat off)" if "unat off + 1 \<le> k" for k using that by simp
    then show ?thesis unfolding IH(4) c1 using here [of a] by (auto simp del: add_Suc)
  qed
  with IH(1-3) src show ?case by (auto simp: fun_eq_iff)
qed


lemma min_page_size:
  assumes "off < (e :: 64 word)"
  shows "unat (min (PAGE_SIZE - page_offset va) (e - off)) = min (4096 - unat (page_offset va)) (unat e - unat off)"
proof -
  have "unat (page_offset va) < 4096" by (rule unat_page_offset_less)
  then have "unat (PAGE_SIZE - page_offset va) = 4096 - unat (page_offset va)"
    by (simp add: PAGE_SIZE_def unat_sub word_le_nat_alt)
  moreover have "unat (e - off) = unat e - unat off" using assms by (simp add: unat_sub)
  ultimately show ?thesis by (simp add: min_def word_le_nat_alt)
qed

lemma loader_inv_write:
  assumes inv: "loader_inv mm n l pm" and pm': "pm_inv mm pm'"
    and same: "\<And>a. page_base a \<in> region_pages (m_mapper l) \<Longrightarrow> pm_contents pm' a = pm_contents pm a"
  shows "loader_inv mm n l pm'"
proof -
  from inv obtain lv where "mapper_ok (m_mapper l) lv (pm_contents pm)" by (auto simp: loader_inv_def)
  then have "mapper_ok (m_mapper l) lv (pm_contents pm')" using same by (rule mapper_ok_agree)
  with inv pm' show ?thesis unfolding loader_inv_def by blast
qed

text \<open>The pages the loader handed out are not those of the tables.\<close>

lemma loader_page_outside:
  assumes inv: "loader_inv mm n l pm" and n: "n \<le> 2 ^ 44" and ppn: "m_vpn_map l v = Some ppn"
  shows "ppn * PAGE_SIZE \<notin> region_pages (m_mapper l)"
proof
  assume "ppn * PAGE_SIZE \<in> region_pages (m_mapper l)"
  then obtain t where t: "in_region (m_mapper l) t" "ppn * PAGE_SIZE = t * PAGE_SIZE" by (auto simp: region_pages_def)
  have t16: "unat t < 16" and p: "16 \<le> unat ppn" "unat ppn < n"
    using inv t(1) ppn by (auto simp: loader_inv_def in_region_16)
  then have "t < 2 ^ 52" "ppn < 2 ^ 52" using n by (simp_all add: word_less_nat_alt)
  then have "ppn = t" using page_mult_inj t(2) by blast
  then show False using t16 p by simp
qed

text \<open>One round of the copying loop: the four zero bytes that look up the page, and the copy.\<close>

lemma load_segment_steps:
  assumes load: "load_segment buf seg offset l pm = Inr pm'" and lt: "offset < p_filesz seg"
  obtains ppn res pm1 hp pm2 where
    "m_vpn_map l ((p_vaddr seg + offset) div PAGE_SIZE) = Some ppn"
    "PhysMemory_write (ppn * PAGE_SIZE) (0 :: 32 word) pm = Inr (res, pm1)"
    "wr_status res = OK" "wr_host_page_ptr res = Some hp"
    "memcpy (ptr_add hp (page_offset (p_vaddr seg + offset))) buf (unat (p_offset seg) + unat offset)
       (min (4096 - unat (page_offset (p_vaddr seg + offset))) (unat (p_filesz seg) - unat offset)) pm1 = Inr pm2"
    "load_segment buf seg (offset + min (PAGE_SIZE - page_offset (p_vaddr seg + offset)) (p_filesz seg - offset)) l pm2 = Inr pm'"
proof -
  let ?va = "p_vaddr seg + offset"
  have "(?va - page_offset ?va) div PAGE_SIZE = ?va div PAGE_SIZE"
    by (simp add: page_number_eq_iff flip: page_base_eq_minus)
  with load lt that show thesis
    by (subst (asm) load_segment.simps)
      (auto simp: Let_def res_simps min_page_size [OF lt] split: option.splits)
qed

lemma copy_page:
  assumes inv: "pm_inv mm pm" and wr: "PhysMemory_write (ppn * PAGE_SIZE) (0 :: 32 word) pm = Inr (res, pm1)"
    and st: "wr_status res = OK" "wr_host_page_ptr res = Some hp"
    and cpy: "memcpy (ptr_add hp off) buf src n pm1 = Inr pm2" and fits: "unat off + n \<le> 4096"
  shows "pm_inv mm pm2 \<and> m_ram pm2 = m_ram pm \<and> src + n \<le> max src (length buf) \<and>
    pm_contents pm2 = (\<lambda>a. if page_base a = ppn * PAGE_SIZE then
        (if unat off \<le> unat (page_offset a) \<and> unat (page_offset a) < unat off + n
         then Some (buf ! (src + (unat (page_offset a) - unat off)))
         else if unat (page_offset a) < 4 then Some 0 else pm_contents pm a) else pm_contents pm a)"
proof -
  have map: "m_mapping (m_ram pm) (ppn * PAGE_SIZE) = Some hp"
    using wr st by (auto simp: PhysMemory_write_eq page_base_aligned split: if_splits option.splits)
  have inv1: "pm_inv mm pm1" "m_ram pm1 = m_ram pm" using PhysMemory_write_inv [OF inv _ wr] by auto
  have c1: "pm_contents pm1 = mem_put (ppn * PAGE_SIZE) (0 :: 32 word) (pm_contents pm)" and inp: "in_page (ppn * PAGE_SIZE) 4"
    using wr st map pm_contents_host_write [OF pm_inv_ok [OF inv], of "ppn * PAGE_SIZE" hp "0 :: 32 word"]
    by (auto simp: PhysMemory_write_eq page_base_aligned split: if_splits option.splits)
  have "unat (a - ppn * PAGE_SIZE) < 4 \<longleftrightarrow> page_base a = ppn * PAGE_SIZE \<and> unat (page_offset a) < 4" for a
  proof
    assume lt: "unat (a - ppn * PAGE_SIZE) < 4"
    have "page_base (ppn * PAGE_SIZE + (a - ppn * PAGE_SIZE)) = ppn * PAGE_SIZE"
      "page_offset (ppn * PAGE_SIZE + (a - ppn * PAGE_SIZE)) = a - ppn * PAGE_SIZE"
      using lt by (intro page_add_offset; simp)+
    with lt show "page_base a = ppn * PAGE_SIZE \<and> unat (page_offset a) < 4" by simp
  next
    assume "page_base a = ppn * PAGE_SIZE \<and> unat (page_offset a) < 4"
    then show "unat (a - ppn * PAGE_SIZE) < 4" using page_base_plus_offset [of a] by (metis add_diff_cancel_left')
  qed
  then have c1: "pm_contents pm1 a =
      (if page_base a = ppn * PAGE_SIZE \<and> unat (page_offset a) < 4 then Some 0 else pm_contents pm a)" for a
    unfolding c1 mem_put_unat by (simp add: byte_of_word_def)
  from memcpy_spec [OF _ inv1(1) _ fits cpy, of "ppn * PAGE_SIZE"] map inv1(2)
  show ?thesis by (auto simp: c1 inv1(2))
qed

lemma copy_page_fits: "unat (page_offset va) + min (4096 - unat (page_offset va)) k \<le> 4096"
  using unat_page_offset_less [of va] by simp

lemma load_segment_frame:
  assumes n: "n \<le> 2 ^ 44"
  shows "loader_inv mm n l pm \<Longrightarrow> load_segment buf seg offset l pm = Inr pm' \<Longrightarrow>
    loader_inv mm n l pm' \<and> m_ram pm' = m_ram pm \<and>
    (\<forall>a. page_base a \<in> region_pages (m_mapper l) \<longrightarrow> pm_contents pm' a = pm_contents pm a)"
proof (induction buf seg offset l pm rule: load_segment.induct)
  case (1 buf seg offset l pm)
  show ?case
  proof (cases "offset < p_filesz seg")
    case False
    then show ?thesis using "1.prems" by (simp add: load_segment.simps [of buf seg offset])
  next
    case True
    let ?va = "p_vaddr seg + offset"
    from load_segment_steps [OF "1.prems"(2) True] obtain ppn res pm1 hp pm2
      where ppn: "m_vpn_map l (?va div PAGE_SIZE) = Some ppn"
        and cpy: "PhysMemory_write (ppn * PAGE_SIZE) (0 :: 32 word) pm = Inr (res, pm1)" "wr_status res = OK"
          "wr_host_page_ptr res = Some hp"
          "memcpy (ptr_add hp (page_offset ?va)) buf (unat (p_offset seg) + unat offset)
             (min (4096 - unat (page_offset ?va)) (unat (p_filesz seg) - unat offset)) pm1 = Inr pm2"
        and rest: "load_segment buf seg (offset + min (PAGE_SIZE - page_offset ?va) (p_filesz seg - offset)) l pm2 = Inr pm'" .
    have inv: "pm_inv mm pm" using "1.prems"(1) by (simp add: loader_inv_def)
    note spec = copy_page [OF inv cpy copy_page_fits]
    have same: "pm_contents pm2 a = pm_contents pm a" if "page_base a \<in> region_pages (m_mapper l)" for a
      using loader_page_outside [OF "1.prems"(1) n ppn] that spec by auto
    then have inv2: "loader_inv mm n l pm2" using spec by (intro loader_inv_write [OF "1.prems"(1)]) simp_all
    have "(?va - page_offset ?va) div PAGE_SIZE = ?va div PAGE_SIZE"
      by (simp add: page_number_eq_iff flip: page_base_eq_minus)
    with ppn cpy show ?thesis
      using "1.IH" [OF True refl refl refl] inv2 rest same spec by (simp add: min_page_size [OF True])
  qed
qed

lemma load_segment_inv:
  "n \<le> 2 ^ 44 \<Longrightarrow> loader_inv mm n l pm \<Longrightarrow> load_segment buf seg offset l pm = Inr pm' \<Longrightarrow> loader_inv mm n l pm'"
  using load_segment_frame by blast


lemma load_segments_inv:
  assumes mm: "mmap_contract mm"
  shows "loader_inv mm n l pm \<Longrightarrow> n + k * fuel \<le> 2 ^ 44 \<Longrightarrow>
    load_segments fuel mm elf buf i k l pm = Some (Inr (s, l', pm')) \<Longrightarrow> loader_inv mm (n + k * fuel) l' pm'"
proof (induction k arbitrary: i n l pm)
  case (Suc k)
  from Suc.prems(3) obtain seg where seg: "elf_phdr elf i = Some seg" by (auto split: option.splits)
  show ?case
  proof (cases "p_type seg = PT_LOAD")
    case False
    then have "loader_inv mm (n + k * fuel) l' pm'" using Suc.IH [OF Suc.prems(1)] Suc.prems seg by simp
    then show ?thesis by (rule loader_inv_mono) simp
  next
    case True
    with Suc.prems(3) seg obtain s1 l1 pm1 where
      map: "map_segment fuel mm (page_base (p_vaddr seg)) (p_vaddr seg + p_memsz seg) l pm = Some (Inr (s1, l1, pm1))"
      by (auto simp: Let_def split: option.splits sum.splits)
    have inv1: "loader_inv mm (n + fuel) l1 pm1" using map_segment_inv [OF mm Suc.prems(1) _ map] Suc.prems(2) by simp
    show ?thesis
    proof (cases "s1 = OK")
      case False
      then show ?thesis
        using Suc.prems(3) seg True map loader_inv_mono [OF inv1, of "n + Suc k * fuel"] by simp
    next
      case ok: True
      with Suc.prems(3) seg True map obtain pm2 where load: "load_segment buf seg 0 l1 pm1 = Inr pm2"
        and rest: "load_segments fuel mm elf buf (Suc i) k l1 pm2 = Some (Inr (s, l', pm'))"
        by (auto split: sum.splits)
      have "loader_inv mm (n + fuel) l1 pm2"
        using load_segment_inv [OF _ inv1 load] Suc.prems(2) by simp
      then have "loader_inv mm (n + fuel + k * fuel) l' pm'" using Suc.IH [OF _ _ rest] Suc.prems(2) by simp
      then show ?thesis by (simp add: add.assoc)
    qed
  qed
qed auto

lemma loadElf_inv:
  assumes mm: "mmap_contract mm" and inv: "loader_inv mm n l pm" and n: "n + 2 ^ 16 * fuel \<le> 2 ^ 44"
    and load: "loadElf fuel mm elf l pm = Some (Inr ((s, pc), l', pm'))"
  shows "loader_inv mm (n + 2 ^ 16 * fuel) l' pm'"
proof -
  from load obtain buf phnum entry s1 where
    "load_segments fuel mm elf buf 0 (unat (phnum :: 16 word)) l pm = Some (Inr (s1, l', pm'))"
    by (auto simp: loadElf_def split: option.splits if_splits sum.splits prod.splits)
  moreover have k: "unat phnum * fuel \<le> 2 ^ 16 * fuel"
  proof -
    have "unat phnum < 2 ^ LENGTH(16)" by (rule unsigned_less)
    then show ?thesis by (intro mult_le_mono1) simp
  qed
  moreover from k n have "n + unat phnum * fuel \<le> 2 ^ 44" by linarith
  ultimately have "loader_inv mm (n + unat phnum * fuel) l' pm'"
    using load_segments_inv [OF mm inv] by blast
  then show ?thesis by (rule loader_inv_mono) (use k in simp)
qed

lemma mapStack_inv:
  assumes mm: "mmap_contract mm" and inv: "loader_inv mm n l pm" and n: "n + unat (m_stack_size l) \<le> 2 ^ 44"
    and stack: "mapStack mm l pm = Inr (r, l', pm')"
  shows "loader_inv mm (n + unat (m_stack_size l)) l' pm'"
proof -
  from stack obtain s where "map_stack_pages mm (m_stack_base l - m_stack_size l) (m_stack_base l) l pm = Inr (s, l', pm')"
    by (auto simp: mapStack_def res_simps split: if_splits)
  from map_stack_pages_inv [OF mm inv _ this] n show ?thesis by simp
qed

end
