(* ===== verification/ElfSpec.thy ===== *)
theory ElfSpec
  imports ElfLoad
begin

text \<open>
  What the loader promises. Its state is read as a partial map \<open>ubyte\<close> from virtual addresses to
  bytes, through the page map the loader keeps beside the page tables. \<open>loaded\<close> says that the page
  tables agree with that map, so that user code sees exactly these bytes. Mapping a page adds a page
  of zeros to the map, mapping a segment an interval of them, and copying a segment overwrites the
  interval of its file image.
\<close>

section \<open>The loaded image\<close>

definition maps_page :: "SimpleMemoryMapper \<Rightarrow> (64 word \<rightharpoonup> byte) \<Rightarrow> VPN \<Rightarrow> PPN \<Rightarrow> bool" where
  "maps_page m c v p \<longleftrightarrow>
     (\<forall>va acc ms satp. page_base va = v * PAGE_SIZE \<and> mapper_satp m satp \<longrightarrow>
        translate_c USER acc va ms satp c = Inr \<lparr>mmu_status = OK, phys_addr = p * PAGE_SIZE + page_offset va\<rparr>)"

definition loaded :: "ElfLoader \<Rightarrow> PhysMemory \<Rightarrow> bool" where
  "loaded l pm \<longleftrightarrow>
     (\<forall>v p. m_vpn_map l v = Some p \<longrightarrow> p < m_next_map_ppn l \<and> maps_page (m_mapper l) (pm_contents pm) v p \<and>
        (\<forall>v'. m_vpn_map l v' = Some p \<longrightarrow> v' = v))"

definition ubyte :: "ElfLoader \<Rightarrow> PhysMemory \<Rightarrow> VirtAddr \<Rightarrow> byte option" where
  "ubyte l pm va =
     (case m_vpn_map l (va div PAGE_SIZE) of
        None \<Rightarrow> None
      | Some p \<Rightarrow> pm_contents pm (p * PAGE_SIZE + page_offset va))"

text \<open>The tables decide a translation, so memory outside them does not matter.\<close>

lemma translate_region_cong:
  assumes ok: "mapper_ok m lv c" and satp: "mapper_satp m satp"
    and same: "\<And>a. page_base a \<in> region_pages m \<Longrightarrow> c' a = c a"
  shows "translate_c priv acc va ms satp c' = translate_c priv acc va ms satp c"
proof (rule translate_c_agree [where T = "level_pages m lv"])
  show "tables_closed c (level_pages m lv) \<and> m_ppn satp * PAGE_SIZE \<in> level_pages m lv (mode_levels (m_mode satp) - 1)"
    using satp mapper_okD(2,5) [OF ok] mapper_ok_closed [OF ok] by (auto simp: mapper_satp_def level_pages_def)
  have "level_pages m lv i \<subseteq> region_pages m" for i
    using used_in_region [OF ok] by (auto simp: level_pages_def region_pages_def)
  with same show "\<forall>a i. page_base a \<in> level_pages m lv i \<longrightarrow> c a = c' a" by (metis subsetD)
qed

lemma maps_page_cong:
  assumes "mapper_ok m lv c" and "\<And>a. page_base a \<in> region_pages m \<Longrightarrow> c' a = c a" and "maps_page m c v p"
  shows "maps_page m c' v p"
  using assms translate_region_cong [OF assms(1) _ assms(2)] unfolding maps_page_def by auto

lemma mapper_satp_exists: "mapper_satp m \<lparr>m_mode = sm_mode m, m_asid = 0, m_ppn = sm_table_region_begin m\<rparr>"
  by (simp add: mapper_satp_def)

lemma maps_page_unique:
  assumes "maps_page m c v p" and "maps_page m c v q" and "p < 2 ^ 52" and "q < 2 ^ 52"
  shows "p = q"
proof -
  have "page_base (v * PAGE_SIZE) = v * PAGE_SIZE" by (simp add: page_base_aligned)
  then have "p * PAGE_SIZE = q * PAGE_SIZE"
    using assms(1,2) mapper_satp_exists [of m] unfolding maps_page_def by (metis Inr_inject MMU64_Result.ext_inject add_right_cancel)
  with assms(3,4) show ?thesis using page_mult_inj by blast
qed

section \<open>Mapping a page\<close>

lemma maps_page_curr [simp]: "maps_page (m\<lparr>sm_curr_table := k\<rparr>) = maps_page m"
  by (simp add: maps_page_def mapper_satp_def fun_eq_iff)

lemma maps_page_slots_kept: "slots_kept m c c' \<Longrightarrow> maps_page m c v p \<Longrightarrow> maps_page m c' v p"
  using translate_slots_kept unfolding maps_page_def by blast

lemma loader_next_outside:
  assumes inv: "loader_inv mm n l pm" and n: "n < 2 ^ 44"
  shows "m_next_map_ppn l * PAGE_SIZE \<notin> region_pages (m_mapper l)" and "m_next_map_ppn l < 2 ^ 44"
    and "unat (m_next_map_ppn l + 1) = unat (m_next_map_ppn l) + 1"
proof -
  let ?p = "m_next_map_ppn l"
  have p: "16 \<le> unat ?p" "unat ?p < 2 ^ 44" using inv n by (auto simp: loader_inv_def)
  then show "?p < 2 ^ 44" and "unat (?p + 1) = unat ?p + 1" by (simp_all add: word_less_nat_alt unat_word_ariths)
  show "?p * PAGE_SIZE \<notin> region_pages (m_mapper l)"
  proof
    assume "?p * PAGE_SIZE \<in> region_pages (m_mapper l)"
    then obtain t where t: "in_region (m_mapper l) t" "?p * PAGE_SIZE = t * PAGE_SIZE" by (auto simp: region_pages_def)
    have "unat t < 16" using inv t(1) by (auto simp: loader_inv_def in_region_16)
    moreover from this p have "t < 2 ^ 52" "?p < 2 ^ 52" by (simp_all add: word_less_nat_alt)
    then have "?p = t" using page_mult_inj t(2) by blast
    ultimately show False using p by simp
  qed
qed

lemma page_offset_less [simp]: "unat (page_offset a) < 4096"
  by (rule unat_page_offset_less)

lemma page_base_mult_offset [simp]: "page_base (p * PAGE_SIZE + page_offset a) = p * PAGE_SIZE"
  using page_add_offset(1) [of "p * PAGE_SIZE" "page_offset a"] by simp

lemma mapPage_loaded:
  assumes mm: "mmap_contract mm" and inv: "loader_inv mm n l pm" and n: "n < 2 ^ 44" and ld: "loaded l pm"
    and map: "mapPage mm vpn l pm = Inr (OK, l', pm')"
  shows "loaded l' pm' \<and> m_vpn_map l vpn = None \<and> m_vpn_map l' = (m_vpn_map l)(vpn \<mapsto> m_next_map_ppn l) \<and>
    m_stack_base l' = m_stack_base l \<and>
    (\<forall>a. ubyte l' pm' a = (if a div PAGE_SIZE = vpn then Some 0 else ubyte l pm a))"
proof -
  let ?p = "m_next_map_ppn l" and ?m = "m_mapper l" and ?mp = "MemoryMapping_new page_flags vpn (m_next_map_ppn l)"
  note p = loader_next_outside [OF inv n]
  have "m_mmu_mode l = SV39" using inv by (simp add: loader_inv_def)
  from mapPage_steps [OF this map] obtain pm1 m' where
    add: "addRAMPage mm (?p * PAGE_SIZE) pm = Inr (True, pm1)" and mp: "mapper_map ?mp ?m pm1 = Inr (OK, m', pm')"
    and l': "l' = l\<lparr>m_mapper := m', m_next_map_ppn := ?p + 1,
        m_vpn_map := (if m_vpn_map l vpn = None then (m_vpn_map l)(vpn \<mapsto> ?p) else m_vpn_map l)\<rparr>" .
  from inv obtain lv where pm: "pm_inv mm pm" and lv: "mapper_ok ?m lv (pm_contents pm)" by (auto simp: loader_inv_def)
  have pm1: "pm_inv mm pm1" "mapper_ok ?m lv (pm_contents pm1)"
      "pm_contents pm1 = (\<lambda>a. if page_base a = ?p * PAGE_SIZE then Some 0 else pm_contents pm a)"
    using addRAMPage_spec [OF mm pm add] addRAMPage_mapper_ok [OF mm pm lv add] by auto
  note ok1 = pm1(2) pm_inv_ok [OF pm1(1)]
  have "mp_ppn ?mp < 2 ^ 44" using p(2) by (simp add: MemoryMapping_new_def)
  from mapper_map_frame [OF ok1 this mp] obtain k where
    k: "m' = ?m\<lparr>sm_curr_table := k\<rparr>" and kept: "slots_kept ?m (pm_contents pm1) (pm_contents pm')"
    by (auto simp: map_frame_def)
  have old: "maps_page ?m (pm_contents pm') v q" if "m_vpn_map l v = Some q" for v q
  proof -
    have "maps_page ?m (pm_contents pm) v q" using ld that by (simp add: loaded_def)
    then have "maps_page ?m (pm_contents pm1) v q"
      by (rule maps_page_cong [OF lv, rotated]) (use p(1) in \<open>auto simp: pm1(3)\<close>)
    with kept show ?thesis by (rule maps_page_slots_kept)
  qed
  have new: "maps_page ?m (pm_contents pm') vpn ?p"
    unfolding maps_page_def using mapper_map_maps [OF ok1 mp p(2)] by auto
  have below: "q < ?p" if "m_vpn_map l v = Some q" for v q using ld that by (simp add: loaded_def)
  have none: "m_vpn_map l vpn = None"
  proof (rule ccontr)
    assume "m_vpn_map l vpn \<noteq> None"
    then obtain q where q: "m_vpn_map l vpn = Some q" by auto
    from p(2) below [OF q] have "q < 2 ^ 52" "?p < 2 ^ 52" by (auto simp: word_less_nat_alt)
    from maps_page_unique [OF old [OF q] new this] below [OF q] show False by simp
  qed
  have step: "q < ?p + 1 \<longleftrightarrow> q < ?p \<or> q = ?p" for q
    by (auto simp: word_less_nat_alt p(3) less_Suc_eq word_unat_eq_iff)
  have "m_vpn_map l v \<noteq> Some ?p" for v using below by blast
  then have "loaded l' pm'"
    using ld old new below none unfolding loaded_def l' k by (auto simp: step split: if_splits)
  moreover have "ubyte l' pm' a = (if a div PAGE_SIZE = vpn then Some 0 else ubyte l pm a)" for a
  proof (cases "m_vpn_map l' (a div PAGE_SIZE)")
    case None
    then show ?thesis by (auto simp: ubyte_def l' none split: if_splits)
  next
    case (Some q)
    then have q: "if a div PAGE_SIZE = vpn then q = ?p else m_vpn_map l (a div PAGE_SIZE) = Some q"
      by (auto simp: l' none split: if_splits)
    have "q * PAGE_SIZE \<notin> region_pages ?m"
      using q p(1) loader_page_outside [OF inv] n by (auto split: if_splits)
    then have "pm_contents pm' (q * PAGE_SIZE + page_offset a) = pm_contents pm1 (q * PAGE_SIZE + page_offset a)"
      using slots_keptD(3) [OF kept] by simp
    moreover have "q * PAGE_SIZE = ?p * PAGE_SIZE \<longleftrightarrow> q = ?p"
      using page_mult_inj [of q ?p] p(2) q below [of "a div PAGE_SIZE" q] by (auto simp: word_less_nat_alt split: if_splits)
    ultimately show ?thesis using Some q below [of "a div PAGE_SIZE" q] by (auto simp: ubyte_def pm1(3) split: if_splits)
  qed
  ultimately show ?thesis using none by (simp add: l')
qed

section \<open>Mapping the stack and the segments\<close>

text \<open>The step of the loop over the pages of a segment, as far as addresses go.\<close>

lemma page_step:
  assumes "page_offset va = 0" and "va < e" and "unat e \<le> 2 ^ 64 - 4096"
  shows "page_offset (va + PAGE_SIZE) = 0" and "unat (va + PAGE_SIZE) = unat va + 4096"
    and "va \<le> a \<and> page_base a < e \<longleftrightarrow> a div PAGE_SIZE = va div PAGE_SIZE \<or> va + PAGE_SIZE \<le> a \<and> page_base a < e"
    and "a div PAGE_SIZE = va div PAGE_SIZE \<Longrightarrow> \<not> va + PAGE_SIZE \<le> a"
proof -
  have v: "unat va mod 4096 = 0" using assms(1) unat_page_offset [of va] by simp
  have lt: "unat va < unat e" using assms(2) by (simp add: word_less_nat_alt)
  show step: "unat (va + PAGE_SIZE) = unat va + 4096"
    using lt assms(3) by (simp add: PAGE_SIZE_def unat_word_ariths)
  then show "page_offset (va + PAGE_SIZE) = 0" using v by (simp add: word_unat_eq_iff unat_page_offset)
  obtain k where k: "unat va = 4096 * k" using v by auto
  have d: "a div PAGE_SIZE = va div PAGE_SIZE \<longleftrightarrow> unat a div 4096 = k"
    by (simp add: page_number_eq_iff page_base_eq_iff k)
  then show "a div PAGE_SIZE = va div PAGE_SIZE \<Longrightarrow> \<not> va + PAGE_SIZE \<le> a"
    using step k by (auto simp: word_le_nat_alt)
  show "va \<le> a \<and> page_base a < e \<longleftrightarrow> a div PAGE_SIZE = va div PAGE_SIZE \<or> va + PAGE_SIZE \<le> a \<and> page_base a < e"
    unfolding d word_le_nat_alt word_less_nat_alt step unat_page_base k using lt k by auto
qed

lemma map_segment_loaded:
  assumes mm: "mmap_contract mm" and e: "unat e \<le> 2 ^ 64 - 4096"
  shows "loader_inv mm n l pm \<Longrightarrow> n + fuel \<le> 2 ^ 44 \<Longrightarrow> loaded l pm \<Longrightarrow> page_offset va = 0 \<Longrightarrow>
    map_segment fuel mm va e l pm = Some (Inr (OK, l', pm')) \<Longrightarrow>
    loaded l' pm' \<and> (\<forall>a. if va \<le> a \<and> page_base a < e then ubyte l pm a = None \<and> ubyte l' pm' a = Some 0
                         else ubyte l' pm' a = ubyte l pm a)"
proof (induction fuel arbitrary: va n l pm)
  case (Suc fuel)
  show ?case
  proof (cases "va < e")
    case False
    have "\<not> (va \<le> a \<and> page_base a < e)" for a
    proof -
      have "unat va \<le> unat a \<Longrightarrow> unat va \<le> unat (page_base a)"
        using Suc.prems(4) unat_page_offset [of va] unat_page_base [of a] div_le_mono [of "unat va" "unat a" 4096]
        by (auto simp: mod_eq_0_iff_dvd dvd_def)
      then show ?thesis using False by (auto simp: word_le_nat_alt word_less_nat_alt)
    qed
    with False Suc.prems show ?thesis by auto
  next
    case True
    with Suc.prems(5) obtain l1 pm1 where map: "mapPage mm (va div PAGE_SIZE) l pm = Inr (OK, l1, pm1)"
      and rest: "map_segment fuel mm (va + PAGE_SIZE) e l1 pm1 = Some (Inr (OK, l', pm'))"
      by (auto split: sum.splits if_splits)
    note step = page_step [OF Suc.prems(4) True e]
    have n: "n < 2 ^ 44" using Suc.prems(2) by simp
    have inv1: "loader_inv mm (Suc n) l1 pm1" using mapPage_inv [OF mm Suc.prems(1) n map] .
    note page = mapPage_loaded [OF mm Suc.prems(1) n Suc.prems(3) map]
    have "Suc n + fuel \<le> 2 ^ 44" using Suc.prems(2) by simp
    note IH = Suc.IH [OF inv1 this _ step(1) rest]
    have "if va \<le> a \<and> page_base a < e then ubyte l pm a = None \<and> ubyte l' pm' a = Some 0
        else ubyte l' pm' a = ubyte l pm a" for a
      using IH page step(4) [of a] unfolding step(3) by (auto simp: ubyte_def split: if_splits)
    with IH page show ?thesis by blast
  qed
qed simp

lemma map_stack_pages_loaded:
  assumes mm: "mmap_contract mm"
  shows "loader_inv mm n l pm \<Longrightarrow> n + unat (b - v) \<le> 2 ^ 44 \<Longrightarrow> v \<le> b \<Longrightarrow> loaded l pm \<Longrightarrow>
    map_stack_pages mm v b l pm = Inr (OK, l', pm') \<Longrightarrow>
    loaded l' pm' \<and> m_stack_base l' = m_stack_base l \<and>
    (\<forall>a. ubyte l' pm' a = (if v \<le> a div PAGE_SIZE \<and> a div PAGE_SIZE < b then Some 0 else ubyte l pm a))"
proof (induction "unat (b - v)" arbitrary: v n l pm)
  case 0
  then have "v = b" by (metis eq_iff_diff_eq_0 unat_eq_0)
  with 0 show ?case using map_stack_pages_unfold [of mm b b] by auto
next
  case (Suc k)
  then have ne: "v \<noteq> b" by auto
  then have lt: "v < b" using Suc.prems(3) by simp
  from Suc.prems(5) ne obtain l1 pm1 where map: "mapPage mm v l pm = Inr (OK, l1, pm1)"
    and rest: "map_stack_pages mm (v + 1) b l1 pm1 = Inr (OK, l', pm')"
    unfolding map_stack_pages_unfold [of mm v] by (auto split: if_splits)
  have k: "k = unat (b - (v + 1))" using Suc.hyps(2) ne by (simp add: unat_minus_one diff_diff_eq [symmetric])
  have n: "n < 2 ^ 44" "Suc n + unat (b - (v + 1)) \<le> 2 ^ 44" using Suc.hyps(2) Suc.prems(2) k by simp_all
  have "v + 1 \<le> b" using lt by (simp add: inc_le)
  note IH = Suc.hyps(1) [OF k mapPage_inv [OF mm Suc.prems(1) n(1) map] n(2) this _ rest]
  note page = mapPage_loaded [OF mm Suc.prems(1) n(1) Suc.prems(4) map]
  have "v \<le> x \<and> x < b \<longleftrightarrow> x = v \<or> v + 1 \<le> x \<and> x < b" for x
  proof -
    have "unat b < 2 ^ LENGTH(64)" by (rule unsigned_less)
    then have "unat (v + 1) = unat v + 1"
      using lt by (simp add: unat_word_ariths word_less_nat_alt)
    then show ?thesis using lt by (auto simp: word_le_nat_alt word_less_nat_alt word_unat_eq_iff)
  qed
  then show ?case using IH page by auto
qed

section \<open>Copying a segment\<close>

lemma loaded_write:
  assumes inv: "loader_inv mm n l pm" and ld: "loaded l pm"
    and same: "\<And>a. page_base a \<in> region_pages (m_mapper l) \<Longrightarrow> pm_contents pm' a = pm_contents pm a"
  shows "loaded l pm'"
proof -
  from inv obtain lv where "mapper_ok (m_mapper l) lv (pm_contents pm)" by (auto simp: loader_inv_def)
  from maps_page_cong [OF this same] ld show ?thesis by (simp add: loaded_def)
qed

text \<open>A change within the physical page of one virtual page.\<close>

lemma ubyte_page_change:
  assumes inv: "loader_inv mm n l pm" and n: "n \<le> 2 ^ 44" and ld: "loaded l pm" and ppn: "m_vpn_map l v = Some ppn"
    and pm': "pm_contents pm' = (\<lambda>a. if page_base a = ppn * PAGE_SIZE then f a else pm_contents pm a)"
  shows "ubyte l pm' a = (if a div PAGE_SIZE = v then f (ppn * PAGE_SIZE + page_offset a) else ubyte l pm a)"
proof (cases "m_vpn_map l (a div PAGE_SIZE)")
  case None
  then show ?thesis using ppn by (auto simp: ubyte_def)
next
  case (Some q)
  have "p < 2 ^ 52" if "m_vpn_map l x = Some p" for x p
    using inv that n unfolding loader_inv_def by (fastforce simp: word_less_nat_alt)
  then have "q * PAGE_SIZE = ppn * PAGE_SIZE \<longleftrightarrow> q = ppn" using page_mult_inj Some ppn by blast
  also have "\<dots> \<longleftrightarrow> a div PAGE_SIZE = v" using ld Some ppn unfolding loaded_def by (metis option.inject)
  finally have same: "q * PAGE_SIZE = ppn * PAGE_SIZE \<longleftrightarrow> a div PAGE_SIZE = v" .
  show ?thesis
  proof (cases "a div PAGE_SIZE = v")
    case True
    then show ?thesis using Some ppn by (simp add: ubyte_def pm')
  next
    case False
    then show ?thesis using Some same by (simp add: ubyte_def pm')
  qed
qed

lemma copy_page_loaded:
  assumes inv: "loader_inv mm n l pm" and n: "n \<le> 2 ^ 44" and ld: "loaded l pm" and ppn: "m_vpn_map l v = Some ppn"
    and cpy: "PhysMemory_write (ppn * PAGE_SIZE) (0 :: 32 word) pm = Inr (res, pm1)" "wr_status res = OK"
      "wr_host_page_ptr res = Some hp" "memcpy (ptr_add hp off) buf src k pm1 = Inr pm2"
    and fits: "unat off + k \<le> 4096"
  shows "loader_inv mm n l pm2 \<and> loaded l pm2 \<and> src + k \<le> max src (length buf) \<and>
    (\<forall>a. if a div PAGE_SIZE = v
         then (if unat off \<le> unat (page_offset a) \<and> unat (page_offset a) < unat off + k
               then ubyte l pm2 a = Some (buf ! (src + (unat (page_offset a) - unat off)))
               else ubyte l pm2 a = ubyte l pm a \<or> ubyte l pm2 a = Some 0)
         else ubyte l pm2 a = ubyte l pm a)"
proof -
  have "pm_inv mm pm" using inv by (simp add: loader_inv_def)
  note spec = copy_page [OF this cpy fits]
  have same: "pm_contents pm2 a = pm_contents pm a" if "page_base a \<in> region_pages (m_mapper l)" for a
    using loader_page_outside [OF inv n ppn] that spec by auto
  from spec have "pm_contents pm2 = (\<lambda>a. if page_base a = ppn * PAGE_SIZE then
        (if unat off \<le> unat (page_offset a) \<and> unat (page_offset a) < unat off + k
         then Some (buf ! (src + (unat (page_offset a) - unat off)))
         else if unat (page_offset a) < 4 then Some 0 else pm_contents pm a) else pm_contents pm a)" by blast
  note b = ubyte_page_change [OF inv n ld ppn this]
  have off: "page_offset (ppn * PAGE_SIZE + page_offset a) = page_offset a" for a
    using page_add_offset(2) [of "ppn * PAGE_SIZE" "page_offset a"] by simp
  have "ubyte l pm a = pm_contents pm (ppn * PAGE_SIZE + page_offset a)" if "a div PAGE_SIZE = v" for a
    using that ppn by (simp add: ubyte_def)
  then show ?thesis
    using spec loader_inv_write [OF inv _ same] loaded_write [OF inv ld same] by (auto simp: b off)
qed

text \<open>
  The copying loop from \<open>offset\<close> on: the rest of the file image is in place; on the pages it touches, the
  other bytes are as before or zero; no other page changes.
\<close>

definition image_at :: "byte list \<Rightarrow> GElf_Phdr \<Rightarrow> VirtAddr \<Rightarrow> byte option" where
  "image_at buf seg a = Some (buf ! (unat (p_offset seg) + (unat a - unat (p_vaddr seg))))"

definition copied :: "byte list \<Rightarrow> GElf_Phdr \<Rightarrow> nat \<Rightarrow> (VirtAddr \<Rightarrow> byte option) \<Rightarrow> (VirtAddr \<Rightarrow> byte option) \<Rightarrow> bool" where
  "copied buf seg offset u u' \<longleftrightarrow>
     (let b = unat (p_vaddr seg) + offset; e = unat (p_vaddr seg) + unat (p_filesz seg) in
      \<forall>a. if b \<le> unat a \<and> unat a < e then u' a = image_at buf seg a
          else if b < e \<and> b div 4096 \<le> unat a div 4096 \<and> unat a div 4096 * 4096 < e then u' a = u a \<or> u' a = Some 0
          else u' a = u a)"

lemma copied_step:
  assumes lt: "offset < unat (p_filesz seg)" and b: "b = unat (p_vaddr seg) + offset"
    and k: "k = min (4096 - b mod 4096) (unat (p_filesz seg) - offset)"
    and page: "\<And>a. unat a div 4096 = b div 4096 \<Longrightarrow>
        (if b mod 4096 \<le> unat a mod 4096 \<and> unat a mod 4096 < b mod 4096 + k then u1 a = image_at buf seg a
         else u1 a = u a \<or> u1 a = Some 0)"
    and other: "\<And>a. unat a div 4096 \<noteq> b div 4096 \<Longrightarrow> u1 a = u a"
    and rest: "copied buf seg (offset + k) u1 u'"
  shows "copied buf seg offset u u'"
proof -
  define e where "e = unat (p_vaddr seg) + unat (p_filesz seg)"
  define q r where "q = b div 4096" and "r = b mod 4096"
  have qr: "b = q * 4096 + r" "r < 4096" by (simp_all add: q_def r_def)
  have be: "b < e" using lt b by (simp add: e_def)
  have k': "k = min (4096 - r) (e - b)" using k b by (simp add: e_def r_def)
  have full: "b + k = (q + 1) * 4096" if "b + k < e"
  proof -
    have "k = 4096 - r" using k' that by auto
    with qr show ?thesis by simp
  qed
  have part: "b + k = e \<and> e \<le> (q + 1) * 4096" if "\<not> b + k < e" using k' be qr that by auto
  have rest: "if b + k \<le> unat a \<and> unat a < e then u' a = image_at buf seg a
      else if b + k < e \<and> (b + k) div 4096 \<le> unat a div 4096 \<and> unat a div 4096 * 4096 < e then u' a = u1 a \<or> u' a = Some 0
      else u' a = u1 a" for a
    using rest by (simp add: copied_def Let_def e_def b add.assoc)
  have "if b \<le> unat a \<and> unat a < e then u' a = image_at buf seg a
      else if b < e \<and> q \<le> unat a div 4096 \<and> unat a div 4096 * 4096 < e then u' a = u a \<or> u' a = Some 0
      else u' a = u a" for a
  proof -
    define x where "x = unat a div 4096"
    define y where "y = unat a mod 4096"
    have xy: "unat a = x * 4096 + y" "y < 4096" by (simp_all add: x_def y_def)
    have page: "x = q \<Longrightarrow> if r \<le> y \<and> y < r + k then u1 a = image_at buf seg a else u1 a = u a \<or> u1 a = Some 0"
      and other: "x \<noteq> q \<Longrightarrow> u1 a = u a"
      using page [of a] other [of a] by (simp_all add: x_def y_def q_def r_def)
    note rest = rest [of a, folded x_def]
    have below: "x < q \<Longrightarrow> unat a < q * 4096" and above: "q < x \<Longrightarrow> (q + 1) * 4096 \<le> unat a"
    proof -
      show "x < q \<Longrightarrow> unat a < q * 4096" using xy mult_le_mono1 [of "x + 1" q 4096] by simp
      show "q < x \<Longrightarrow> (q + 1) * 4096 \<le> unat a" using xy mult_le_mono1 [of "q + 1" x 4096] by simp
    qed
    show ?thesis unfolding x_def [symmetric]
    proof (cases "b + k < e")
      case True
      note f = full [OF True]
      have "(b + k) div 4096 = q + 1" unfolding f by simp
      then have rest: "if (q + 1) * 4096 \<le> unat a \<and> unat a < e then u' a = image_at buf seg a
          else if q < x \<and> x * 4096 < e then u' a = u1 a \<or> u' a = Some 0 else u' a = u1 a"
        using rest True f by (simp add: Suc_le_eq)
      consider "x < q" | "x = q" | "q < x" by linarith
      then show "if b \<le> unat a \<and> unat a < e then u' a = image_at buf seg a
          else if b < e \<and> q \<le> x \<and> x * 4096 < e then u' a = u a \<or> u' a = Some 0 else u' a = u a"
      proof cases
        case 1
        then show ?thesis using rest other below qr by simp
      next
        case 2
        have "r + k = 4096" using f qr by simp
        moreover have "\<not> (q + 1) * 4096 \<le> unat a" "unat a < e" "q * 4096 < e" using xy True f 2 qr be by simp_all
        moreover have "b \<le> unat a \<longleftrightarrow> r \<le> y" using xy qr 2 by simp
        ultimately show ?thesis using rest page [OF 2] xy(2) 2 be by simp
      next
        case 3
        have "b \<le> unat a" using above [OF 3] qr by simp
        then show ?thesis using rest other above [OF 3] 3 be by (auto split: if_splits)
      qed
    next
      case False
      then have same: "u' a = u1 a" using rest part by auto
      have rk: "r + k \<le> 4096" "q * 4096 + r + k = e" using part [OF False] qr by auto
      consider "x < q" | "x = q" | "q < x" by linarith
      then show "if b \<le> unat a \<and> unat a < e then u' a = image_at buf seg a
          else if b < e \<and> q \<le> x \<and> x * 4096 < e then u' a = u a \<or> u' a = Some 0 else u' a = u a"
      proof cases
        case 1
        then show ?thesis using same other below qr by simp
      next
        case 2
        have "b \<le> unat a \<longleftrightarrow> r \<le> y" "unat a < e \<longleftrightarrow> y < r + k" "q * 4096 < e" using xy qr 2 be rk by auto
        then show ?thesis using same page [OF 2] 2 be by simp
      next
        case 3
        then show ?thesis using same other above [OF 3] rk xy by simp
      qed
    qed
  qed
  then show ?thesis by (simp add: copied_def Let_def e_def b q_def)
qed

lemma same_page_diff:
  fixes a b v :: nat
  assumes "a div 4096 = b div 4096" and "b mod 4096 \<le> a mod 4096" and "v \<le> b"
  shows "a - v = b - v + (a mod 4096 - b mod 4096)"
proof -
  have "D * 4096 + y = a \<Longrightarrow> D * 4096 + r = b \<Longrightarrow> r \<le> y \<Longrightarrow> a - v = b - v + (y - r)" for D y r
    using assms(3) by arith
  from this [of "b div 4096" "a mod 4096" "b mod 4096"] show ?thesis
    using assms(2) div_mult_mod_eq [of a 4096] div_mult_mod_eq [of b 4096] unfolding assms(1) by blast
qed

lemma load_segment_loaded:
  assumes n: "n \<le> 2 ^ 44"
  shows "loader_inv mm n l pm \<Longrightarrow> loaded l pm \<Longrightarrow> unat (p_vaddr seg) + unat (p_filesz seg) < 2 ^ 64 \<Longrightarrow>
    load_segment buf seg offset l pm = Inr pm' \<Longrightarrow>
    loaded l pm' \<and> copied buf seg (unat offset) (ubyte l pm) (ubyte l pm') \<and>
    (offset < p_filesz seg \<longrightarrow> unat (p_offset seg) + unat (p_filesz seg) \<le> length buf)"
proof (induction buf seg offset l pm rule: load_segment.induct)
  case (1 buf seg offset l pm)
  show ?case
  proof (cases "offset < p_filesz seg")
    case False
    then show ?thesis
      using "1.prems" by (auto simp: load_segment.simps [of buf seg offset] copied_def Let_def word_less_nat_alt)
  next
    case True
    let ?va = "p_vaddr seg + offset"
    let ?k = "min (4096 - unat (page_offset ?va)) (unat (p_filesz seg) - unat offset)"
    let ?c = "min (PAGE_SIZE - page_offset ?va) (p_filesz seg - offset)"
    from load_segment_steps [OF "1.prems"(4) True] obtain ppn res pm1 hp pm2
      where ppn: "m_vpn_map l (?va div PAGE_SIZE) = Some ppn"
        and cpy: "PhysMemory_write (ppn * PAGE_SIZE) (0 :: 32 word) pm = Inr (res, pm1)" "wr_status res = OK"
          "wr_host_page_ptr res = Some hp"
          "memcpy (ptr_add hp (page_offset ?va)) buf (unat (p_offset seg) + unat offset) ?k pm1 = Inr pm2"
        and rest: "load_segment buf seg (offset + ?c) l pm2 = Inr pm'" .
    note page = copy_page_loaded [OF "1.prems"(1) n "1.prems"(2) ppn cpy copy_page_fits]
    have lt: "unat offset < unat (p_filesz seg)" using True by (simp add: word_less_nat_alt)
    have va: "unat ?va = unat (p_vaddr seg) + unat offset" using lt "1.prems"(3) by (simp add: unat_word_ariths)
    have c: "unat ?c = ?k" by (rule min_page_size [OF True])
    have "unat (p_filesz seg) < 2 ^ LENGTH(64)" by (rule unsigned_less)
    then have nxt: "unat (offset + ?c) = unat offset + ?k"
      using c lt by (simp add: unat_word_ariths min_def)
    have "(?va - page_offset ?va) div PAGE_SIZE = ?va div PAGE_SIZE"
      by (simp add: page_number_eq_iff flip: page_base_eq_minus)
    then have IH: "loaded l pm' \<and> copied buf seg (unat offset + ?k) (ubyte l pm2) (ubyte l pm') \<and>
        (offset + ?c < p_filesz seg \<longrightarrow> unat (p_offset seg) + unat (p_filesz seg) \<le> length buf)"
      using "1.IH" [OF True refl refl refl] "1.prems"(3) page ppn cpy rest nxt by (simp add: min_page_size [OF True])
    have cop: "copied buf seg (unat offset + ?k) (ubyte l pm2) (ubyte l pm')" using IH by blast
    have "copied buf seg (unat offset) (ubyte l pm) (ubyte l pm')"
    proof (rule copied_step [OF lt refl _ _ _ cop])
      show "?k = min (4096 - (unat (p_vaddr seg) + unat offset) mod 4096) (unat (p_filesz seg) - unat offset)"
        by (simp add: unat_page_offset va)
    next
      fix a :: VirtAddr assume same: "unat a div 4096 = (unat (p_vaddr seg) + unat offset) div 4096"
      let ?b = "unat (p_vaddr seg) + unat offset"
      have "unat a - unat (p_vaddr seg) = unat offset + (unat a mod 4096 - ?b mod 4096)" if "?b mod 4096 \<le> unat a mod 4096"
        using same_page_diff [OF same that, of "unat (p_vaddr seg)"] by simp
      moreover have "a div PAGE_SIZE = ?va div PAGE_SIZE" using same by (simp add: page_number_eq_iff page_base_eq_iff va)
      ultimately show "if ?b mod 4096 \<le> unat a mod 4096 \<and> unat a mod 4096 < ?b mod 4096 + ?k then ubyte l pm2 a = image_at buf seg a
          else ubyte l pm2 a = ubyte l pm a \<or> ubyte l pm2 a = Some 0"
        using page by (auto simp: unat_page_offset va image_at_def add.assoc)
    next
      fix a :: VirtAddr assume "unat a div 4096 \<noteq> (unat (p_vaddr seg) + unat offset) div 4096"
      then have "a div PAGE_SIZE \<noteq> ?va div PAGE_SIZE" by (simp add: page_number_eq_iff page_base_eq_iff va)
      then show "ubyte l pm2 a = ubyte l pm a" using page by auto
    qed
    moreover have "unat (p_offset seg) + unat (p_filesz seg) \<le> length buf"
    proof (cases "offset + ?c < p_filesz seg")
      case False
      then have "?k = unat (p_filesz seg) - unat offset" "0 < ?k"
        using nxt lt unat_page_offset_less [of ?va] by (auto simp: word_less_nat_alt)
      then show ?thesis using page lt by auto
    qed (use IH in blast)
    ultimately show ?thesis using IH by blast
  qed
qed

section \<open>Loading a file\<close>

definition load_seg :: "ElfInput \<Rightarrow> nat \<Rightarrow> GElf_Phdr \<Rightarrow> bool" where
  "load_seg elf i seg \<longleftrightarrow> elf_phdr elf i = Some seg \<and> p_type seg = PT_LOAD"

text \<open>
  What the format demands of a segment: the file image is no longer than the segment, and the segment
  fits into the address space (its last page excluded, where the address of the next page wraps around).
\<close>

definition seg_ok :: "GElf_Phdr \<Rightarrow> bool" where
  "seg_ok seg \<longleftrightarrow> p_filesz seg \<le> p_memsz seg \<and> unat (p_vaddr seg) + unat (p_memsz seg) \<le> 2 ^ 64 - 4096"

definition on_seg_page :: "GElf_Phdr \<Rightarrow> VirtAddr \<Rightarrow> bool" where
  "on_seg_page seg a \<longleftrightarrow> page_base (p_vaddr seg) \<le> a \<and> page_base a < p_vaddr seg + p_memsz seg"

definition seg_byte :: "byte list \<Rightarrow> GElf_Phdr \<Rightarrow> VirtAddr \<Rightarrow> byte option" where
  "seg_byte buf seg a =
     (if p_vaddr seg \<le> a \<and> unat a < unat (p_vaddr seg) + unat (p_filesz seg) then image_at buf seg a else Some 0)"

lemma seg_byte_some [simp]: "seg_byte buf seg a \<noteq> None"
  by (simp add: seg_byte_def image_at_def)

lemma on_seg_page_nat:
  assumes "seg_ok seg"
  shows "on_seg_page seg a \<longleftrightarrow> unat (p_vaddr seg) div 4096 \<le> unat a div 4096 \<and>
     unat a div 4096 * 4096 < unat (p_vaddr seg) + unat (p_memsz seg)"
proof -
  have "unat (p_vaddr seg + p_memsz seg) = unat (p_vaddr seg) + unat (p_memsz seg)"
    using assms by (simp add: seg_ok_def unat_word_ariths)
  then show ?thesis
    by (simp add: on_seg_page_def word_le_nat_alt word_less_nat_alt unat_page_base flip: less_eq_div_iff_mult_less_eq)
qed

text \<open>Mapping and copying one segment.\<close>

lemma segment_loaded:
  assumes mm: "mmap_contract mm" and inv: "loader_inv mm n l pm" and n: "n + fuel \<le> 2 ^ 44" and ld: "loaded l pm"
    and ok: "seg_ok seg"
    and map: "map_segment fuel mm (page_base (p_vaddr seg)) (p_vaddr seg + p_memsz seg) l pm = Some (Inr (OK, l', pm1))"
    and load: "load_segment buf seg 0 l' pm1 = Inr pm'"
  shows "loader_inv mm (n + fuel) l' pm' \<and> loaded l' pm' \<and>
    (p_filesz seg \<noteq> 0 \<longrightarrow> unat (p_offset seg) + unat (p_filesz seg) \<le> length buf) \<and>
    (\<forall>a. if on_seg_page seg a then ubyte l pm a = None \<and> ubyte l' pm' a = seg_byte buf seg a
         else ubyte l' pm' a = ubyte l pm a)"
proof -
  let ?v = "unat (p_vaddr seg)" and ?m = "unat (p_memsz seg)" and ?f = "unat (p_filesz seg)"
  have fm: "?f \<le> ?m" "?v + ?m \<le> 2 ^ 64 - 4096" using ok by (simp_all add: seg_ok_def word_le_nat_alt)
  then have "unat (p_vaddr seg + p_memsz seg) \<le> 2 ^ 64 - 4096" by (simp add: unat_word_ariths)
  note mapped = map_segment_loaded [OF mm this inv n ld page_offset_base map, folded on_seg_page_def]
  have inv1: "loader_inv mm (n + fuel) l' pm1" using map_segment_inv [OF mm inv n map] .
  have "?v + ?f < 2 ^ 64" using fm by simp
  from load_segment_loaded [OF n inv1 _ this load] mapped
  have post: "loaded l' pm'" "copied buf seg 0 (ubyte l' pm1) (ubyte l' pm')"
      "p_filesz seg \<noteq> 0 \<longrightarrow> unat (p_offset seg) + ?f \<le> length buf"
    by (auto simp: word_gt_0)
  have "if on_seg_page seg a then ubyte l pm a = None \<and> ubyte l' pm' a = seg_byte buf seg a
         else ubyte l' pm' a = ubyte l pm a" for a
  proof -
    have c: "if ?v \<le> unat a \<and> unat a < ?v + ?f then ubyte l' pm' a = image_at buf seg a
      else if ?v < ?v + ?f \<and> ?v div 4096 \<le> unat a div 4096 \<and> unat a div 4096 * 4096 < ?v + ?f
           then ubyte l' pm' a = ubyte l' pm1 a \<or> ubyte l' pm' a = Some 0
           else ubyte l' pm' a = ubyte l' pm1 a"
      using post(2) unfolding copied_def Let_def add_0_right by blast
    have "on_seg_page seg a" if "?v \<le> unat a" "unat a < ?v + ?f"
      using that fm div_mult_mod_eq [of "unat a" 4096] by (simp add: on_seg_page_nat [OF ok] div_le_mono)
    moreover have "on_seg_page seg a" if "?v div 4096 \<le> unat a div 4096 \<and> unat a div 4096 * 4096 < ?v + ?f"
      using that fm by (simp add: on_seg_page_nat [OF ok])
    moreover have "if on_seg_page seg a then ubyte l pm a = None \<and> ubyte l' pm1 a = Some 0
        else ubyte l' pm1 a = ubyte l pm a" using mapped by blast
    ultimately show ?thesis using c by (auto simp: seg_byte_def word_le_nat_alt split: if_splits)
  qed
  moreover have "loader_inv mm (n + fuel) l' pm'" using load_segment_inv [OF n inv1 load] .
  ultimately show ?thesis using post by blast
qed

text \<open>The image after the segments of a range of program headers.\<close>

definition segs_loaded :: "ElfInput \<Rightarrow> byte list \<Rightarrow> (nat \<Rightarrow> bool) \<Rightarrow> (VirtAddr \<Rightarrow> byte option) \<Rightarrow> (VirtAddr \<Rightarrow> byte option) \<Rightarrow> bool" where
  "segs_loaded elf buf I u u' \<longleftrightarrow>
     (\<forall>i seg. I i \<and> load_seg elf i seg \<longrightarrow>
        (p_filesz seg \<noteq> 0 \<longrightarrow> unat (p_offset seg) + unat (p_filesz seg) \<le> length buf) \<and>
        (\<forall>a. on_seg_page seg a \<longrightarrow> u a = None \<and> u' a = seg_byte buf seg a)) \<and>
     (\<forall>a. (\<forall>i seg. I i \<and> load_seg elf i seg \<longrightarrow> \<not> on_seg_page seg a) \<longrightarrow> u' a = u a)"

lemma segs_loaded_step:
  assumes rest: "segs_loaded elf buf (\<lambda>j. i < j \<and> j < Suc i + k) u1 u'"
    and here: "\<And>seg a. load_seg elf i seg \<Longrightarrow>
       (p_filesz seg \<noteq> 0 \<longrightarrow> unat (p_offset seg) + unat (p_filesz seg) \<le> length buf) \<and>
       (if on_seg_page seg a then u a = None \<and> u1 a = seg_byte buf seg a else u1 a = u a)"
    and skip: "\<nexists>seg. load_seg elf i seg \<Longrightarrow> u1 = u"
  shows "segs_loaded elf buf (\<lambda>j. i \<le> j \<and> j < i + Suc k) u u'"
proof -
  have split: "i \<le> j \<and> j < i + Suc k \<longleftrightarrow> j = i \<or> i < j \<and> j < Suc i + k" for j by auto
  have fwd: "u' a = u1 a \<or> u1 a = None" for a using rest unfolding segs_loaded_def by metis
  have bwd: "u1 a = None \<Longrightarrow> u a = None" for a using here skip seg_byte_some by (metis option.distinct(1))
  show ?thesis
    unfolding segs_loaded_def split
  proof (intro conjI allI impI)
    fix j seg assume j: "(j = i \<or> i < j \<and> j < Suc i + k) \<and> load_seg elf j seg"
    show "unat (p_offset seg) + unat (p_filesz seg) \<le> length buf" if "p_filesz seg \<noteq> 0"
      using j that here rest unfolding segs_loaded_def by blast
    show "u a = None" "u' a = seg_byte buf seg a" if "on_seg_page seg a" for a
    proof -
      have "u a = None \<and> u' a = seg_byte buf seg a"
      proof (cases "j = i")
        case True
        then show ?thesis using here [of seg a] fwd [of a] j that seg_byte_some [of buf seg a] by auto
      next
        case False
        then show ?thesis using rest j that bwd unfolding segs_loaded_def by blast
      qed
      then show "u a = None" "u' a = seg_byte buf seg a" by simp_all
    qed
  next
    fix a assume out: "\<forall>j seg. (j = i \<or> i < j \<and> j < Suc i + k) \<and> load_seg elf j seg \<longrightarrow> \<not> on_seg_page seg a"
    then have "u' a = u1 a" using rest unfolding segs_loaded_def by blast
    moreover have "u1 a = u a" using here out skip by (cases "\<exists>seg. load_seg elf i seg") metis+
    ultimately show "u' a = u a" by simp
  qed
qed

text \<open>The program headers of a file.\<close>

definition elf_headers :: "ElfInput \<Rightarrow> nat \<Rightarrow> bool" where
  "elf_headers elf i \<longleftrightarrow> (\<exists>num entry. elf_ehdr elf = Some (num, entry) \<and> i < unat num)"

text \<open>Every loadable segment of the file is well-formed.\<close>

definition elf_ok :: "ElfInput \<Rightarrow> bool" where
  "elf_ok elf \<longleftrightarrow> (\<forall>i seg. elf_headers elf i \<and> load_seg elf i seg \<longrightarrow> seg_ok seg)"

lemma load_segments_loaded:
  assumes mm: "mmap_contract mm"
  shows "loader_inv mm n l pm \<Longrightarrow> n + k * fuel \<le> 2 ^ 44 \<Longrightarrow> loaded l pm \<Longrightarrow>
    (\<And>j seg. i \<le> j \<Longrightarrow> j < i + k \<Longrightarrow> load_seg elf j seg \<Longrightarrow> seg_ok seg) \<Longrightarrow>
    load_segments fuel mm elf buf i k l pm = Some (Inr (OK, l', pm')) \<Longrightarrow>
    loaded l' pm' \<and> segs_loaded elf buf (\<lambda>j. i \<le> j \<and> j < i + k) (ubyte l pm) (ubyte l' pm')"
proof (induction k arbitrary: i n l pm)
  case 0
  then show ?case by (auto simp: segs_loaded_def)
next
  case (Suc k)
  from Suc.prems(5) obtain seg where seg: "elf_phdr elf i = Some seg" by (auto split: option.splits)
  have later: "seg_ok seg" if "Suc i \<le> j" "j < Suc i + k" "load_seg elf j seg" for j seg
    using Suc.prems(4) [of j seg] that by simp
  show ?case
  proof (cases "p_type seg = PT_LOAD")
    case False
    then have none: "\<nexists>seg. load_seg elf i seg" using seg by (simp add: load_seg_def)
    have "load_segments fuel mm elf buf (Suc i) k l pm = Some (Inr (OK, l', pm'))" "n + k * fuel \<le> 2 ^ 44"
      using Suc.prems(2,5) seg False by simp_all
    then have "loaded l' pm' \<and> segs_loaded elf buf (\<lambda>j. Suc i \<le> j \<and> j < Suc i + k) (ubyte l pm) (ubyte l' pm')"
      using Suc.IH [OF Suc.prems(1) _ Suc.prems(3)] later by blast
    moreover from none have "\<not> load_seg elf i seg'" for seg' by blast
    ultimately show ?thesis
      using segs_loaded_step [of elf buf i k "ubyte l pm" "ubyte l' pm'" "ubyte l pm"] by (simp add: Suc_le_eq)
  next
    case True
    then have this_seg: "load_seg elf i seg" using seg by (simp add: load_seg_def)
    from Suc.prems(5) seg True obtain l1 pm1 pm2 where
      map: "map_segment fuel mm (page_base (p_vaddr seg)) (p_vaddr seg + p_memsz seg) l pm = Some (Inr (OK, l1, pm1))"
      and load: "load_segment buf seg 0 l1 pm1 = Inr pm2"
      and rest: "load_segments fuel mm elf buf (Suc i) k l1 pm2 = Some (Inr (OK, l', pm'))"
      by (auto simp: Let_def split: option.splits sum.splits if_splits)
    have "seg_ok seg" using Suc.prems(4) [OF _ _ this_seg] by simp
    moreover have "n + fuel \<le> 2 ^ 44" "n + fuel + k * fuel \<le> 2 ^ 44" using Suc.prems(2) by simp_all
    ultimately have one: "loader_inv mm (n + fuel) l1 pm2 \<and> loaded l1 pm2 \<and>
        (p_filesz seg \<noteq> 0 \<longrightarrow> unat (p_offset seg) + unat (p_filesz seg) \<le> length buf) \<and>
        (\<forall>a. if on_seg_page seg a then ubyte l pm a = None \<and> ubyte l1 pm2 a = seg_byte buf seg a
             else ubyte l1 pm2 a = ubyte l pm a)"
      using segment_loaded [OF mm Suc.prems(1) _ Suc.prems(3) _ map load] by blast
    then have "loaded l' pm' \<and> segs_loaded elf buf (\<lambda>j. Suc i \<le> j \<and> j < Suc i + k) (ubyte l1 pm2) (ubyte l' pm')"
      using Suc.IH [OF _ \<open>n + fuel + k * fuel \<le> 2 ^ 44\<close> _ _ rest] later by blast
    then have ld: "loaded l' pm'"
      and rest: "segs_loaded elf buf (\<lambda>j. i < j \<and> j < Suc i + k) (ubyte l1 pm2) (ubyte l' pm')"
      by (simp_all add: Suc_le_eq)
    have "seg' = seg" if "load_seg elf i seg'" for seg' using that seg by (simp add: load_seg_def)
    then have "segs_loaded elf buf (\<lambda>j. i \<le> j \<and> j < i + Suc k) (ubyte l pm) (ubyte l' pm')"
      using one this_seg by (intro segs_loaded_step [OF rest]) blast+
    with ld show ?thesis by blast
  qed
qed

lemma loadElf_loaded:
  assumes mm: "mmap_contract mm" and elf: "elf_ok elf" and inv: "loader_inv mm n l pm"
    and n: "n + 2 ^ 16 * fuel \<le> 2 ^ 44" and ld: "loaded l pm"
    and load: "loadElf fuel mm elf l pm = Some (Inr ((OK, pc), l', pm'))"
  shows "loaded l' pm' \<and> (\<exists>num buf. elf_ehdr elf = Some (num, pc) \<and> elf_buf elf = Some buf \<and>
    segs_loaded elf buf (elf_headers elf) (ubyte l pm) (ubyte l' pm'))"
proof -
  from load obtain buf phnum where buf: "elf_buf elf = Some buf" and hdr: "elf_ehdr elf = Some (phnum, pc)"
    and segs: "load_segments fuel mm elf buf 0 (unat phnum) l pm = Some (Inr (OK, l', pm'))"
    by (auto simp: loadElf_def split: option.splits if_splits sum.splits prod.splits)
  have "unat phnum < 2 ^ LENGTH(16)" by (rule unsigned_less)
  then have "unat phnum * fuel \<le> 2 ^ 16 * fuel" by (intro mult_le_mono1) simp
  then have "n + unat phnum * fuel \<le> 2 ^ 44" using n by linarith
  moreover have hs: "elf_headers elf = (\<lambda>j. 0 \<le> j \<and> j < 0 + unat phnum)" using hdr by (simp add: elf_headers_def fun_eq_iff)
  ultimately show ?thesis
    using load_segments_loaded [OF mm inv _ ld _ segs] elf buf hdr unfolding elf_ok_def hs by auto
qed

text \<open>The stack is a range of zeros.\<close>

lemma mapStack_loaded:
  assumes mm: "mmap_contract mm" and inv: "loader_inv mm n l pm" and n: "n + unat (m_stack_size l) \<le> 2 ^ 44"
    and ld: "loaded l pm" and le: "m_stack_size l \<le> m_stack_base l"
    and stack: "mapStack mm l pm = Inr ((OK, sp), l', pm')"
  shows "loaded l' pm' \<and> sp = m_stack_base l * PAGE_SIZE \<and>
    (\<forall>a. ubyte l' pm' a =
       (if m_stack_base l - m_stack_size l \<le> a div PAGE_SIZE \<and> a div PAGE_SIZE < m_stack_base l then Some 0 else ubyte l pm a))"
proof -
  let ?b = "m_stack_base l" and ?v = "m_stack_base l - m_stack_size l"
  from stack have map: "map_stack_pages mm ?v ?b l pm = Inr (OK, l', pm')" and sp: "sp = m_stack_base l' * PAGE_SIZE"
    by (auto simp: mapStack_def res_simps split: if_splits)
  have "?v \<le> ?b" using le by (simp add: word_le_nat_alt unat_sub)
  with map_stack_pages_loaded [OF mm inv _ this ld map] n sp show ?thesis by simp
qed

text \<open>User code sees the image.\<close>

definition user_sees :: "MSTATUS64 \<Rightarrow> SATP64 \<Rightarrow> PhysMemory \<Rightarrow> VirtAddr \<Rightarrow> byte option \<Rightarrow> bool" where
  "user_sees ms satp pm a b \<longleftrightarrow>
     (\<exists>pa. (\<forall>acc. translate USER acc a ms satp pm = Inr \<lparr>mmu_status = OK, phys_addr = pa\<rparr>) \<and> pm_contents pm pa = b)"

lemma loaded_visible:
  assumes ld: "loaded l pm" and satp: "mapper_satp (m_mapper l) satp" and b: "ubyte l pm a = Some b"
  shows "user_sees ms satp pm a (Some b)"
proof -
  from b obtain p where p: "m_vpn_map l (a div PAGE_SIZE) = Some p"
    and c: "pm_contents pm (p * PAGE_SIZE + page_offset a) = Some b"
    by (auto simp: ubyte_def split: option.splits)
  have "maps_page (m_mapper l) (pm_contents pm) (a div PAGE_SIZE) p" using ld p by (simp add: loaded_def)
  then have "translate USER acc a ms satp pm = Inr \<lparr>mmu_status = OK, phys_addr = p * PAGE_SIZE + page_offset a\<rparr>" for acc
    using satp by (simp add: maps_page_def page_number_mult translate_eq)
  with c show ?thesis unfolding user_sees_def by blast
qed

lemma loaded_empty: "m_vpn_map l = Map.empty \<Longrightarrow> loaded l pm"
  by (simp add: loaded_def)

text \<open>
  C4: loading a well-formed file leaves the segments of the file in user memory: every byte of a
  page of a loadable segment translates, for all kinds of access, and reads as the byte of the file image or as
  zero beyond it; the bytes copied lie within the file; what was in memory before is still there; and the
  start address is the entry point of the header.
\<close>

theorem loadElf_image:
  assumes "mmap_contract mm" and "elf_ok elf" and inv: "loader_inv mm n l pm"
    and "n + 2 ^ 16 * fuel \<le> 2 ^ 44" and "loaded l pm"
    and load: "loadElf fuel mm elf l pm = Some (Inr ((OK, pc), l', pm'))"
    and satp: "mapper_satp (m_mapper l') satp"
  shows "\<exists>num buf. elf_ehdr elf = Some (num, pc) \<and> elf_buf elf = Some buf \<and>
    (\<forall>i seg. i < unat num \<and> load_seg elf i seg \<longrightarrow>
       (p_filesz seg \<noteq> 0 \<longrightarrow> unat (p_offset seg) + unat (p_filesz seg) \<le> length buf) \<and>
       (\<forall>a. on_seg_page seg a \<longrightarrow> user_sees ms satp pm' a (seg_byte buf seg a))) \<and>
    (\<forall>a b. ubyte l pm a = Some b \<longrightarrow> user_sees ms satp pm' a (Some b))"
proof -
  from loadElf_loaded [OF assms(1-6)] obtain num buf where ld: "loaded l' pm'"
    and hdr: "elf_ehdr elf = Some (num, pc)" "elf_buf elf = Some buf"
    and segs: "segs_loaded elf buf (elf_headers elf) (ubyte l pm) (ubyte l' pm')" by blast
  note see = loaded_visible [OF ld satp]
  have "user_sees ms satp pm' a (seg_byte buf seg a)"
    if "i < unat num" "load_seg elf i seg" "on_seg_page seg a" for i seg a
  proof -
    have "ubyte l' pm' a = seg_byte buf seg a"
      using segs that hdr unfolding segs_loaded_def elf_headers_def by blast
    moreover obtain b where "seg_byte buf seg a = Some b" using seg_byte_some by blast
    ultimately show ?thesis using see by simp
  qed
  moreover have "ubyte l' pm' a = Some b" if "ubyte l pm a = Some b" for a b
    using segs that unfolding segs_loaded_def by (metis option.distinct(1))
  ultimately show ?thesis using hdr segs see unfolding segs_loaded_def elf_headers_def by blast
qed

end
