(* ===== verification/MapTree.thy ===== *)
theory MapTree
  imports Mapper
begin

text \<open>
  The page tables of a mapper as a set of page numbers. A second ghost map \<open>pre\<close> gives, for every used
  table, the high digits (to base 512) of the page numbers below it; so the tables form a tree, and
  a valid entry at level 0 belongs to exactly one page number. Under this reading \<open>map\<close> is insertion
  into a set: it reports \<open>MAPPER_ALREADY_MAPPED\<close> exactly for the members, and the number of tables it has
  taken is bounded by the number of different prefixes of the members.
\<close>

section \<open>Page numbers as digits\<close>

text \<open>The page number of an address below a table with prefix \<open>p\<close> at level \<open>i\<close>.\<close>

fun walk_idx :: "nat \<Rightarrow> VirtAddr \<Rightarrow> nat \<Rightarrow> nat" where
  "walk_idx p va 0 = p * 512 + unat (vpn_field va 0)"
| "walk_idx p va (Suc i) = walk_idx (p * 512 + unat (vpn_field va (Suc i))) va i"

lemma unat_vpn_field_div:
  assumes "i < 5"
  shows "unat (vpn_field va i) = unat va div 4096 div 512 ^ i mod 512"
proof -
  have "(2 :: nat) ^ (12 + 9 * i) = 4096 * 512 ^ i" by (simp add: power_add power_mult)
  moreover have "unat (vpn_field va i) = unat va div 2 ^ (12 + 9 * i) mod 512"
  proof -
    have "vpn_field va i = take_bit 9 (drop_bit (12 + 9 * i) va)"
      by (rule bit_word_eqI) (auto simp: vpn_field_def mmu_consts bit_simps)
    moreover have "unat va < 2 ^ LENGTH(64)" by (rule unsigned_less)
    ultimately show ?thesis by (simp add: unsigned_take_bit_eq unsigned_drop_bit_eq take_bit_nat_def drop_bit_nat_def)
  qed
  ultimately show ?thesis by (simp add: div_mult2_eq)
qed

lemma walk_idx_eq:
  "i < 5 \<Longrightarrow> walk_idx p va i = p * 512 ^ Suc i + unat va div 4096 mod 512 ^ Suc i"
proof (induction i arbitrary: p)
  case 0
  then show ?case by (simp add: unat_vpn_field_div)
next
  case (Suc i)
  have "unat va div 4096 mod 512 ^ Suc (Suc i) =
      512 ^ Suc i * (unat va div 4096 div 512 ^ Suc i mod 512) + unat va div 4096 mod 512 ^ Suc i"
    using mod_mult2_eq [of "unat va div 4096" "512 ^ Suc i" 512] by (simp add: mult.commute)
  with Suc show ?case by (simp add: unat_vpn_field_div algebra_simps)
qed

text \<open>Addresses of the same page number run through the same entries.\<close>

lemma vpn_field_digits:
  assumes "k < 5" and "k \<le> i" and "unat va div 4096 mod 512 ^ Suc i div 512 ^ k = unat va' div 4096 mod 512 ^ Suc i div 512 ^ k"
  shows "vpn_field va k = vpn_field va' k"
proof -
  have "x mod 512 ^ Suc i div 512 ^ k mod 512 = x div 512 ^ k mod 512" for x :: nat
  proof -
    have "(512 :: nat) ^ Suc i = 512 ^ k * 512 ^ (Suc i - k)" using assms(2) by (simp flip: power_add)
    moreover have "(512 :: nat) dvd 512 ^ (Suc i - k)" using assms(2) by (simp add: Suc_diff_le)
    ultimately show ?thesis by (simp add: mod_mult2_eq mod_mod_cancel del: power_Suc)
  qed
  with assms(3) have "unat va div 4096 div 512 ^ k mod 512 = unat va' div 4096 div 512 ^ k mod 512" by metis
  with assms(1) show ?thesis by (simp add: word_unat_eq_iff unat_vpn_field_div)
qed

section \<open>The tree\<close>

definition tree_ok :: "SimpleMemoryMapper \<Rightarrow> (PPN \<Rightarrow> nat) \<Rightarrow> (PPN \<Rightarrow> nat) \<Rightarrow> nat set \<Rightarrow> (64 word \<rightharpoonup> byte) \<Rightarrow> bool" where
  "tree_ok m lv pre D c \<longleftrightarrow>
     pre (sm_table_region_begin m) = 0 \<and>
     (\<forall>t va i. used_table m t \<and> flag_v (ucast (slot c t va i)) \<longrightarrow>
        (if lv t = 0 then pre t * 512 + unat (vpn_field va i) \<in> D
         else pre (pte_ppn (slot c t va i)) = pre t * 512 + unat (vpn_field va i)))"

lemma tree_okI:
  assumes "pre (sm_table_region_begin m) = 0"
    and "\<And>t va i. used_table m t \<Longrightarrow> flag_v (ucast (slot c t va i)) \<Longrightarrow>
        (if lv t = 0 then pre t * 512 + unat (vpn_field va i) \<in> D
         else pre (pte_ppn (slot c t va i)) = pre t * 512 + unat (vpn_field va i))"
  shows "tree_ok m lv pre D c"
  using assms unfolding tree_ok_def by blast

lemma tree_ok_entry:
  assumes "tree_ok m lv pre D c" and "used_table m t" and "flag_v (ucast (slot c t va i))"
  shows "if lv t = 0 then pre t * 512 + unat (vpn_field va i) \<in> D
         else pre (pte_ppn (slot c t va i)) = pre t * 512 + unat (vpn_field va i)"
  using assms unfolding tree_ok_def by blast

lemma pte_addr_same_field: "pte_addr t va i = pte_addr t va' j \<Longrightarrow> vpn_field va i = vpn_field va' j"
proof -
  assume "pte_addr t va i = pte_addr t va' j"
  then have "unat (vpn_field va i * 8) = unat (vpn_field va' j * 8)" by (simp add: pte_addr_eq_iff)
  then show ?thesis by (simp add: unat_vpn_times_8 word_unat_eq_iff)
qed

lemma tree_ok_pointer:
  assumes ok: "mapper_ok m lv c" and tree: "tree_ok m lv pre D c" and t: "used_table m t" "lv t = Suc i"
    and n: "in_region m (sm_curr_table m)" and m1: "m1 = m\<lparr>sm_curr_table := sm_curr_table m + 1\<rparr>"
    and ok1: "mapper_ok m1 (lv(sm_curr_table m := i)) (mem_put (pte_addr t va (Suc i)) (new_pte (sm_curr_table m) V_MASK) c)"
  shows "tree_ok m1 (lv(sm_curr_table m := i)) (pre(sm_curr_table m := pre t * 512 + unat (vpn_field va (Suc i)))) D
    (mem_put (pte_addr t va (Suc i)) (new_pte (sm_curr_table m) V_MASK) c)"
proof -
  let ?n = "sm_curr_table m" and ?c' = "mem_put (pte_addr t va (Suc i)) (new_pte (sm_curr_table m) V_MASK) c"
    and ?lv' = "lv(sm_curr_table m := i)" and ?pre' = "pre(sm_curr_table m := pre t * 512 + unat (vpn_field va (Suc i)))"
  have tn: "t \<noteq> ?n" using t(1) by auto
  have bn: "sm_table_region_begin m \<noteq> ?n" using mapper_okD(2) [OF ok] by auto
  have ppn: "pte_ppn (new_pte ?n V_MASK) = ?n" using region_bound [OF ok n] by (simp add: take_bit_44_self)
  have "if ?lv' x = 0 then ?pre' x * 512 + unat (vpn_field va' j) \<in> D
         else ?pre' (pte_ppn (slot ?c' x va' j)) = ?pre' x * 512 + unat (vpn_field va' j)"
    if x: "used_table m1 x" and v: "flag_v (ucast (slot ?c' x va' j))" for x va' j
  proof -
    have xr: "in_region m x" using used_in_region [OF ok1 x] by (simp add: m1)
    have "x \<noteq> ?n" using v fresh_table_empty [OF ok t(1) n] by auto
    moreover have "used_table m x \<or> x = ?n"
    proof -
      have "unat (?n + 1) = Suc (unat ?n)"
        using region_bound [OF ok n] by (simp add: unat_word_ariths word_less_nat_alt)
      then show ?thesis using x by (auto simp: m1 word_less_nat_alt less_Suc_eq word_unat_eq_iff)
    qed
    ultimately have xu: "used_table m x" by blast
    show ?thesis
    proof (cases "pte_addr t va (Suc i) = pte_addr x va' j")
      case True
      then have "x = t" using region_pte_addr_inj [OF ok used_in_region [OF ok t(1)] xr] by auto
      with True have "vpn_field va (Suc i) = vpn_field va' j" using pte_addr_same_field by blast
      moreover have "slot ?c' x va' j = new_pte ?n V_MASK" by (simp only: slot_put True refl if_True)
      ultimately show ?thesis using \<open>x = t\<close> t(2) tn ppn by simp
    next
      case False
      then have s: "slot ?c' x va' j = slot c x va' j" by (simp only: slot_put if_False)
      have v: "flag_v (ucast (slot c x va' j))" using v unfolding s .
      have "pte_ppn (slot c x va' j) \<noteq> ?n" if "lv x \<noteq> 0"
        using mapper_ok_entry [OF ok xu v] that by auto
      then show ?thesis unfolding s using tree_ok_entry [OF tree xu v] \<open>x \<noteq> ?n\<close> by simp
    qed
  qed
  moreover have "?pre' (sm_table_region_begin m1) = 0" using tree bn by (simp add: m1 tree_ok_def)
  ultimately show ?thesis by (intro tree_okI)
qed

lemma tree_ok_leaf:
  assumes ok: "mapper_ok m lv c" and tree: "tree_ok m lv pre D c" and t: "used_table m t" "lv t = 0"
  shows "tree_ok m lv pre (insert (walk_idx (pre t) va 0) D) (mem_put (pte_addr t va 0) (new_pte ppn flags) c)"
proof -
  have "if lv x = 0 then pre x * 512 + unat (vpn_field va' j) \<in> insert (walk_idx (pre t) va 0) D
         else pre (pte_ppn (slot (mem_put (pte_addr t va 0) (new_pte ppn flags) c) x va' j)) = pre x * 512 + unat (vpn_field va' j)"
    if x: "used_table m x" and v: "flag_v (ucast (slot (mem_put (pte_addr t va 0) (new_pte ppn flags) c) x va' j))" for x va' j
  proof (cases "pte_addr t va 0 = pte_addr x va' j")
    case True
    then have "x = t" using region_pte_addr_inj [OF ok used_in_region [OF ok t(1)] used_in_region [OF ok x]] by auto
    with True have "vpn_field va 0 = vpn_field va' j" using pte_addr_same_field by blast
    then show ?thesis using \<open>x = t\<close> t(2) by simp
  next
    case False
    then have s: "slot (mem_put (pte_addr t va 0) (new_pte ppn flags) c) x va' j = slot c x va' j"
      by (simp only: slot_put if_False)
    show ?thesis unfolding s using tree_ok_entry [OF tree x v [unfolded s]] by simp
  qed
  with tree show ?thesis unfolding tree_ok_def by blast
qed

lemma map_walk_tree:
  assumes "mapper_ok m lv (pm_contents pm)" and "tree_ok m lv pre D (pm_contents pm)" and "pm_ok pm"
    and "used_table m t" and "lv t = i" and "i < 5" and "\<not> in_region m (take_bit 44 (mp_ppn mp))"
    and "map_walk mp va i t m pm = Inr (s, m', pm')"
  shows "\<exists>lv' pre'. mapper_ok m' lv' (pm_contents pm') \<and>
    tree_ok m' lv' pre' (if s = OK then insert (walk_idx (pre t) va i) D else D) (pm_contents pm')"
  using assms
proof (induction i arbitrary: t m lv pre pm rule: less_induct)
  case (less i)
  note ok = less.prems(1) and tree = less.prems(2)
  from less.prems(1,3-6) show ?case
  proof (cases rule: map_walk_step [where va = va and mp = mp])
    case mapped
    then show ?thesis using ok tree less.prems(8) by auto
  next
    case (leaf pm1)
    have "mapper_ok m lv (pm_contents pm1)" unfolding leaf(6) using less.prems leaf(1) by (intro mapper_ok_leaf) simp_all
    moreover have "tree_ok m lv pre (insert (walk_idx (pre t) va 0) D) (pm_contents pm1)"
      unfolding leaf(6) using less.prems leaf(1) by (intro tree_ok_leaf) simp_all
    ultimately show ?thesis using leaf(1,3) less.prems(8) by auto
  next
    case (down k pte)
    have "pre (pte_ppn pte) = pre t * 512 + unat (vpn_field va (Suc k))"
      using tree_ok_entry [OF tree less.prems(4), of va "Suc k"] down(1,2,3) less.prems(5) by simp
    then have same: "walk_idx (pre (pte_ppn pte)) va k = walk_idx (pre t) va i" using down(1) by simp
    from less.IH [of k, OF _ ok tree less.prems(3) down(6,7), unfolded same] less.prems(6-8) down(1,8)
    show ?thesis by (simp del: walk_idx.simps)
  next
    case (full k)
    then show ?thesis using ok tree less.prems(8) by auto
  next
    case (fresh k m1 pm1)
    let ?n = "sm_curr_table m"
    have tree1: "tree_ok m1 (lv(?n := k)) (pre(?n := pre t * 512 + unat (vpn_field va (Suc k)))) D (pm_contents pm1)"
      unfolding fresh(7)
      using tree_ok_pointer [OF ok tree less.prems(4) _ fresh(9,4)] less.prems(5) fresh(1,7,8) by simp
    note IH = less.IH [of k, OF _ fresh(8) tree1 _ fresh(10) fun_upd_same]
    have same: "walk_idx ((pre(?n := pre t * 512 + unat (vpn_field va (Suc k)))) ?n) va k = walk_idx (pre t) va i"
      using fresh(1) by simp
    from IH [unfolded same] less.prems(3,6-8) fresh(1,4,5,12) show ?thesis by (simp del: walk_idx.simps fun_upd_apply)
  qed
qed

section \<open>Chains of entries\<close>

lemma reaches_cong:
  "(\<And>k. k \<le> i \<Longrightarrow> vpn_field va k = vpn_field va' k) \<Longrightarrow> reaches c va i t pte = reaches c va' i t pte"
proof (induction i arbitrary: t)
  case (Suc i)
  have "slot c t va (Suc i) = slot c t va' (Suc i)" using Suc.prems [of "Suc i"] by (simp add: slot_def pte_addr_def)
  with Suc show ?case by simp
qed (simp add: slot_def pte_addr_def)

lemma reaches_kept:
  assumes kept: "slots_kept m c c'"
  shows "reaches c va i t pte \<Longrightarrow> flag_v (ucast pte) \<Longrightarrow> reaches c' va i t pte"
proof (induction i arbitrary: t)
  case 0
  then show ?case using slots_keptD(1) [OF kept, of t va 0] slots_keptD(2) [OF kept, of "t * PAGE_SIZE"] by simp
next
  case (Suc i)
  have "slot c' t va (Suc i) = slot c t va (Suc i)" using Suc.prems by (intro usable_slot_kept [OF kept]) simp
  then show ?case using Suc slots_keptD(2) [OF kept, of "t * PAGE_SIZE"] by simp
qed

lemma reaches_used:
  assumes ok: "mapper_ok m lv c" and "used_table m t" and "lv t = Suc i" and "reaches c va (Suc i) t pte"
  shows "used_table m (pte_ppn (slot c t va (Suc i))) \<and> lv (pte_ppn (slot c t va (Suc i))) = i"
proof -
  have "flag_v (ucast (slot c t va (Suc i)))" using assms(4) by (simp add: pte_bad_def)
  from mapper_ok_entry [OF ok assms(2) this] assms(3) show ?thesis by simp
qed

lemma reaches_agree:
  assumes ok: "mapper_ok m lv c" and same: "\<And>a. page_base a \<in> region_pages m \<Longrightarrow> c' a = c a"
  shows "used_table m t \<Longrightarrow> lv t = i \<Longrightarrow> reaches c va i t pte \<Longrightarrow> reaches c' va i t pte"
proof (induction i arbitrary: t)
  case 0
  have "page_base a \<in> region_pages m" if "page_base a = t * PAGE_SIZE" for a
    using that used_in_region [OF ok 0(1)] by (auto simp: region_pages_def)
  then have "c' a = c a" if "page_base a = t * PAGE_SIZE" for a using that same by simp
  from pte_cong [of t c' c, OF this] this [of "t * PAGE_SIZE"] 0(3) show ?case by (simp add: slot_def page_base_aligned)
next
  case (Suc i)
  have "page_base a \<in> region_pages m" if "page_base a = t * PAGE_SIZE" for a
    using that used_in_region [OF ok Suc.prems(1)] by (auto simp: region_pages_def)
  then have "c' a = c a" if "page_base a = t * PAGE_SIZE" for a using that same by simp
  from pte_cong [of t c' c, OF this] this [of "t * PAGE_SIZE"] have "slot c' t va (Suc i) = slot c t va (Suc i)"
    "c' (t * PAGE_SIZE) = c (t * PAGE_SIZE)" by (simp_all add: slot_def page_base_aligned)
  moreover have "reaches c' va i (pte_ppn (slot c t va (Suc i))) pte"
    using reaches_used [OF ok Suc.prems] Suc.IH Suc.prems(3) by simp
  ultimately show ?case using Suc.prems(3) by simp
qed

text \<open>A chain to a valid entry belongs to a member of the set.\<close>

lemma reaches_in_set:
  assumes ok: "mapper_ok m lv c" and tree: "tree_ok m lv pre D c"
  shows "used_table m t \<Longrightarrow> lv t = i \<Longrightarrow> reaches c va i t pte \<Longrightarrow> flag_v (ucast pte) \<Longrightarrow> walk_idx (pre t) va i \<in> D"
proof (induction i arbitrary: t)
  case 0
  then show ?case using tree_ok_entry [OF tree 0(1), of va 0] by simp
next
  case (Suc i)
  have "flag_v (ucast (slot c t va (Suc i)))" using Suc.prems(3) by (simp add: pte_bad_def)
  then have "pre (pte_ppn (slot c t va (Suc i))) = pre t * 512 + unat (vpn_field va (Suc i))"
    using tree_ok_entry [OF tree Suc.prems(1), of va "Suc i"] Suc.prems(2) by simp
  with Suc.IH [of "pte_ppn (slot c t va (Suc i))"] reaches_used [OF ok Suc.prems(1-3)] Suc.prems(3,4)
  show ?case by simp
qed

text \<open>\<open>map\<close> refuses a page whose chain ends in a valid entry.\<close>

lemma map_walk_reached:
  "mapper_ok m lv (pm_contents pm) \<Longrightarrow> pm_ok pm \<Longrightarrow> used_table m t \<Longrightarrow> lv t = i \<Longrightarrow> i < 5 \<Longrightarrow>
    reaches (pm_contents pm) va i t pte \<Longrightarrow> flag_v (ucast pte) \<Longrightarrow>
    map_walk mp va i t m pm = Inr (MAPPER_ALREADY_MAPPED, m, pm)"
proof (induction i arbitrary: t)
  case 0
  from 0(1-5) show ?case by (cases rule: map_walk_step [where va = va and mp = mp]) (use 0(6,7) in simp_all)
next
  case (Suc i)
  have v: "flag_v (ucast (slot (pm_contents pm) t va (Suc i)))" using Suc.prems(6) by (simp add: pte_bad_def)
  from Suc.prems(1-5) show ?case
  proof (cases rule: map_walk_step [where va = va and mp = mp])
    case (down k pte')
    then show ?thesis using Suc.IH [of "pte_ppn pte'"] Suc.prems by simp
  qed (use v in simp_all)
qed

text \<open>An address that shares the digits from \<open>j\<close> on with a mapped one lacks fewer than \<open>j\<close> tables.\<close>

lemma missing_prefix:
  "reaches c vd i t pte \<Longrightarrow> flag_v (ucast pte) \<Longrightarrow> 1 \<le> j \<Longrightarrow>
    (\<And>k. j \<le> k \<Longrightarrow> k \<le> i \<Longrightarrow> vpn_field va k = vpn_field vd k) \<Longrightarrow> missing c va i t < j"
proof (induction i arbitrary: t)
  case (Suc i)
  show ?case
  proof (cases "j \<le> Suc i")
    case True
    then have "slot c t va (Suc i) = slot c t vd (Suc i)" using Suc.prems(4) [of "Suc i"] by (simp add: slot_def pte_addr_def)
    moreover have "flag_v (ucast (slot c t vd (Suc i)))" using Suc.prems(1) by (simp add: pte_bad_def)
    ultimately show ?thesis using Suc by simp
  next
    case False
    then show ?thesis using missing_le [of c va "Suc i" t] by linarith
  qed
qed simp

section \<open>The tables as a set of pages\<close>

definition page_no :: "SimpleMemoryMapper \<Rightarrow> VPN \<Rightarrow> nat" where
  "page_no m vpn = unat vpn mod 512 ^ mode_levels (sm_mode m)"

text \<open>The number of tables for a set of page numbers: the root and one for every prefix in use.\<close>

definition tables_for :: "nat \<Rightarrow> nat set \<Rightarrow> nat" where
  "tables_for levels D = 1 + (\<Sum>j = 1..levels - 1. card ((\<lambda>d. d div 512 ^ j) ` D))"

definition maps_set :: "SimpleMemoryMapper \<Rightarrow> nat set \<Rightarrow> (64 word \<rightharpoonup> byte) \<Rightarrow> bool" where
  "maps_set m D c \<longleftrightarrow>
     (\<exists>lv pre. mapper_ok m lv c \<and> tree_ok m lv pre D c) \<and> D \<subseteq> {..<512 ^ mode_levels (sm_mode m)} \<and>
     unat (sm_curr_table m) \<le> unat (sm_table_region_begin m) + tables_for (mode_levels (sm_mode m)) D \<and>
     (\<forall>vpn. page_no m vpn \<in> D \<longrightarrow>
        (\<exists>pte. flag_v (ucast pte) \<and>
           reaches c (vpn * PAGE_SIZE) (mode_levels (sm_mode m) - 1) (sm_table_region_begin m) pte))"

lemma maps_set_reaches:
  assumes "maps_set m D c" and "page_no m vpn \<in> D"
  obtains pte where "flag_v (ucast pte)"
    and "reaches c (vpn * PAGE_SIZE) (mode_levels (sm_mode m) - 1) (sm_table_region_begin m) pte"
  using assms unfolding maps_set_def by blast

lemma unat_page_number: "unat (vpn * PAGE_SIZE) div 4096 mod 512 ^ Suc i = unat vpn mod 512 ^ Suc i" if "i < 5"
proof -
  have "unat (vpn * PAGE_SIZE) = unat vpn mod 2 ^ 52 * 4096"
    using mult_mod_right [of 4096 "unat vpn" "2 ^ 52"] by (simp add: PAGE_SIZE_def unat_word_ariths mult.commute)
  moreover have "(512 :: nat) ^ Suc i dvd 2 ^ 52"
  proof -
    have "(512 :: nat) ^ Suc i = 2 ^ (9 * Suc i)" by (simp add: power_mult del: power_Suc mult_Suc_right)
    moreover have "9 * Suc i \<le> 52" using that by simp
    then have "(2 :: nat) ^ (9 * Suc i) dvd 2 ^ 52" by (rule le_imp_power_dvd)
    ultimately show ?thesis by (simp only:)
  qed
  ultimately show ?thesis by (simp add: mod_mod_cancel del: power_Suc)
qed

lemma mode_levels_Suc: "mapper_ok m lv c \<Longrightarrow> mode_levels (sm_mode m) = Suc (mode_levels (sm_mode m) - 1)"
  using mapper_okD(1) by (cases "sm_mode m") auto

lemma walk_idx_page_no:
  assumes "mapper_ok m lv c"
  shows "walk_idx 0 (vpn * PAGE_SIZE) (mode_levels (sm_mode m) - 1) = page_no m vpn"
  using mode_levels_Suc [OF assms] mode_levels_le [of "sm_mode m"]
  by (metis walk_idx_eq unat_page_number page_no_def mult_0 add_0)

text \<open>Pages whose numbers share the digits from \<open>k\<close> on use the same entries there.\<close>

lemma page_fields:
  assumes ok: "mapper_ok m lv c" and k: "k \<le> mode_levels (sm_mode m) - 1"
    and d: "page_no m v div 512 ^ k = page_no m v' div 512 ^ k"
  shows "vpn_field (v * PAGE_SIZE) k = vpn_field (v' * PAGE_SIZE) k"
proof (rule vpn_field_digits [OF _ k])
  show "k < 5" using k mode_levels_le [of "sm_mode m"] by linarith
  show "unat (v * PAGE_SIZE) div 4096 mod 512 ^ Suc (mode_levels (sm_mode m) - 1) div 512 ^ k =
      unat (v' * PAGE_SIZE) div 4096 mod 512 ^ Suc (mode_levels (sm_mode m) - 1) div 512 ^ k"
    using d mode_levels_Suc [OF ok] unat_page_number [OF mode_levels_le] unfolding page_no_def by metis
qed

lemma page_no_of_nat:
  assumes "d < 512 ^ mode_levels (sm_mode m)"
  shows "page_no m (of_nat d) = d"
proof -
  have "mode_levels (sm_mode m) \<le> 5" using mode_levels_le [of "sm_mode m"] by simp
  then have "(512 :: nat) ^ mode_levels (sm_mode m) \<le> 512 ^ 5" by (rule power_increasing) simp
  then have "d < 2 ^ 64" using assms by simp
  then show ?thesis using assms by (simp add: page_no_def unat_of_nat)
qed

lemma div_power_mono:
  fixes x y :: nat
  assumes "x div 512 ^ j = y div 512 ^ j" and "j \<le> k"
  shows "x div 512 ^ k = y div 512 ^ k"
proof -
  have "(512 :: nat) ^ k = 512 ^ j * 512 ^ (k - j)" using assms(2) by (simp flip: power_add)
  with assms(1) show ?thesis by (simp add: div_mult2_eq)
qed

text \<open>The tables a page lacks are prefixes that no member of the set has.\<close>

lemma path_missing_prefixes:
  assumes ms: "maps_set m D c" and j: "1 \<le> j" "j \<le> path_missing m vpn c"
  shows "page_no m vpn div 512 ^ j \<notin> (\<lambda>d. d div 512 ^ j) ` D"
proof
  let ?L = "mode_levels (sm_mode m) - 1"
  assume "page_no m vpn div 512 ^ j \<in> (\<lambda>d. d div 512 ^ j) ` D"
  then obtain d where d: "d \<in> D" "page_no m vpn div 512 ^ j = d div 512 ^ j" by auto
  from ms obtain lv where ok: "mapper_ok m lv c" by (auto simp: maps_set_def)
  have no: "page_no m (of_nat d) = d" using ms d(1) by (intro page_no_of_nat) (auto simp: maps_set_def)
  obtain pte where pte: "flag_v (ucast pte)" "reaches c (of_nat d * PAGE_SIZE) ?L (sm_table_region_begin m) pte"
    by (rule maps_set_reaches [OF ms, of "of_nat d"]) (use no d(1) in auto)
  have "vpn_field (vpn * PAGE_SIZE) k = vpn_field (of_nat d * PAGE_SIZE) k" if "j \<le> k" "k \<le> ?L" for k
    using page_fields [OF ok that(2)] div_power_mono [OF d(2) that(1)] no by simp
  from missing_prefix [OF pte(2,1) j(1) this] j(2) show False by (simp add: path_missing_def)
qed

lemma tables_for_insert:
  assumes ms: "maps_set m D c"
  shows "tables_for (mode_levels (sm_mode m)) D + path_missing m vpn c \<le>
    tables_for (mode_levels (sm_mode m)) (insert (page_no m vpn) D)"
proof -
  let ?L = "mode_levels (sm_mode m) - 1" and ?N = "path_missing m vpn c" and ?x = "page_no m vpn"
  have fin: "finite D" using ms finite_subset by (auto simp: maps_set_def)
  have "card ((\<lambda>d. d div 512 ^ j) ` D) + (if j \<le> ?N then 1 else 0) \<le> card ((\<lambda>d. d div 512 ^ j) ` insert ?x D)"
    if "1 \<le> j" for j
    using path_missing_prefixes [OF ms that, of vpn] fin by (auto intro: card_mono)
  then have "(\<Sum>j = 1..?L. card ((\<lambda>d. d div 512 ^ j) ` D) + (if j \<le> ?N then 1 else 0)) \<le>
      (\<Sum>j = 1..?L. card ((\<lambda>d. d div 512 ^ j) ` insert ?x D))"
    by (intro sum_mono) auto
  moreover have "(\<Sum>j = 1..?L. if j \<le> ?N then 1 else 0) = ?N"
  proof -
    have "{1..?L} \<inter> {j. j \<le> ?N} = {1..?N}" using path_missing_le [of m vpn c] by auto
    then show ?thesis by (simp add: sum.If_cases)
  qed
  ultimately show ?thesis by (simp add: tables_for_def sum.distrib)
qed

section \<open>\<open>map\<close> is insertion\<close>

lemma page_no_curr [simp]: "page_no (m\<lparr>sm_curr_table := k\<rparr>) = page_no m"
  by (simp add: page_no_def fun_eq_iff)

lemma mapper_map_walk:
  assumes "mapper_ok m lv c" and "\<not> in_region m (mp_ppn mp)"
  shows "mapper_map mp m pm =
    map_walk mp (mp_vpn mp * PAGE_SIZE) (mode_levels (sm_mode m) - 1) (sm_table_region_begin m) m pm"
  using assms(2) mapper_okD(1) [OF assms(1)] by (auto simp: mapper_map_def in_region_def)

lemma reaches_member:
  assumes ok: "mapper_ok m lv c" and tree: "tree_ok m lv pre D c" and pte: "flag_v (ucast pte)"
    and r: "reaches c (vpn * PAGE_SIZE) (mode_levels (sm_mode m) - 1) (sm_table_region_begin m) pte"
  shows "page_no m vpn \<in> D"
proof -
  have "used_table m (sm_table_region_begin m)" using mapper_okD(2) [OF ok] by simp
  from reaches_in_set [OF ok tree this mapper_okD(5) [OF ok] r pte] tree show ?thesis
    by (simp only: tree_ok_def walk_idx_page_no [OF ok])
qed

lemma mapper_map_member:
  assumes ms: "maps_set m D (pm_contents pm)" and pm: "pm_ok pm" and out: "\<not> in_region m (mp_ppn mp)"
    and x: "page_no m (mp_vpn mp) \<in> D"
  shows "mapper_map mp m pm = Inr (MAPPER_ALREADY_MAPPED, m, pm)"
proof -
  from ms obtain lv where ok: "mapper_ok m lv (pm_contents pm)" by (auto simp: maps_set_def)
  obtain pte where pte: "flag_v (ucast pte)"
    "reaches (pm_contents pm) (mp_vpn mp * PAGE_SIZE) (mode_levels (sm_mode m) - 1) (sm_table_region_begin m) pte"
    by (rule maps_set_reaches [OF ms x])
  have "map_walk mp (mp_vpn mp * PAGE_SIZE) (mode_levels (sm_mode m) - 1) (sm_table_region_begin m) m pm =
      Inr (MAPPER_ALREADY_MAPPED, m, pm)"
    using mapper_okD(2,5) [OF ok] pte mode_levels_le by (intro map_walk_reached [OF ok pm]) simp_all
  then show ?thesis using mapper_map_walk [OF ok out] by simp
qed

lemma mapper_map_insert:
  assumes ms: "maps_set m D (pm_contents pm)" and pm: "pm_ok pm" and ppn: "ppn < 2 ^ 44"
    and out: "\<not> in_region m ppn" and x: "page_no m vpn \<notin> D"
    and map: "mapper_map (MemoryMapping_new flags vpn ppn) m pm = Inr (OK, m', pm')"
  shows "maps_set m' (insert (page_no m vpn) D) (pm_contents pm')"
proof -
  let ?mp = "MemoryMapping_new flags vpn ppn" and ?L = "mode_levels (sm_mode m) - 1" and ?root = "sm_table_region_begin m"
    and ?c' = "pm_contents pm'" and ?D = "insert (page_no m vpn) D" and ?pte = "new_pte ppn (flags OR DEFAULT_FLAGS)"
  have mp [simp]: "mp_ppn ?mp = ppn" "mp_vpn ?mp = vpn" "mp_flags ?mp = flags OR DEFAULT_FLAGS"
    by (simp_all add: MemoryMapping_new_def)
  from ms obtain lv pre where ok: "mapper_ok m lv (pm_contents pm)" and tree: "tree_ok m lv pre D (pm_contents pm)"
    by (auto simp: maps_set_def)
  from mapper_map_spec [OF ok pm, of ?mp] out ppn map
  have "map_post ?mp (vpn * PAGE_SIZE) ?L ?root m pm OK m' pm'" by simp
  then have frame: "map_frame m pm m' pm'" and new: "reaches ?c' (vpn * PAGE_SIZE) ?L ?root ?pte"
    and curr: "unat (sm_curr_table m') = unat (sm_curr_table m) + path_missing m vpn (pm_contents pm)"
    by (auto simp: map_post_def path_missing_def)
  from frame obtain k where m': "m' = m\<lparr>sm_curr_table := k\<rparr>" and kept: "slots_kept m (pm_contents pm) ?c'"
    by (auto simp: map_frame_def)
  have walk: "map_walk ?mp (vpn * PAGE_SIZE) ?L ?root m pm = Inr (OK, m', pm')"
    using map mapper_map_walk [OF ok, of ?mp pm] out by simp
  have "used_table m ?root" "lv ?root = ?L" "\<not> in_region m (take_bit 44 (mp_ppn ?mp))"
    using mapper_okD(2,5) [OF ok] out ppn by (simp_all add: take_bit_44_self)
  moreover have "pre ?root = 0" using tree by (simp add: tree_ok_def)
  ultimately have "\<exists>lv pre. mapper_ok m' lv ?c' \<and> tree_ok m' lv pre ?D ?c'"
    using map_walk_tree [OF ok tree pm _ _ mode_levels_le _ walk] walk_idx_page_no [OF ok, of vpn] by auto
  moreover have "?D \<subseteq> {..<512 ^ mode_levels (sm_mode m)}" using ms by (auto simp: maps_set_def page_no_def)
  moreover have "unat (sm_curr_table m') \<le> unat ?root + tables_for (mode_levels (sm_mode m)) ?D"
    using tables_for_insert [OF ms, of vpn] ms curr by (simp add: maps_set_def)
  moreover have "\<exists>pte. flag_v (ucast pte) \<and> reaches ?c' (v * PAGE_SIZE) ?L ?root pte" if v: "page_no m v \<in> ?D" for v
  proof (cases "page_no m v \<in> D")
    case True
    then show ?thesis using maps_set_reaches [OF ms] reaches_kept [OF kept] by metis
  next
    case False
    with v have "page_no m v = page_no m vpn" by simp
    then have "reaches ?c' (v * PAGE_SIZE) ?L ?root ?pte = reaches ?c' (vpn * PAGE_SIZE) ?L ?root ?pte"
      using page_fields [OF ok, of _ v vpn] by (intro reaches_cong) simp
    with new mapping_flags_DEFAULT(1) [of flags] show ?thesis by (intro exI [of _ ?pte]) simp
  qed
  ultimately show ?thesis unfolding maps_set_def by (simp add: m')
qed

text \<open>The outcome of one call, from the two cases above.\<close>

lemma mapper_map_set:
  assumes ms: "maps_set m D (pm_contents pm)" and pm: "pm_ok pm" and ppn: "ppn < 2 ^ 44" and out: "\<not> in_region m ppn"
  shows "\<exists>s m' pm'. mapper_map (MemoryMapping_new flags vpn ppn) m pm = Inr (s, m', pm') \<and>
    (if page_no m vpn \<in> D then s = MAPPER_ALREADY_MAPPED \<and> m' = m \<and> pm' = pm
     else s = OK \<and> maps_set m' (insert (page_no m vpn) D) (pm_contents pm') \<or>
          s = MAPPER_TABLE_REGION_END \<and> unat (sm_table_region_end m) <
            unat (sm_table_region_begin m) + tables_for (mode_levels (sm_mode m)) (insert (page_no m vpn) D))"
proof (cases "page_no m vpn \<in> D")
  case True
  then show ?thesis
    using mapper_map_member [OF ms pm, of "MemoryMapping_new flags vpn ppn"] out by (simp add: MemoryMapping_new_def)
next
  case False
  let ?mp = "MemoryMapping_new flags vpn ppn"
  have mp: "mp_ppn ?mp = ppn" "mp_vpn ?mp = vpn" by (simp_all add: MemoryMapping_new_def)
  from ms obtain lv pre where ok: "mapper_ok m lv (pm_contents pm)" and tree: "tree_ok m lv pre D (pm_contents pm)"
    by (auto simp: maps_set_def)
  from mapper_map_out [OF ok pm, of ?mp] ppn out mp obtain s m' pm' where map: "mapper_map ?mp m pm = Inr (s, m', pm')"
    and s: "s = OK \<or> s = MAPPER_ALREADY_MAPPED \<and> (\<exists>pte. flag_v (ucast pte) \<and>
        reaches (pm_contents pm) (vpn * PAGE_SIZE) (mode_levels (sm_mode m) - 1) (sm_table_region_begin m) pte) \<or>
      s = MAPPER_TABLE_REGION_END \<and> unat (sm_table_region_end m) < unat (sm_curr_table m) + path_missing m vpn (pm_contents pm)"
    by auto
  have "\<nexists>pte. flag_v (ucast pte) \<and>
      reaches (pm_contents pm) (vpn * PAGE_SIZE) (mode_levels (sm_mode m) - 1) (sm_table_region_begin m) pte"
    using reaches_member [OF ok tree] False by blast
  moreover have "unat (sm_curr_table m) + path_missing m vpn (pm_contents pm) \<le>
      unat (sm_table_region_begin m) + tables_for (mode_levels (sm_mode m)) (insert (page_no m vpn) D)"
    using tables_for_insert [OF ms, of vpn] ms by (simp add: maps_set_def)
  ultimately show ?thesis using map s False mapper_map_insert [OF ms pm ppn out False] by auto
qed

text \<open>
  C11: \<open>map\<close> implements insertion into a set of page numbers: a member is reported as mapped and nothing
  changes; any other page is added, as long as the table region is large enough for the prefixes of
  the new set, and otherwise the call may also report the end of the region.
\<close>

theorem map_refines_insert:
  assumes ms: "maps_set m D (pm_contents pm)" and pm: "pm_ok pm" and ppn: "ppn < 2 ^ 44" and out: "\<not> in_region m ppn"
  shows "\<exists>s m' pm'. mapper_map (MemoryMapping_new flags vpn ppn) m pm = Inr (s, m', pm') \<and>
    (if page_no m vpn \<in> D then s = MAPPER_ALREADY_MAPPED \<and> m' = m \<and> pm' = pm
     else s = OK \<and> maps_set m' (insert (page_no m vpn) D) (pm_contents pm') \<or>
          s = MAPPER_TABLE_REGION_END \<and> unat (sm_table_region_end m) <
            unat (sm_table_region_begin m) + tables_for (mode_levels (sm_mode m)) (insert (page_no m vpn) D))"
  using assms by (rule mapper_map_set)

section \<open>Between calls\<close>

text \<open>A new mapper holds no page, and memory outside the region does not matter.\<close>

lemma SimpleMemoryMapper_new_set:
  assumes mm: "mmap_contract mm" and inv: "pm_inv mm pm" and mode: "mode \<noteq> BARE" and e: "e \<le> 2 ^ 44"
    and new: "SimpleMemoryMapper_new mm mode b e pm = Inr (m, pm')"
  shows "maps_set m {} (pm_contents pm')"
proof -
  note spec = SimpleMemoryMapper_new_ok [OF mm inv mode e new]
  then have ok: "mapper_ok m (\<lambda>_. mode_levels mode - 1) (pm_contents pm')" by blast
  have "slot (pm_contents pm') t va i = 0" if "used_table m t" for t va i
    by (rule slot_zero) (use spec used_in_region [OF ok that] in \<open>auto simp: region_pages_def\<close>)
  then have "tree_ok m (\<lambda>_. mode_levels mode - 1) (\<lambda>_. 0) {} (pm_contents pm')"
    by (intro tree_okI) (simp_all add: flag_v_def)
  moreover have "unat (sm_curr_table m) \<le> unat b + 1"
    using spec by (simp add: unat_word_ariths)
  ultimately show ?thesis using ok spec unfolding maps_set_def tables_for_def by auto
qed

lemma maps_set_agree:
  assumes ms: "maps_set m D c" and same: "\<And>a. page_base a \<in> region_pages m \<Longrightarrow> c' a = c a"
  shows "maps_set m D c'"
proof -
  from ms obtain lv pre where ok: "mapper_ok m lv c" and tree: "tree_ok m lv pre D c" by (auto simp: maps_set_def)
  have slot: "slot c' t va i = slot c t va i" if "used_table m t" for t va i
    unfolding slot_def
    by (rule pte_cong) (use same used_in_region [OF ok that] in \<open>auto simp: region_pages_def\<close>)
  have "tree_ok m lv pre D c'"
  proof (rule tree_okI)
    show "pre (sm_table_region_begin m) = 0" using tree by (simp add: tree_ok_def)
    show "if lv t = 0 then pre t * 512 + unat (vpn_field va i) \<in> D
         else pre (pte_ppn (slot c' t va i)) = pre t * 512 + unat (vpn_field va i)"
      if t: "used_table m t" "flag_v (ucast (slot c' t va i))" for t va i
      using tree_ok_entry [OF tree t(1)] t(2) unfolding slot [OF t(1)] .
  qed
  moreover have "mapper_ok m lv c'" using ok same by (rule mapper_ok_agree)
  moreover have "\<exists>pte. flag_v (ucast pte) \<and> reaches c' (v * PAGE_SIZE) (mode_levels (sm_mode m) - 1) (sm_table_region_begin m) pte"
    if v: "page_no m v \<in> D" for v
  proof -
    obtain pte where "flag_v (ucast pte)"
      "reaches c (v * PAGE_SIZE) (mode_levels (sm_mode m) - 1) (sm_table_region_begin m) pte"
      by (rule maps_set_reaches [OF ms v])
    moreover have "used_table m (sm_table_region_begin m)" using mapper_okD(2) [OF ok] by simp
    ultimately show ?thesis using reaches_agree [OF ok same _ mapper_okD(5) [OF ok]] by blast
  qed
  ultimately show ?thesis using ms unfolding maps_set_def by blast
qed

end
