(* ===== verification/MemLive.thy ===== *)
theory MemLive
  imports PhysMem
begin

text \<open>
  When the page allocator succeeds. The blocks double in size from 4096 pages on, so the number of
  pages handed out determines the sizes of all blocks; and as long as the operating system grants
  every request for at most \<open>B\<close> bytes, the allocator fails for no page number below \<open>B / 4096 - 4096\<close>.
\<close>

definition mmap_grants :: "mmap_fn \<Rightarrow> nat \<Rightarrow> bool" where
  "mmap_grants mm B \<longleftrightarrow> (\<forall>n len. 0 < len \<and> unat len \<le> B \<longrightarrow> mm n len \<noteq> None)"

text \<open>The allocator with \<open>P\<close> pages handed out.\<close>

definition alloc_count :: "PageAllocator \<Rightarrow> nat \<Rightarrow> bool" where
  "alloc_count a P \<longleftrightarrow> m_mmaps a \<noteq> [] \<and>
     (let k = length (m_mmaps a) - 1 in
      unat (mm_ppn (last (m_mmaps a))) = 4096 * 2 ^ k \<and> unat (m_curr_ppn a) \<le> 4096 * 2 ^ k \<and>
      P + 4096 = 4096 * 2 ^ k + unat (m_curr_ppn a))"

lemma alloc_count_bound: "alloc_count a P \<Longrightarrow> unat (mm_ppn (last (m_mmaps a))) \<le> P + 4096"
  by (auto simp: alloc_count_def Let_def)

lemma MMap_new_grants:
  assumes "mmap_grants mm B" and "ppn \<noteq> 0" and "unat ppn * 4096 \<le> B" and "B < 2 ^ 64"
  shows "\<exists>m. MMap_new mm n ppn = Inr m \<and> mm_ppn m = ppn"
proof -
  have "unat (ppn * PAGE_SIZE) = unat ppn * 4096"
    using assms(3,4) by (simp add: PAGE_SIZE_def unat_word_ariths)
  moreover have "0 < unat ppn" using assms(2) by (simp add: unat_gt_0)
  ultimately have "0 < ppn * PAGE_SIZE" "unat (ppn * PAGE_SIZE) \<le> B" using assms(3) by (simp_all add: word_less_nat_alt)
  with assms(1) obtain b where "mm n (ppn * PAGE_SIZE) = Some b" unfolding mmap_grants_def by blast
  with assms(2) show ?thesis by (simp add: MMap_new_def)
qed

lemma allocPage_count:
  assumes mm: "mmap_grants mm B" and a: "alloc_count a P" and B: "(P + 4096) * 4096 \<le> B" "B < 2 ^ 64"
  shows "\<exists>p a'. allocPage mm a = Inr (p, a') \<and> alloc_count a' (Suc P)"
proof -
  define k where "k = length (m_mmaps a) - 1"
  have a: "m_mmaps a \<noteq> []" "unat (mm_ppn (last (m_mmaps a))) = 4096 * 2 ^ k" "unat (m_curr_ppn a) \<le> 4096 * 2 ^ k"
    "P + 4096 = 4096 * 2 ^ k + unat (m_curr_ppn a)"
    using a by (simp_all add: alloc_count_def k_def Let_def)
  show ?thesis
  proof (cases "m_curr_ppn a = mm_ppn (last (m_mmaps a))")
    case True
    let ?new = "mm_ppn (last (m_mmaps a)) * 2"
    have P: "P + 4096 = 4096 * 2 ^ Suc k" using a True by simp
    then have new: "unat ?new = 4096 * 2 ^ Suc k" using a(2) B by (simp add: unat_word_ariths)
    then have "?new \<noteq> 0" by auto
    moreover have "unat ?new * 4096 \<le> B" using B(1) unfolding new P .
    ultimately obtain m where m: "MMap_new mm (length (m_mmaps a)) ?new = Inr m" "mm_ppn m = ?new"
      using MMap_new_grants [OF mm _ _ B(2)] by blast
    have "length (m_mmaps a) = Suc k" using a(1) by (simp add: k_def)
    with m True P new show ?thesis
      by (auto simp: allocPage_grow alloc_grow_def alloc_count_def Let_def)
  next
    case False
    then have "unat (m_curr_ppn a) < 4096 * 2 ^ k" using a(2,3) by (metis le_neq_implies_less word_unat_eq_iff)
    moreover from this have "unat (m_curr_ppn a + 1) = unat (m_curr_ppn a) + 1"
      using a(4) B by (simp add: unat_word_ariths)
    ultimately show ?thesis
      using False a by (auto simp: allocPage_grow alloc_grow_def alloc_count_def k_def Let_def)
  qed
qed

lemma PhysMemory_new_count:
  assumes "mmap_grants mm B" and "4096 * 4096 \<le> B" and "B < 2 ^ 64"
  shows "\<exists>pm. PhysMemory_new mm = Inr pm \<and> alloc_count (m_page_allocator (m_ram pm)) 0"
proof -
  have "unat PPN_16MB = 4096" by (simp add: PPN_16MB_def)
  moreover from this have "PPN_16MB \<noteq> 0" by auto
  ultimately obtain m where "MMap_new mm 0 PPN_16MB = Inr m" "mm_ppn m = PPN_16MB"
    using MMap_new_grants [OF assms(1) _ _ assms(3), of PPN_16MB] assms(2) by auto
  then show ?thesis
    using \<open>unat PPN_16MB = 4096\<close> \<open>PPN_16MB \<noteq> 0\<close>
    by (auto simp: PhysMemory_new_def RAM_new_def PageAllocator_new_def alloc_count_def Let_def)
qed

text \<open>A page is added where there was none.\<close>

lemma addRAMPage_count:
  assumes mm: "mmap_grants mm B" and a: "alloc_count (m_page_allocator (m_ram pm)) P"
    and B: "(P + 4096) * 4096 \<le> B" "B < 2 ^ 64"
    and pa: "page_offset pa = 0" and free: "pm_contents pm pa = None"
  shows "\<exists>pm'. addRAMPage mm pa pm = Inr (True, pm') \<and> alloc_count (m_page_allocator (m_ram pm')) (Suc P)"
proof -
  from allocPage_count [OF mm a B] obtain p a' where al: "allocPage mm (m_page_allocator (m_ram pm)) = Inr (p, a')"
    and cnt: "alloc_count a' (Suc P)" by blast
  have "m_mapping (m_ram pm) pa = None"
    using free pa by (auto simp: pm_contents_def page_base_aligned split: option.splits)
  with al cnt pa show ?thesis by (simp add: addRAMPage_def addPage_def Let_def)
qed

text \<open>
  C27: the page allocator fails for no page that the operating system has room for. With \<open>P\<close> pages handed
  out it succeeds if requests for \<open>P + 4096\<close> pages are granted, its last block has at most \<open>P + 4097\<close>
  pages, and the count of pages goes up by one.
\<close>

theorem allocPage_bounds:
  assumes mm: "mmap_grants mm B" and a: "alloc_count a P" and B: "(P + 4096) * 4096 \<le> B" "B < 2 ^ 64"
  shows "\<exists>p a'. allocPage mm a = Inr (p, a') \<and> alloc_count a' (Suc P) \<and> unat (mm_ppn (last (m_mmaps a'))) \<le> P + 4097"
proof -
  obtain p a' where "allocPage mm a = Inr (p, a')" and cnt: "alloc_count a' (Suc P)" using allocPage_count [OF assms] by blast
  with alloc_count_bound [OF cnt] show ?thesis by auto
qed

end
