(* ===== verification/ElfLive.thy ===== *)
theory ElfLive
  imports ElfSpec MapTree MemLive
begin

text \<open>
  When the loader succeeds. A loader is \<open>ready\<close> if its memory has no pages but those it added itself,
  and its page tables hold exactly the pages of its map. A ready loader maps a page if the page is not
  yet mapped, where page numbers count modulo \<open>2 ^ 27\<close> (Sv39 translates 39 bits of an address and
  neither the mapper nor the MMU looks at the others), and if 16 tables are enough.
\<close>

section \<open>Mapping a page\<close>

definition vpage :: "VPN \<Rightarrow> nat" where
  "vpage v = unat v mod 512 ^ 3"

abbreviation pages_of :: "ElfLoader \<Rightarrow> nat set" where
  "pages_of l \<equiv> vpage ` dom (m_vpn_map l)"

definition ready :: "mmap_fn \<Rightarrow> ElfLoader \<Rightarrow> PhysMemory \<Rightarrow> bool" where
  "ready mm l pm \<longleftrightarrow> loader_inv mm (unat (m_next_map_ppn l)) l pm \<and> loaded l pm \<and>
     maps_set (m_mapper l) (pages_of l) (pm_contents pm) \<and>
     alloc_count (m_page_allocator (m_ram pm)) (unat (m_next_map_ppn l)) \<and>
     (\<forall>p. m_next_map_ppn l \<le> p \<and> p < 2 ^ 44 \<longrightarrow> pm_contents pm (p * PAGE_SIZE) = None) \<and>
     (\<forall>v p. m_vpn_map l v = Some p \<longrightarrow> pm_contents pm (p * PAGE_SIZE) \<noteq> None)"

text \<open>The operating system grants what is needed for the physical pages below \<open>n\<close>.\<close>

definition memory_for :: "mmap_fn \<Rightarrow> nat \<Rightarrow> bool" where
  "memory_for mm n \<longleftrightarrow> mmap_contract mm \<and> mmap_grants mm ((n + 4096) * 4096) \<and> n < 2 ^ 44"

lemma memory_for_mono: "memory_for mm n \<Longrightarrow> n' \<le> n \<Longrightarrow> memory_for mm n'"
  unfolding memory_for_def mmap_grants_def by (meson add_le_mono1 le_trans mult_le_mono1 le_less_trans)

lemma finite_pages: "ready mm l pm \<Longrightarrow> finite (pages_of l)"
proof -
  have "pages_of l \<subseteq> {..<512 ^ 3}" by (auto simp: vpage_def)
  then show ?thesis using finite_subset by blast
qed

lemma loader_page_no: "loader_inv mm n l pm \<Longrightarrow> page_no (m_mapper l) = vpage"
  by (simp add: loader_inv_def page_no_def vpage_def fun_eq_iff)

lemma mapPage_forward:
  assumes "m_mmu_mode l = SV39" and "addRAMPage mm (m_next_map_ppn l * PAGE_SIZE) pm = Inr (True, pm1)"
    and "mapper_map (MemoryMapping_new page_flags v (m_next_map_ppn l)) (m_mapper l) pm1 = Inr (s, m', pm')"
    and "m_vpn_map l v = None"
  shows "mapPage mm v l pm = Inr (s, l\<lparr>m_mapper := m', m_next_map_ppn := m_next_map_ppn l + 1,
      m_vpn_map := (m_vpn_map l)(v \<mapsto> m_next_map_ppn l)\<rparr>, pm')"
  using assms by (simp add: mapPage_def Let_def page_flags_def)

lemma region_page_number:
  assumes inv: "loader_inv mm n l pm" and "16 \<le> unat q" and "q < 2 ^ 44"
  shows "q * PAGE_SIZE \<notin> region_pages (m_mapper l)"
proof
  assume "q * PAGE_SIZE \<in> region_pages (m_mapper l)"
  then obtain t where t: "in_region (m_mapper l) t" "q * PAGE_SIZE = t * PAGE_SIZE" by (auto simp: region_pages_def)
  have "unat t < 16" using inv t(1) by (auto simp: loader_inv_def in_region_16)
  moreover from this assms(3) have "t < 2 ^ 52" "q < 2 ^ 52" by (simp_all add: word_less_nat_alt)
  then have "q = t" using page_mult_inj t(2) by blast
  ultimately show False using assms(2) by simp
qed

lemma mapPage_ready:
  assumes rdy: "ready mm l pm" and mem: "memory_for mm (Suc (unat (m_next_map_ppn l)))"
    and new: "vpage v \<notin> pages_of l" and tab: "tables_for 3 (insert (vpage v) (pages_of l)) \<le> 16"
  shows "\<exists>l' pm'. mapPage mm v l pm = Inr (OK, l', pm') \<and> ready mm l' pm' \<and>
    m_vpn_map l' = (m_vpn_map l)(v \<mapsto> m_next_map_ppn l) \<and> unat (m_next_map_ppn l') = Suc (unat (m_next_map_ppn l)) \<and>
    m_stack_base l' = m_stack_base l"
proof -
  let ?p = "m_next_map_ppn l" and ?m = "m_mapper l" and ?mp = "MemoryMapping_new page_flags v (m_next_map_ppn l)"
  from rdy have inv: "loader_inv mm (unat ?p) l pm" and ld: "loaded l pm" and ms: "maps_set ?m (pages_of l) (pm_contents pm)"
    and cnt: "alloc_count (m_page_allocator (m_ram pm)) (unat ?p)"
    and free: "\<And>q. ?p \<le> q \<Longrightarrow> q < 2 ^ 44 \<Longrightarrow> pm_contents pm (q * PAGE_SIZE) = None"
    and there: "\<And>v q. m_vpn_map l v = Some q \<Longrightarrow> pm_contents pm (q * PAGE_SIZE) \<noteq> None"
    unfolding ready_def by blast+
  have mm: "mmap_contract mm" and lt: "unat ?p < 2 ^ 44" using mem by (simp_all add: memory_for_def)
  have grants: "mmap_grants mm ((unat ?p + 4096) * 4096)"
    using memory_for_mono [OF mem, of "unat ?p"] by (simp add: memory_for_def)
  note p = loader_next_outside [OF inv lt]
  have sv39: "m_mmu_mode l = SV39" "sm_mode ?m = SV39" and pm: "pm_inv mm pm"
    and region: "sm_table_region_begin ?m = 0" "sm_table_region_end ?m = 16" and p16: "16 \<le> unat ?p"
    using inv by (simp_all add: loader_inv_def)
  obtain pm1 where add: "addRAMPage mm (?p * PAGE_SIZE) pm = Inr (True, pm1)"
    and cnt1: "alloc_count (m_page_allocator (m_ram pm1)) (Suc (unat ?p))"
    using addRAMPage_count [OF grants cnt, of "?p * PAGE_SIZE"] lt free [of ?p] p(2) by auto
  note pm1 = addRAMPage_spec [OF mm pm add]
  have ms1: "maps_set ?m (pages_of l) (pm_contents pm1)"
    using ms by (rule maps_set_agree) (use p(1) pm1 in auto)
  have out: "\<not> in_region ?m ?p" using region p16 by (simp add: in_region_16)
  have no: "page_no ?m = vpage" using loader_page_no [OF inv] .
  from mapper_map_set [OF ms1 pm_inv_ok [OF conjunct1 [OF pm1]] p(2) out, of page_flags v, unfolded no]
  obtain s m' pm' where mp: "mapper_map ?mp ?m pm1 = Inr (s, m', pm')"
    and s: "s = OK \<and> maps_set m' (insert (vpage v) (pages_of l)) (pm_contents pm') \<or>
      s = MAPPER_TABLE_REGION_END \<and> unat (sm_table_region_end ?m) <
        unat (sm_table_region_begin ?m) + tables_for (mode_levels (sm_mode ?m)) (insert (vpage v) (pages_of l))"
    unfolding if_not_P [OF new] by blast
  have "s = OK" and ms': "maps_set m' (insert (vpage v) (pages_of l)) (pm_contents pm')"
    using s tab by (auto simp: sv39 region)
  note mp = mp [unfolded \<open>s = OK\<close>]
  let ?l' = "l\<lparr>m_mapper := m', m_next_map_ppn := ?p + 1, m_vpn_map := (m_vpn_map l)(v \<mapsto> ?p)\<rparr>"
  have "m_vpn_map l v = None" using new by (force simp: domIff)
  from mapPage_forward [OF sv39(1) add mp this] have map: "mapPage mm v l pm = Inr (OK, ?l', pm')" .
  from ms1 obtain lv where "mapper_ok ?m lv (pm_contents pm1)" by (auto simp: maps_set_def)
  from mapper_map_frame [OF this pm_inv_ok [OF conjunct1 [OF pm1]] _ mp] p(2)
  have ram: "m_ram pm' = m_ram pm1" and kept: "slots_kept ?m (pm_contents pm1) (pm_contents pm')"
    by (simp_all add: MemoryMapping_new_def map_frame_def)
  have same: "pm_contents pm' (q * PAGE_SIZE) = (if q = ?p then Some 0 else pm_contents pm (q * PAGE_SIZE))"
    if "16 \<le> unat q" "q < 2 ^ 44" for q
  proof -
    have "q * PAGE_SIZE = ?p * PAGE_SIZE \<longleftrightarrow> q = ?p"
      using page_mult_inj [of q ?p] that(2) p(2) by (auto simp: word_less_nat_alt)
    then show ?thesis
      using slots_keptD(3) [OF kept, of "q * PAGE_SIZE"] region_page_number [OF inv that] pm1
      by (simp add: page_base_aligned)
  qed
  have "loader_inv mm (unat (?p + 1)) ?l' pm'" using mapPage_inv [OF mm inv lt map] p(3) by simp
  moreover have "loaded ?l' pm'" using mapPage_loaded [OF mm inv lt ld map] by blast
  moreover have "pages_of ?l' = insert (vpage v) (pages_of l)" by simp
  moreover have "pm_contents pm' (q * PAGE_SIZE) = None" if "?p + 1 \<le> q" "q < 2 ^ 44" for q
  proof -
    have "unat ?p + 1 \<le> unat q" using that(1) p(3) by (simp add: word_le_nat_alt)
    then show ?thesis using same [of q] that(2) p16 free [of q] by (auto simp: word_le_nat_alt)
  qed
  moreover have "pm_contents pm' (q * PAGE_SIZE) \<noteq> None" if "m_vpn_map ?l' w = Some q" for w q
  proof -
    have "16 \<le> unat q" "q < 2 ^ 44"
      using inv that p(2) p16 unfolding loader_inv_def by (auto simp: word_less_nat_alt split: if_splits) fastforce+
    then show ?thesis using same that there [of w q] by (auto split: if_splits)
  qed
  ultimately have "ready mm ?l' pm'" using ms' cnt1 ram p(3) by (simp add: ready_def)
  with map p(3) show ?thesis by auto
qed

section \<open>Mapping a range of pages\<close>

abbreviation idx :: "nat \<Rightarrow> nat" where
  "idx v \<equiv> v mod 512 ^ 3"

text \<open>The pages \<open>S\<close> are different modulo \<open>2 ^ 27\<close>, not yet mapped, and the table region is large enough for them.\<close>

definition fits :: "nat set \<Rightarrow> nat set \<Rightarrow> bool" where
  "fits D S \<longleftrightarrow> finite S \<and> inj_on idx S \<and> idx ` S \<inter> D = {} \<and> tables_for 3 (D \<union> idx ` S) \<le> 16"

lemma tables_for_mono: "finite E \<Longrightarrow> D \<subseteq> E \<Longrightarrow> tables_for k D \<le> tables_for k E"
  unfolding tables_for_def by (intro add_left_mono sum_mono card_mono) auto

lemma fits_insert:
  assumes fits: "fits D (insert v S)" and v: "v \<notin> S" and D: "finite D"
  shows "idx v \<notin> D" and "tables_for 3 (insert (idx v) D) \<le> 16" and "fits (insert (idx v) D) S"
proof -
  have "insert (idx v) D \<subseteq> D \<union> idx ` insert v S" "finite (D \<union> idx ` insert v S)"
    using fits D by (auto simp: fits_def)
  then show "tables_for 3 (insert (idx v) D) \<le> 16"
    using fits tables_for_mono [of "D \<union> idx ` insert v S" "insert (idx v) D" 3] by (auto simp: fits_def)
  show "idx v \<notin> D" using fits by (auto simp: fits_def)
  have "insert (idx v) D \<union> idx ` S = D \<union> idx ` insert v S" by auto
  then show "fits (insert (idx v) D) S"
    using fits v unfolding fits_def by (auto simp: inj_on_def)
qed

lemma pages_of_update: "m_vpn_map l' = (m_vpn_map l)(v \<mapsto> p) \<Longrightarrow> pages_of l' = insert (idx (unat v)) (pages_of l)"
  by (simp add: vpage_def)

text \<open>The pages from an address up to an end.\<close>

definition span :: "nat \<Rightarrow> nat \<Rightarrow> nat set" where
  "span b e = {v. b div 4096 \<le> v \<and> v * 4096 < e}"

lemma span_step:
  assumes "b mod 4096 = 0" and "b < e"
  shows "span b e = insert (b div 4096) (span (b + 4096) e)" and "b div 4096 \<notin> span (b + 4096) e"
  using assms by (auto simp: span_def)

lemma finite_span: "finite (span b e)"
proof -
  have "span b e \<subseteq> {..e}" by (auto simp: span_def)
  then show ?thesis using finite_subset by blast
qed

lemma map_segment_ready:
  assumes e: "unat e \<le> 2 ^ 64 - 4096"
  shows "ready mm l pm \<Longrightarrow> page_offset va = 0 \<Longrightarrow> card (span (unat va) (unat e)) < fuel \<Longrightarrow>
    fits (pages_of l) (span (unat va) (unat e)) \<Longrightarrow>
    memory_for mm (unat (m_next_map_ppn l) + card (span (unat va) (unat e))) \<Longrightarrow>
    \<exists>l' pm'. map_segment fuel mm va e l pm = Some (Inr (OK, l', pm')) \<and> ready mm l' pm' \<and>
      pages_of l' = pages_of l \<union> idx ` span (unat va) (unat e) \<and>
      unat (m_next_map_ppn l') = unat (m_next_map_ppn l) + card (span (unat va) (unat e))"
proof (induction fuel arbitrary: va l pm)
  case (Suc fuel)
  show ?case
  proof (cases "va < e")
    case False
    have "v * 4096 \<ge> unat e" if "unat va div 4096 \<le> v" for v
      using that False Suc.prems(2) unat_page_offset [of va] mult_le_mono1 [OF that, of 4096]
      by (auto simp: word_less_nat_alt mod_eq_0_iff_dvd)
    then have "span (unat va) (unat e) = {}" by (fastforce simp: span_def)
    with False Suc.prems(1) show ?thesis by simp
  next
    case True
    let ?S = "span (unat va) (unat e)" and ?S1 = "span (unat va + 4096) (unat e)" and ?v = "unat va div 4096"
    note step = page_step [OF Suc.prems(2) True e]
    have aligned: "unat va mod 4096 = 0" using Suc.prems(2) unat_page_offset [of va] by simp
    have "unat va < unat e" using True by (simp add: word_less_nat_alt)
    note S = span_step [OF aligned this]
    have card: "card ?S = Suc (card ?S1)" using S finite_span by simp
    have v: "unat (va div PAGE_SIZE) = ?v" by (simp add: unat_div_distrib PAGE_SIZE_def)
    note fit = fits_insert [OF Suc.prems(4) [unfolded S(1)] S(2) finite_pages [OF Suc.prems(1)]]
    have "memory_for mm (Suc (unat (m_next_map_ppn l)))"
      using Suc.prems(5) by (rule memory_for_mono) (simp add: card)
    from mapPage_ready [OF Suc.prems(1) this, of "va div PAGE_SIZE"] fit(1,2)
    obtain l1 pm1 where page: "mapPage mm (va div PAGE_SIZE) l pm = Inr (OK, l1, pm1)" "ready mm l1 pm1"
        "m_vpn_map l1 = (m_vpn_map l)(va div PAGE_SIZE \<mapsto> m_next_map_ppn l)"
        "unat (m_next_map_ppn l1) = Suc (unat (m_next_map_ppn l))"
      by (auto simp: vpage_def v)
    note pages = pages_of_update [OF page(3), unfolded v]
    have "\<exists>l' pm'. map_segment fuel mm (va + PAGE_SIZE) e l1 pm1 = Some (Inr (OK, l', pm')) \<and> ready mm l' pm' \<and>
        pages_of l' = pages_of l1 \<union> idx ` ?S1 \<and> unat (m_next_map_ppn l') = unat (m_next_map_ppn l1) + card ?S1"
      using Suc.IH [OF page(2) step(1)] Suc.prems(3,5) fit(3) card page(4) unfolding step(2) pages by simp
    then show ?thesis using True page(1,4) card pages S(1) by auto
  qed
qed simp

lemma map_stack_pages_ready:
  "ready mm l pm \<Longrightarrow> v \<le> b \<Longrightarrow> fits (pages_of l) {unat v..<unat b} \<Longrightarrow>
    memory_for mm (unat (m_next_map_ppn l) + (unat b - unat v)) \<Longrightarrow>
    \<exists>l' pm'. map_stack_pages mm v b l pm = Inr (OK, l', pm') \<and> ready mm l' pm' \<and>
      pages_of l' = pages_of l \<union> idx ` {unat v..<unat b} \<and>
      unat (m_next_map_ppn l') = unat (m_next_map_ppn l) + (unat b - unat v) \<and> m_stack_base l' = m_stack_base l"
proof (induction "unat b - unat v" arbitrary: v l pm)
  case 0
  then have "v = b" by (simp add: word_le_nat_alt word_unat_eq_iff)
  with 0 show ?case using map_stack_pages_unfold [of mm b b] by simp
next
  case (Suc k)
  then have lt: "unat v < unat b" by simp
  have "unat b < 2 ^ LENGTH(64)" by (rule unsigned_less)
  then have v1: "unat (v + 1) = unat v + 1" using lt by (simp add: unat_word_ariths)
  have S: "{unat v..<unat b} = insert (unat v) {unat (v + 1)..<unat b}" "unat v \<notin> {unat (v + 1)..<unat b}"
    using lt v1 by auto
  note fit = fits_insert [OF Suc.prems(3) [unfolded S(1)] S(2) finite_pages [OF Suc.prems(1)]]
  have "memory_for mm (Suc (unat (m_next_map_ppn l)))" using Suc.prems(4) by (rule memory_for_mono) (use lt in simp)
  from mapPage_ready [OF Suc.prems(1) this, of v] fit(1,2)
  obtain l1 pm1 where page: "mapPage mm v l pm = Inr (OK, l1, pm1)" "ready mm l1 pm1"
      "m_vpn_map l1 = (m_vpn_map l)(v \<mapsto> m_next_map_ppn l)" "unat (m_next_map_ppn l1) = Suc (unat (m_next_map_ppn l))"
      "m_stack_base l1 = m_stack_base l"
    by (auto simp: vpage_def)
  note pages = pages_of_update [OF page(3)]
  have "\<exists>l' pm'. map_stack_pages mm (v + 1) b l1 pm1 = Inr (OK, l', pm') \<and> ready mm l' pm' \<and>
      pages_of l' = pages_of l1 \<union> idx ` {unat (v + 1)..<unat b} \<and>
      unat (m_next_map_ppn l') = unat (m_next_map_ppn l1) + (unat b - unat (v + 1)) \<and> m_stack_base l' = m_stack_base l1"
  proof (rule Suc.hyps(1) [OF _ page(2)])
    show "k = unat b - unat (v + 1)" using Suc.hyps(2) v1 by simp
    show "v + 1 \<le> b" using lt v1 by (simp add: word_le_nat_alt)
    show "fits (pages_of l1) {unat (v + 1)..<unat b}" using fit(3) pages by simp
    show "memory_for mm (unat (m_next_map_ppn l1) + (unat b - unat (v + 1)))"
      using Suc.prems(4) by (rule memory_for_mono) (use page(4) lt v1 in simp)
  qed
  moreover have "v \<noteq> b" using lt by auto
  ultimately show ?case
    using page lt pages v1 unfolding S(1) map_stack_pages_unfold [of mm v b l pm] by auto
qed

section \<open>Copying\<close>

lemma memcpy_total: "src + n \<le> length buf \<Longrightarrow> \<exists>pm'. memcpy dst buf src n pm = Inr pm' \<and> m_ram pm' = m_ram pm"
proof (induction n arbitrary: dst src pm)
  case (Suc n)
  let ?pm1 = "pm\<lparr>host_mem := host_write dst (buf ! src) (host_mem pm)\<rparr>"
  have "\<exists>pm'. memcpy (ptr_add dst 1) buf (Suc src) n ?pm1 = Inr pm' \<and> m_ram pm' = m_ram ?pm1"
    using Suc by (intro Suc.IH) simp
  then show ?case using Suc.prems by simp
qed simp

lemma load_segment_total:
  assumes len: "unat (p_offset seg) + unat (p_filesz seg) \<le> length buf"
    and seg: "unat (p_vaddr seg) + unat (p_filesz seg) < 2 ^ 64"
  shows "(\<And>a. unat (p_vaddr seg) \<le> unat a \<Longrightarrow> unat a < unat (p_vaddr seg) + unat (p_filesz seg) \<Longrightarrow>
      \<exists>p. m_vpn_map l (a div PAGE_SIZE) = Some p \<and> m_mapping (m_ram pm) (p * PAGE_SIZE) \<noteq> None) \<Longrightarrow>
    \<exists>pm'. load_segment buf seg offset l pm = Inr pm'"
  using len seg
proof (induction buf seg offset l pm rule: load_segment.induct)
  case (1 buf seg offset l pm)
  show ?case
  proof (cases "offset < p_filesz seg")
    case False
    then show ?thesis by (simp add: load_segment.simps [of buf seg offset])
  next
    case True
    let ?va = "p_vaddr seg + offset"
    let ?k = "min (4096 - unat (page_offset ?va)) (unat (p_filesz seg) - unat offset)"
    have lt: "unat offset < unat (p_filesz seg)" using True by (simp add: word_less_nat_alt)
    have "unat ?va = unat (p_vaddr seg) + unat offset" using lt "1.prems"(3) by (simp add: unat_word_ariths)
    with "1.prems"(1) [of ?va] lt obtain p hp where p: "m_vpn_map l (?va div PAGE_SIZE) = Some p"
      and hp: "m_mapping (m_ram pm) (p * PAGE_SIZE) = Some hp" by auto
    have "in_page (p * PAGE_SIZE) 4" by (simp add: in_page_def)
    with hp obtain pm1 where wr: "PhysMemory_write (p * PAGE_SIZE) (0 :: 32 word) pm =
        Inr (\<lparr>wr_status = OK, wr_host_page_ptr = Some hp\<rparr>, pm1)" "m_ram pm1 = m_ram pm"
      by (simp add: PhysMemory_write_eq page_base_aligned)
    have "unat (p_offset seg) + unat offset + ?k \<le> length buf" using "1.prems"(2) lt by simp
    from memcpy_total [OF this] obtain pm2 where
      cpy: "memcpy (ptr_add hp (page_offset ?va)) buf (unat (p_offset seg) + unat offset) ?k pm1 = Inr pm2" "m_ram pm2 = m_ram pm1"
      by blast
    have page: "(?va - page_offset ?va) div PAGE_SIZE = ?va div PAGE_SIZE"
      by (simp add: page_number_eq_iff flip: page_base_eq_minus)
    have "\<exists>pm'. load_segment buf seg (offset + min (PAGE_SIZE - page_offset ?va) (p_filesz seg - offset)) l pm2 = Inr pm'"
      using "1.IH" [OF True refl refl refl, of "p * PAGE_SIZE" "(\<lparr>wr_status = OK, wr_host_page_ptr = Some hp\<rparr>, pm1)"]
        p wr cpy page "1.prems" by (simp add: min_page_size [OF True])
    then show ?thesis
      using True p wr cpy page by (subst load_segment.simps) (simp add: Let_def min_page_size [OF True])
  qed
qed

lemma ready_copied:
  assumes rdy: "ready mm l pm" and n: "unat (m_next_map_ppn l) \<le> 2 ^ 44"
    and seg: "unat (p_vaddr seg) + unat (p_filesz seg) < 2 ^ 64"
    and load: "load_segment buf seg 0 l pm = Inr pm'"
  shows "ready mm l pm'"
proof -
  have inv: "loader_inv mm (unat (m_next_map_ppn l)) l pm" and ld: "loaded l pm" using rdy by (simp_all add: ready_def)
  note frame = load_segment_frame [OF n inv load]
  then have ram: "m_ram pm' = m_ram pm" by blast
  have "pm_contents pm' a = None \<longleftrightarrow> pm_contents pm a = None" for a
    by (simp add: pm_contents_def ram split: option.split)
  moreover have "maps_set (m_mapper l) (pages_of l) (pm_contents pm')"
  proof (rule maps_set_agree)
    show "maps_set (m_mapper l) (pages_of l) (pm_contents pm)" using rdy by (simp add: ready_def)
  qed (use frame in blast)
  moreover have "loaded l pm'" using load_segment_loaded [OF n inv ld seg load] by blast
  ultimately show ?thesis using rdy frame by (simp add: ready_def)
qed

section \<open>Loading a file\<close>

definition seg_span :: "GElf_Phdr \<Rightarrow> nat set" where
  "seg_span seg = span (unat (page_base (p_vaddr seg))) (unat (p_vaddr seg) + unat (p_memsz seg))"

text \<open>
  The loadable segments among the \<open>k\<close> program headers from \<open>i\<close> on: each is well-formed, its image lies in the
  file, and its pages fit beside those of \<open>D\<close> and of the segments before it.
\<close>

fun segs_fit :: "ElfInput \<Rightarrow> nat \<Rightarrow> nat \<Rightarrow> nat \<Rightarrow> nat set \<Rightarrow> bool" where
  "segs_fit elf len i 0 D \<longleftrightarrow> True"
| "segs_fit elf len i (Suc k) D \<longleftrightarrow>
     (case elf_phdr elf i of
        None \<Rightarrow> False
      | Some seg \<Rightarrow>
          if p_type seg = PT_LOAD
          then seg_ok seg \<and> unat (p_offset seg) + unat (p_filesz seg) \<le> len \<and> fits D (seg_span seg) \<and>
               segs_fit elf len (Suc i) k (D \<union> idx ` seg_span seg)
          else segs_fit elf len (Suc i) k D)"

fun segs_pages :: "ElfInput \<Rightarrow> nat \<Rightarrow> nat \<Rightarrow> nat" where
  "segs_pages elf i 0 = 0"
| "segs_pages elf i (Suc k) =
     (case elf_phdr elf i of
        None \<Rightarrow> 0
      | Some seg \<Rightarrow> (if p_type seg = PT_LOAD then card (seg_span seg) else 0) + segs_pages elf (Suc i) k)"

lemma loaded_range_present:
  assumes "ubyte l pm a \<noteq> None"
  shows "\<exists>p. m_vpn_map l (a div PAGE_SIZE) = Some p \<and> m_mapping (m_ram pm) (p * PAGE_SIZE) \<noteq> None"
proof -
  from assms obtain p where p: "m_vpn_map l (a div PAGE_SIZE) = Some p"
    and "pm_contents pm (p * PAGE_SIZE + page_offset a) \<noteq> None"
    by (auto simp: ubyte_def split: option.splits)
  from this(2) have "m_mapping (m_ram pm) (p * PAGE_SIZE) \<noteq> None"
    by (auto simp: pm_contents_def split: option.splits)
  with p show ?thesis by blast
qed

text \<open>More fuel changes nothing.\<close>

lemma map_segment_fuel: "map_segment f mm va e l pm = Some r \<Longrightarrow> f \<le> f' \<Longrightarrow> map_segment f' mm va e l pm = Some r"
proof (induction f arbitrary: f' va l pm)
  case (Suc f)
  then obtain g where g: "f' = Suc g" "f \<le> g" by (cases f') auto
  show ?case
    using Suc.prems(1) Suc.IH [OF _ g(2)] unfolding g(1) by (auto split: if_splits sum.splits)
qed simp

text \<open>One segment.\<close>

lemma segment_ready:
  assumes rdy: "ready mm l pm" and ok: "seg_ok seg" and len: "unat (p_offset seg) + unat (p_filesz seg) \<le> length buf"
    and fit: "fits (pages_of l) (seg_span seg)" and fuel: "card (seg_span seg) < fuel"
    and mem: "memory_for mm (unat (m_next_map_ppn l) + card (seg_span seg))"
  shows "\<exists>l' pm1 pm'. map_segment fuel mm (page_base (p_vaddr seg)) (p_vaddr seg + p_memsz seg) l pm = Some (Inr (OK, l', pm1)) \<and>
    load_segment buf seg 0 l' pm1 = Inr pm' \<and> ready mm l' pm' \<and> pages_of l' = pages_of l \<union> idx ` seg_span seg \<and>
    unat (m_next_map_ppn l') = unat (m_next_map_ppn l) + card (seg_span seg)"
proof -
  let ?v = "unat (p_vaddr seg)" and ?m = "unat (p_memsz seg)" and ?f = "unat (p_filesz seg)"
    and ?e = "p_vaddr seg + p_memsz seg"
  have fm: "?f \<le> ?m" "?v + ?m \<le> 2 ^ 64 - 4096" using ok by (simp_all add: seg_ok_def word_le_nat_alt)
  then have e: "unat ?e = ?v + ?m" by (simp add: unat_word_ariths)
  then have S: "seg_span seg = span (unat (page_base (p_vaddr seg))) (unat ?e)" by (simp add: seg_span_def)
  have "unat ?e \<le> 2 ^ 64 - 4096" using fm e by simp
  from map_segment_ready [OF this rdy page_offset_base, where fuel = "Suc (card (seg_span seg))"] fit mem obtain l' pm1 where
    map: "map_segment (Suc (card (seg_span seg))) mm (page_base (p_vaddr seg)) ?e l pm = Some (Inr (OK, l', pm1))"
    and r1: "ready mm l' pm1" and pages: "pages_of l' = pages_of l \<union> idx ` seg_span seg"
    and nxt: "unat (m_next_map_ppn l') = unat (m_next_map_ppn l) + card (seg_span seg)"
    unfolding S by blast
  have inv: "loader_inv mm (unat (m_next_map_ppn l)) l pm" and ld: "loaded l pm" and mm: "mmap_contract mm"
    and n: "unat (m_next_map_ppn l) + Suc (card (seg_span seg)) \<le> 2 ^ 44"
    using rdy mem by (simp_all add: ready_def memory_for_def)
  note mapped = map_segment_loaded [OF mm \<open>unat ?e \<le> 2 ^ 64 - 4096\<close> inv n ld page_offset_base map, folded on_seg_page_def]
  have there: "ubyte l' pm1 a \<noteq> None" if a: "?v \<le> unat a" "unat a < ?v + ?f" for a
  proof -
    have "on_seg_page seg a"
      using a fm div_mult_mod_eq [of "unat a" 4096] by (simp add: on_seg_page_nat [OF ok] div_le_mono)
    then show ?thesis using mapped by auto
  qed
  have vf: "?v + ?f < 2 ^ 64" using fm by simp
  obtain pm' where load: "load_segment buf seg 0 l' pm1 = Inr pm'"
    using load_segment_total [OF len vf loaded_range_present [OF there]] by blast
  have "unat (m_next_map_ppn l') \<le> 2 ^ 44" using mem nxt by (simp add: memory_for_def)
  from ready_copied [OF r1 this vf load] map_segment_fuel [OF map, of fuel] fuel load pages nxt
  show ?thesis by (auto simp: Suc_le_eq)
qed

text \<open>All segments.\<close>

lemma load_segments_ready:
  "ready mm l pm \<Longrightarrow> segs_fit elf (length buf) i k (pages_of l) \<Longrightarrow> segs_pages elf i k < fuel \<Longrightarrow>
    memory_for mm (unat (m_next_map_ppn l) + segs_pages elf i k) \<Longrightarrow>
    \<exists>l' pm'. load_segments fuel mm elf buf i k l pm = Some (Inr (OK, l', pm')) \<and> ready mm l' pm'"
proof (induction k arbitrary: i l pm)
  case (Suc k)
  from Suc.prems(2) obtain seg where seg: "elf_phdr elf i = Some seg" by (auto split: option.splits)
  show ?case
  proof (cases "p_type seg = PT_LOAD")
    case False
    then show ?thesis using Suc.IH [OF Suc.prems(1), of "Suc i"] Suc.prems(2-4) seg by simp
  next
    case True
    have fit: "seg_ok seg" "unat (p_offset seg) + unat (p_filesz seg) \<le> length buf" "fits (pages_of l) (seg_span seg)"
        "segs_fit elf (length buf) (Suc i) k (pages_of l \<union> idx ` seg_span seg)"
      and pages: "segs_pages elf i (Suc k) = card (seg_span seg) + segs_pages elf (Suc i) k"
      using Suc.prems(2) seg True by simp_all
    have "memory_for mm (unat (m_next_map_ppn l) + card (seg_span seg))"
      using Suc.prems(4) by (rule memory_for_mono) (unfold pages, simp)
    from segment_ready [OF Suc.prems(1) fit(1-3) _ this, of fuel] Suc.prems(3) pages obtain l1 pm1 pm2 where
      one: "map_segment fuel mm (page_base (p_vaddr seg)) (p_vaddr seg + p_memsz seg) l pm = Some (Inr (OK, l1, pm1))"
        "load_segment buf seg 0 l1 pm1 = Inr pm2"
      and r: "ready mm l1 pm2" "pages_of l1 = pages_of l \<union> idx ` seg_span seg"
        "unat (m_next_map_ppn l1) = unat (m_next_map_ppn l) + card (seg_span seg)" by auto
    have "\<exists>l' pm'. load_segments fuel mm elf buf (Suc i) k l1 pm2 = Some (Inr (OK, l', pm')) \<and> ready mm l' pm'"
      using Suc.IH [OF r(1), of "Suc i"] fit(4) Suc.prems(3,4) unfolding r(2,3) pages by (simp add: add.assoc)
    then show ?thesis using seg True one by (simp add: Let_def)
  qed
qed simp

text \<open>The file can be read and its header is that of a 64-bit file.\<close>

definition elf_readable :: "ElfInput \<Rightarrow> byte list \<Rightarrow> 16 word \<Rightarrow> 64 word \<Rightarrow> bool" where
  "elf_readable elf buf num entry \<longleftrightarrow>
     elf_version_ok elf \<and> elf_open_ok elf \<and> elf_buf elf = Some buf \<and> elf_begin_ok elf \<and>
     elf_class elf \<noteq> ELFCLASSNONE \<and> elf_class elf \<noteq> ELFCLASS32 \<and> elf_ehdr elf = Some (num, entry)"

lemma loadElf_ready:
  assumes "ready mm l pm" and "elf_readable elf buf num entry"
    and "segs_fit elf (length buf) 0 (unat num) (pages_of l)" and "segs_pages elf 0 (unat num) < fuel"
    and "memory_for mm (unat (m_next_map_ppn l) + segs_pages elf 0 (unat num))"
  shows "\<exists>l' pm'. loadElf fuel mm elf l pm = Some (Inr ((OK, entry), l', pm')) \<and> ready mm l' pm'"
  using load_segments_ready [OF assms(1,3-5)] assms(2) by (auto simp: loadElf_def elf_readable_def)

text \<open>
  C5: a file that can be read is loaded: if its segments are well-formed, lie in the file, share no page
  modulo \<open>2 ^ 27\<close> with each other or with the pages mapped before, and 16 page tables are enough, then
  \<open>loadElf\<close> ends without an abort and returns \<open>OK\<close> and the entry point.
\<close>

theorem loadElf_succeeds:
  assumes "ready mm l pm" and "elf_readable elf buf num entry"
    and "segs_fit elf (length buf) 0 (unat num) (pages_of l)" and "segs_pages elf 0 (unat num) < fuel"
    and "memory_for mm (unat (m_next_map_ppn l) + segs_pages elf 0 (unat num))"
  shows "\<exists>l' pm'. loadElf fuel mm elf l pm = Some (Inr ((OK, entry), l', pm'))"
  using loadElf_ready [OF assms] by blast

section \<open>The stack\<close>

text \<open>The constructors: a new memory has no pages, and the mapper adds the 16 of its region.\<close>

lemma map_tables_total:
  assumes mm: "mmap_contract mm" and B: "mmap_grants mm B" "B < 2 ^ 64"
  shows "pm_inv mm pm \<Longrightarrow> alloc_count (m_page_allocator (m_ram pm)) P \<Longrightarrow>
    (P + (unat e - unat b) + 4096) * 4096 \<le> B \<Longrightarrow> b \<le> e \<Longrightarrow> unat e < 2 ^ 52 \<Longrightarrow>
    (\<And>t. b \<le> t \<Longrightarrow> t < e \<Longrightarrow> pm_contents pm (t * PAGE_SIZE) = None) \<Longrightarrow>
    \<exists>pm'. map_tables mm b e pm = Inr pm' \<and> alloc_count (m_page_allocator (m_ram pm')) (P + (unat e - unat b))"
proof (induction "unat e - unat b" arbitrary: b pm P)
  case 0
  then have "b = e" by (simp add: word_le_nat_alt word_unat_eq_iff)
  with 0 show ?case using map_tables_unfold [of mm e e] by simp
next
  case (Suc k)
  then have lt: "b < e" by (simp add: word_less_nat_alt)
  then have b1: "unat (b + 1) = unat b + 1" using Suc.prems(5) by (simp add: unat_word_ariths word_less_nat_alt)
  have "(P + 4096) * 4096 \<le> B" using Suc.prems(3) by (rule le_trans [rotated]) simp
  from addRAMPage_count [OF B(1) Suc.prems(2) this B(2), of "b * PAGE_SIZE"] Suc.prems(6) [of b] lt obtain pm1 where
    add: "addRAMPage mm (b * PAGE_SIZE) pm = Inr (True, pm1)" "alloc_count (m_page_allocator (m_ram pm1)) (Suc P)" by auto
  note pm1 = addRAMPage_spec [OF mm Suc.prems(1) add(1)]
  have "pm_contents pm1 (t * PAGE_SIZE) = None" if "b + 1 \<le> t" "t < e" for t
  proof -
    have "b < t" using that(1) b1 by (simp add: word_le_nat_alt word_less_nat_alt)
    moreover have "t < 2 ^ 52" "b < 2 ^ 52" using that(2) lt Suc.prems(5) by (simp_all add: word_less_nat_alt)
    then have "t * PAGE_SIZE = b * PAGE_SIZE \<longleftrightarrow> t = b" using page_mult_inj by blast
    ultimately show ?thesis using pm1 Suc.prems(6) [of t] that(2) by (simp add: page_base_aligned)
  qed
  moreover have "k = unat e - unat (b + 1)" "b + 1 \<le> e" "Suc P + (unat e - unat (b + 1)) = P + (unat e - unat b)"
    using Suc.hyps(2) lt b1 by (simp_all add: word_le_nat_alt word_less_nat_alt)
  ultimately have "\<exists>pm'. map_tables mm (b + 1) e pm1 = Inr pm' \<and>
      alloc_count (m_page_allocator (m_ram pm')) (P + (unat e - unat b))"
    using Suc.hyps(1) [of "b + 1" pm1 "Suc P"] pm1 add(2) Suc.prems(3,5) by metis
  with lt add(1) show ?case unfolding map_tables_unfold [of mm b] by auto
qed

lemma new_loader_ready:
  assumes mem: "memory_for mm 16" and pm: "PhysMemory_new mm = Inr pm"
    and cnt: "alloc_count (m_page_allocator (m_ram pm)) 0"
  shows "\<exists>l pm'. ElfLoader_new mm pm = Inr (l, pm') \<and> ready mm l pm' \<and> pages_of l = {} \<and> m_next_map_ppn l = 16 \<and>
    m_stack_base l = DEFAULT_STACK_BASE \<and> m_stack_size l = DEFAULT_STACK_SIZE"
proof -
  have mm: "mmap_contract mm" "mmap_grants mm ((16 + 4096) * 4096)" using mem by (simp_all add: memory_for_def)
  have inv: "pm_inv mm pm" and none: "pm_contents pm = Map.empty" using PhysMemory_new_inv [OF pm] by auto
  obtain pm' where tab: "map_tables mm 0 16 pm = Inr pm'" "alloc_count (m_page_allocator (m_ram pm')) 16"
    using map_tables_total [OF mm(1,2) _ inv cnt, of 16 0] none by auto
  let ?m = "\<lparr>sm_mode = SV39, sm_table_region_begin = 0, sm_curr_table = 1, sm_table_region_end = 16\<rparr>"
  have new: "SimpleMemoryMapper_new mm SV39 0 16 pm = Inr (?m, pm')" using tab by (simp add: SimpleMemoryMapper_new_def)
  have e: "(16 :: 64 word) \<le> 2 ^ 44" by simp
  note spec = SimpleMemoryMapper_new_ok [OF mm(1) inv _ e new]
  let ?l = "\<lparr>m_stack_base = DEFAULT_STACK_BASE, m_stack_size = DEFAULT_STACK_SIZE, m_mmu_mode = SV39,
      m_table_region_begin = 0, m_table_region_size = 16, m_table_region_end = 16, m_mapper = ?m, m_next_map_ppn = 16,
      m_vpn_map = Map.empty\<rparr>"
  have l: "ElfLoader_new mm pm = Inr (?l, pm')"
    using new by (simp add: ElfLoader_new_def Let_def DEFAULT_TABLE_REGION_SIZE_def)
  have li: "loader_inv mm 16 ?l pm'" using ElfLoader_new_inv [OF mm(1) inv l] .
  have "pm_contents pm' (p * PAGE_SIZE) = None" if "16 \<le> p" "p < 2 ^ 44" for p
  proof -
    have "p * PAGE_SIZE \<notin> region_pages ?m"
      using region_page_number [OF li _ that(2)] that(1) by (simp add: word_le_nat_alt)
    moreover have "page_base (p * PAGE_SIZE) = p * PAGE_SIZE" by (simp add: page_base_aligned)
    moreover have "pm_contents pm' = (\<lambda>a. if page_base a \<in> region_pages ?m then Some 0 else pm_contents pm a)"
      using spec by blast
    ultimately show ?thesis using none by simp
  qed
  moreover have "maps_set ?m {} (pm_contents pm')" using SimpleMemoryMapper_new_set [OF mm(1) inv _ e new] by simp
  ultimately have "ready mm ?l pm'" using li tab(2) by (simp add: ready_def loaded_empty)
  with l show ?thesis by simp
qed

text \<open>The stack takes 4096 pages and, with the root, 10 tables.\<close>

lemma tables_for_3: "tables_for 3 D = 1 + card ((\<lambda>d. d div 512) ` D) + card ((\<lambda>d. d div 262144) ` D)"
proof -
  have "{1..3 - 1} = {1, 2 :: nat}" by auto
  then show ?thesis by (simp add: tables_for_def)
qed

abbreviation stack_span :: "nat set" where
  "stack_span \<equiv> {268431360..<268435456}"

lemma stack_idx_minus: "v \<in> stack_span \<Longrightarrow> idx v = v - 134217728"
  using le_mod_geq [of 134217728 v] by auto

lemma stack_idx: "idx ` stack_span = {134213632..<134217728}"
proof -
  have "idx ` stack_span = (\<lambda>v. v - 134217728) ` stack_span" by (rule image_cong [OF refl stack_idx_minus])
  also have "\<dots> = {134213632..<134217728}" by (simp add: image_minus_const_atLeastLessThan_nat)
  finally show ?thesis .
qed

lemma stack_fits: "fits {} stack_span"
proof -
  have "inj_on idx stack_span" using stack_idx_minus by (intro inj_onI) (auto simp del: power_numeral)
  moreover have "(\<lambda>d. d div 512) ` {134213632..<134217728} \<subseteq> {262136..<262144 :: nat}"
    "(\<lambda>d. d div 262144) ` {134213632..<134217728} \<subseteq> {511 :: nat}" by auto
  then have "card ((\<lambda>d. d div 512) ` {134213632..<134217728 :: nat}) \<le> card {262136..<262144 :: nat}"
    "card ((\<lambda>d. d div 262144) ` {134213632..<134217728 :: nat}) \<le> card {511 :: nat}"
    by (intro card_mono; simp)+
  then have "tables_for 3 {134213632..<134217728} \<le> 10" by (simp add: tables_for_3)
  ultimately show ?thesis by (simp add: fits_def stack_idx del: power_numeral)
qed

lemma mapStack_ready:
  assumes rdy: "ready mm l pm" and l: "pages_of l = {}" "m_next_map_ppn l = 16" "m_stack_base l = DEFAULT_STACK_BASE"
      "m_stack_size l = DEFAULT_STACK_SIZE" and mem: "memory_for mm 4112"
  shows "\<exists>l' pm'. mapStack mm l pm = Inr ((OK, 2 ^ 40), l', pm') \<and> ready mm l' pm' \<and>
    pages_of l' = {134213632..<134217728} \<and> m_next_map_ppn l' = 4112"
proof -
  have b: "unat DEFAULT_STACK_BASE = 268435456" "unat (DEFAULT_STACK_BASE - DEFAULT_STACK_SIZE) = 268431360"
    "DEFAULT_STACK_BASE - DEFAULT_STACK_SIZE \<le> DEFAULT_STACK_BASE" "DEFAULT_STACK_BASE * PAGE_SIZE = 2 ^ 40"
    by (simp_all add: DEFAULT_STACK_BASE_def DEFAULT_STACK_SIZE_def PAGE_SIZE_def)
  obtain l' pm' where map: "map_stack_pages mm (DEFAULT_STACK_BASE - DEFAULT_STACK_SIZE) DEFAULT_STACK_BASE l pm = Inr (OK, l', pm')"
    and r: "ready mm l' pm'" "pages_of l' = idx ` stack_span" "unat (m_next_map_ppn l') = 4112" "m_stack_base l' = DEFAULT_STACK_BASE"
    using map_stack_pages_ready [OF rdy b(3)] stack_fits mem l by (auto simp: b simp del: power_numeral)
  have "m_next_map_ppn l' = 4112" using r(3) by (simp add: word_unat_eq_iff)
  moreover have "mapStack mm l pm = Inr ((OK, 2 ^ 40), l', pm')" using map l r(4) b(4) by (simp add: mapStack_def)
  ultimately show ?thesis using r(1,2) by (simp add: stack_idx del: power_numeral)
qed

end
