(* ===== verification/LoadAborts.thy ===== *)
theory LoadAborts
  imports SimInv ElfLive
begin

text \<open>
  How the construction of a simulator and the load of a file can end the process: by a failed assertion,
  by memory that the system refuses, and, where the file is shorter than a segment says, by a
  \<open>memcpy\<close> that reads past the end of the buffer. Nothing else: the mapper never aborts, no page that is
  written is missing, and no enumeration is left.
\<close>

section \<open>Constructors and mapping\<close>

definition load_aborts :: "abort set" where
  "load_aborts = {AssertFailed, BadAlloc}"

lemma aborts_SIM_ASSERT [simp]: "aborts_in load_aborts (SIM_ASSERT c)"
  by (simp add: aborts_in_def SIM_ASSERT_def load_aborts_def)

lemma aborts_BadAlloc [simp]: "aborts_in load_aborts (Inl BadAlloc)"
  by (simp add: load_aborts_def)

lemma aborts_MMap_new [simp]: "aborts_in load_aborts (MMap_new mm n ppn)"
  unfolding MMap_new_def Let_def by (intro aborts_in_bind) (auto simp del: aborts_in_Inl split: option.split)

lemma aborts_allocPage [simp]: "aborts_in load_aborts (allocPage mm a)"
  unfolding allocPage_def Let_def by (intro aborts_in_bind) (auto intro!: aborts_in_bind)

lemma aborts_addRAMPage [simp]: "aborts_in load_aborts (addRAMPage mm pa pm)"
  unfolding addRAMPage_def addPage_def Let_def
  by (intro aborts_in_bind) (auto intro!: aborts_in_bind split: option.split)

lemma aborts_map_tables: "aborts_in load_aborts (map_tables mm t e pm)"
proof (induction mm t e pm rule: map_tables.induct)
  case (1 mm t e pm)
  then show ?case
    by (subst map_tables.simps) (auto intro!: aborts_in_bind)
qed

lemma aborts_Simulator_new: "aborts_in load_aborts (Simulator_new mm log)"
  unfolding Simulator_new_def PhysMemory_new_def RAM_new_def PageAllocator_new_def Let_def
  by (auto intro!: aborts_in_bind)

lemma aborts_ElfLoader_new: "aborts_in load_aborts (ElfLoader_new mm pm)"
  unfolding ElfLoader_new_def SimpleMemoryMapper_new_def Let_def
  by (auto intro!: aborts_in_bind aborts_map_tables)

lemma aborts_mapPage:
  assumes mm: "mmap_contract mm" and inv: "loader_inv mm n l pm" and n: "n < 2 ^ 44"
  shows "aborts_in load_aborts (mapPage mm vpn l pm)"
proof -
  have mapper: "\<exists>r. mapper_map (MemoryMapping_new flags vpn (m_next_map_ppn l)) (m_mapper l) pm1 = Inr r"
    if add: "addRAMPage mm (m_next_map_ppn l * PAGE_SIZE) pm = Inr (True, pm1)" for flags pm1
  proof -
    from inv obtain lv where pm: "pm_inv mm pm" and lv: "mapper_ok (m_mapper l) lv (pm_contents pm)"
      and p: "unat (m_next_map_ppn l) \<le> n" by (auto simp: loader_inv_def)
    have "mp_ppn (MemoryMapping_new flags vpn (m_next_map_ppn l)) < 2 ^ 44"
      using p n by (simp add: MemoryMapping_new_def word_less_nat_alt)
    with mapper_map_spec [OF addRAMPage_mapper_ok [OF mm pm lv add]] addRAMPage_spec [OF mm pm add] pm_inv_ok
    show ?thesis by blast
  qed
  have mode: "m_mmu_mode l \<noteq> BARE" using inv by (simp add: loader_inv_def)
  let ?add = "addRAMPage mm (m_next_map_ppn l * PAGE_SIZE) pm"
  show ?thesis
  proof (cases ?add)
    case (Inl e)
    then have "e \<in> load_aborts" using aborts_addRAMPage [of mm "m_next_map_ppn l * PAGE_SIZE" pm] by simp
    then show ?thesis using Inl mode by (simp add: mapPage_def Let_def)
  next
    case (Inr r)
    obtain b pm1 where r: "r = (b, pm1)" by (cases r)
    show ?thesis
    proof (cases b)
      case False
      then show ?thesis using Inr r mode by (simp add: mapPage_def Let_def SIM_ASSERT_def load_aborts_def)
    next
      case True
      then have add: "?add = Inr (True, pm1)" using Inr r by simp
      obtain s m' pm' where
        "mapper_map (MemoryMapping_new (U_MASK OR R_MASK OR W_MASK OR X_MASK) vpn (m_next_map_ppn l)) (m_mapper l) pm1 = Inr (s, m', pm')"
        using mapper [OF add] by (metis surj_pair)
      then show ?thesis using add mode by (simp add: mapPage_def Let_def)
    qed
  qed
qed

lemma map_stack_pages_aborts:
  assumes mm: "mmap_contract mm"
  shows "loader_inv mm n l pm \<Longrightarrow> n + unat (b - v) \<le> 2 ^ 44 \<Longrightarrow> aborts_in load_aborts (map_stack_pages mm v b l pm)"
proof (induction "unat (b - v)" arbitrary: v n l pm)
  case 0
  then have "v = b" by (metis eq_iff_diff_eq_0 unat_eq_0)
  then show ?case by (subst map_stack_pages.simps) simp
next
  case (Suc k)
  then have ne: "v \<noteq> b" by auto
  have k: "k = unat (b - (v + 1))" using Suc.hyps(2) ne by (simp add: unat_minus_one diff_diff_eq [symmetric])
  have n: "n < 2 ^ 44" "Suc n + unat (b - (v + 1)) \<le> 2 ^ 44" using Suc.hyps(2) Suc.prems(2) k by simp_all
  have "aborts_in load_aborts (map_stack_pages mm (v + 1) b l1 pm1)" if "mapPage mm v l pm = Inr (s, l1, pm1)" for s l1 pm1
    using Suc.hyps(1) [OF k mapPage_inv [OF mm Suc.prems(1) n(1) that] n(2)] .
  then show ?case
    using ne aborts_mapPage [OF mm Suc.prems(1) n(1), of v]
    by (subst map_stack_pages.simps) (auto intro!: aborts_in_bind)
qed

lemma mapStack_aborts:
  assumes "mmap_contract mm" and "loader_inv mm n l pm" and "n + unat (m_stack_size l) \<le> 2 ^ 44"
  shows "aborts_in load_aborts (mapStack mm l pm)"
  using map_stack_pages_aborts [OF assms(1,2), of "m_stack_base l" "m_stack_base l - m_stack_size l"] assms(3)
  unfolding mapStack_def by (auto intro!: aborts_in_bind)

lemma map_segment_aborts:
  assumes mm: "mmap_contract mm"
  shows "loader_inv mm n l pm \<Longrightarrow> n + fuel \<le> 2 ^ 44 \<Longrightarrow> map_segment fuel mm va e l pm = Some r \<Longrightarrow> aborts_in load_aborts r"
proof (induction fuel arbitrary: va n l pm)
  case (Suc fuel)
  have n: "n < 2 ^ 44" "Suc n + fuel \<le> 2 ^ 44" using Suc.prems(2) by simp_all
  note map = aborts_mapPage [OF mm Suc.prems(1) n(1), of "va div PAGE_SIZE"]
  have "aborts_in load_aborts r" if "mapPage mm (va div PAGE_SIZE) l pm = Inr (s, l1, pm1)"
    "map_segment fuel mm (va + PAGE_SIZE) e l1 pm1 = Some r" for s l1 pm1
    using Suc.IH [OF mapPage_inv [OF mm Suc.prems(1) n(1) that(1)] n(2) that(2)] .
  then show ?case
    using Suc.prems(3) map by (auto simp: aborts_in_def split: sum.splits if_splits)
qed simp

section \<open>Copying\<close>

text \<open>The file is shorter than the segment says.\<close>

definition cut_off :: "byte list \<Rightarrow> GElf_Phdr \<Rightarrow> bool" where
  "cut_off buf seg \<longleftrightarrow> length buf < unat (p_offset seg) + unat (p_filesz seg)"

lemma memcpy_aborts: "memcpy dst buf src n pm = Inl e \<Longrightarrow> e = OutOfBounds \<and> length buf < src + n"
  by (induction n arbitrary: dst src pm) (fastforce split: if_splits)+

lemma load_segment_aborts:
  "load_segment buf seg offset l pm = Inl e \<Longrightarrow> e = AssertFailed \<or> e = OutOfBounds \<and> cut_off buf seg"
proof (induction buf seg offset l pm rule: load_segment.induct)
  case (1 buf seg offset l pm)
  let ?va = "p_vaddr seg + offset"
  let ?c = "min (PAGE_SIZE - page_offset ?va) (p_filesz seg - offset)"
  show ?case
  proof (cases "offset < p_filesz seg")
    case False
    then show ?thesis using 1(2) by (subst (asm) load_segment.simps) simp
  next
    case lt: True
    let ?k = "min (4096 - unat (page_offset ?va)) (unat (p_filesz seg) - unat offset)"
    have k: "unat offset + ?k \<le> unat (p_filesz seg)" using lt by (simp add: word_less_nat_alt)
    have page: "(?va - page_offset ?va) div PAGE_SIZE = ?va div PAGE_SIZE"
      by (simp add: page_number_eq_iff flip: page_base_eq_minus)
    show ?thesis
    proof (cases "m_vpn_map l (?va div PAGE_SIZE)")
      case None
      then show ?thesis using 1(2) lt page by (subst (asm) load_segment.simps) (simp add: Let_def)
    next
      case (Some ppn)
      have inp: "in_page (ppn * PAGE_SIZE) 4" by (simp add: in_page_def)
      show ?thesis
      proof (cases "m_mapping (m_ram pm) (ppn * PAGE_SIZE)")
        case None
        then show ?thesis using 1(2) lt page Some inp
          by (subst (asm) load_segment.simps) (simp add: Let_def PhysMemory_write_eq page_base_aligned SIM_ASSERT_def)
      next
        case hp: (Some hp)
        obtain pm1 where wr: "PhysMemory_write (ppn * PAGE_SIZE) (0 :: 32 word) pm =
            Inr (\<lparr>wr_status = OK, wr_host_page_ptr = Some hp\<rparr>, pm1)"
          using hp inp by (simp add: PhysMemory_write_eq page_base_aligned)
        let ?cpy = "memcpy (ptr_add hp (page_offset ?va)) buf (unat (p_offset seg) + unat offset) ?k pm1"
        have load: "bindR ?cpy (\<lambda>pm. load_segment buf seg (offset + ?c) l pm) = Inl e"
          using 1(2) lt page Some wr by (subst (asm) load_segment.simps) (simp add: Let_def min_page_size [OF lt])
        show ?thesis
        proof (cases ?cpy)
          case (Inl e')
          then have "e = OutOfBounds" "length buf < unat (p_offset seg) + unat offset + ?k"
            using load memcpy_aborts [OF Inl] by simp_all
          then show ?thesis using k by (simp add: cut_off_def)
        next
          case (Inr pm2)
          then have "load_segment buf seg (offset + ?c) l pm2 = Inl e" using load by simp
          with "1.IH" [OF lt refl refl refl, of "ppn * PAGE_SIZE" "(\<lparr>wr_status = OK, wr_host_page_ptr = Some hp\<rparr>, pm1)"]
            Some wr Inr page show ?thesis by (simp add: min_page_size [OF lt])
        qed
      qed
    qed
  qed
qed

section \<open>Loading a file\<close>

text \<open>An abort of the load: one of the two, or a copy past the end of the buffer for a segment that is cut off.\<close>

definition load_abort :: "ElfInput \<Rightarrow> abort \<Rightarrow> bool" where
  "load_abort elf e \<longleftrightarrow> e \<in> load_aborts \<or>
     e = OutOfBounds \<and> (\<exists>buf i seg. elf_buf elf = Some buf \<and> load_seg elf i seg \<and> cut_off buf seg)"

lemma load_abortI: "aborts_in load_aborts r \<Longrightarrow> r = Inl e \<Longrightarrow> load_abort elf e"
  by (simp add: aborts_in_def load_abort_def)

lemma load_segments_aborts:
  assumes mm: "mmap_contract mm" and buf: "elf_buf elf = Some buf"
  shows "loader_inv mm n l pm \<Longrightarrow> n + k * fuel \<le> 2 ^ 44 \<Longrightarrow>
    load_segments fuel mm elf buf i k l pm = Some (Inl e) \<Longrightarrow> load_abort elf e"
proof (induction k arbitrary: i n l pm)
  case (Suc k)
  show ?case
  proof (cases "elf_phdr elf i")
    case None
    then show ?thesis using Suc.prems(3) by (simp add: load_abort_def load_aborts_def)
  next
    case seg: (Some seg)
    show ?thesis
    proof (cases "p_type seg = PT_LOAD")
      case False
      then show ?thesis using Suc.IH [OF Suc.prems(1)] Suc.prems seg by simp
    next
      case True
      let ?map = "map_segment fuel mm (page_base (p_vaddr seg)) (p_vaddr seg + p_memsz seg) l pm"
      have n: "n + fuel \<le> 2 ^ 44" "n + fuel + k * fuel \<le> 2 ^ 44" using Suc.prems(2) by simp_all
      from Suc.prems(3) seg True consider (map) "?map = Some (Inl e)"
        | (load) l1 pm1 where "?map = Some (Inr (OK, l1, pm1))" "load_segment buf seg 0 l1 pm1 = Inl e"
        | (rest) l1 pm1 pm2 where "?map = Some (Inr (OK, l1, pm1))" "load_segment buf seg 0 l1 pm1 = Inr pm2"
            "load_segments fuel mm elf buf (Suc i) k l1 pm2 = Some (Inl e)"
        by (auto simp: Let_def split: option.splits sum.splits if_splits)
      then show ?thesis
      proof cases
        case map
        then show ?thesis using map_segment_aborts [OF mm Suc.prems(1) n(1)] load_abortI by blast
      next
        case load
        then show ?thesis using load_segment_aborts [OF load(2)] seg True buf
          by (auto simp: load_abort_def load_aborts_def load_seg_def)
      next
        case rest
        have "loader_inv mm (n + fuel) l1 pm1" using map_segment_inv [OF mm Suc.prems(1) n(1) rest(1)] .
        then have "loader_inv mm (n + fuel) l1 pm2" using load_segment_inv [OF n(1) _ rest(2)] by blast
        from Suc.IH [OF this n(2) rest(3)] show ?thesis .
      qed
    qed
  qed
qed simp

lemma loadElf_aborts:
  assumes mm: "mmap_contract mm" and inv: "loader_inv mm n l pm" and n: "n + 2 ^ 16 * fuel \<le> 2 ^ 44"
    and load: "loadElf fuel mm elf l pm = Some (Inl e)"
  shows "load_abort elf e"
proof -
  have assert: "load_abort elf AssertFailed" by (simp add: load_abort_def load_aborts_def)
  from load consider "e = AssertFailed" | buf phnum where "elf_buf elf = Some buf"
      "load_segments fuel mm elf buf 0 (unat (phnum :: 16 word)) l pm = Some (Inl e)"
    by (auto simp: loadElf_def split: option.splits if_splits sum.splits prod.splits)
  then show ?thesis
  proof cases
    case 2
    have "unat phnum < 2 ^ LENGTH(16)" by (rule unsigned_less)
    then have "unat phnum * fuel \<le> 2 ^ 16 * fuel" by (intro mult_le_mono1) simp
    then have "n + unat phnum * fuel \<le> 2 ^ 44" using n by linarith
    from load_segments_aborts [OF mm 2(1) inv this 2(2)] show ?thesis .
  qed (simp add: assert)
qed

end
