(* ===== verification/SimApp.thy ===== *)
theory SimApp
  imports SimIsa LoadAborts
begin

text \<open>
  \<^verbatim>\<open>sim_app/src/sim_app.cpp\<close>: the program's \<open>main\<close>, which builds a simulator, loads a file and runs
  it. What it prints is part of the result. \<open>log_enable\<close> tells
  whether \<^verbatim>\<open>SIM_LOG_ENABLE\<close> is defined, \<open>load_fuel\<close> and
  \<open>run_fuel\<close> bound the two loops that may not end.
\<close>

section \<open>Model\<close>

text \<open>\<open>main\<close> up to the call of \<open>simulate\<close>: the simulator and the start address.\<close>

definition app_setup :: "nat \<Rightarrow> bool \<Rightarrow> mmap_fn \<Rightarrow> ElfInput \<Rightarrow> (VirtAddr \<times> Simulator) res option" where
  "app_setup load_fuel log_enable mm elf =
     (case bindR (Simulator_new mm (if log_enable then Some [] else None)) (\<lambda>sim.
           bindR (ElfLoader_new mm (m_phys_memory sim)) (\<lambda>(loader, pm).
           bindR (mapStack mm loader pm) (\<lambda>((stack_map_status, start_sp), loader, pm).
           bindR (SIM_ASSERT (stack_map_status = OK)) (\<lambda>_.
           let sim = sim\<lparr>m_phys_memory := pm\<rparr> in
           bindR (GPRFile_write SP start_sp (m_gpr_file (m_hart sim))) (\<lambda>g.
           Inr (loader, sim\<lparr>m_hart := (m_hart sim)\<lparr>m_gpr_file := g\<rparr>\<rparr>)))))) of
        Inl e \<Rightarrow> Some (Inl e)
      | Inr (loader, sim) \<Rightarrow>
          (case loadElf load_fuel mm elf loader (m_phys_memory sim) of
             None \<Rightarrow> None
           | Some (Inl e) \<Rightarrow> Some (Inl e)
           | Some (Inr ((load_elf_status, start_pc), loader, pm)) \<Rightarrow>
               Some (bindR (SIM_ASSERT (load_elf_status = OK)) (\<lambda>_.
                 let sim = sim\<lparr>m_phys_memory := pm\<rparr>;
                     satp64 = SATP64_setMODE SV39 \<lparr>m_mode = BARE, m_asid = 0, m_ppn = 0\<rparr>;
                     hart = m_hart sim
                 in Inr (start_pc, sim\<lparr>m_hart := hart\<lparr>m_csr_file := CSRFile_set_satp satp64 (m_csr_file hart)\<rparr>\<rparr>)))))"

text \<open>
  What is printed after the run: the instruction count, the registers as 16 hexadecimal digits each, and
  the outcome. The stream is decimal at first and after the dump.
\<close>

fun dump_regs :: "nat list \<Rightarrow> GPRFile \<Rightarrow> string res" where
  "dump_regs [] gpr_file = Inr []"
| "dump_regs (i # is) gpr_file =
     bindR (GPRFile_read i gpr_file) (\<lambda>val :: 64 word.
     bindR (dump_regs is gpr_file) (\<lambda>rest.
     Inr (''['' @ setw 2 (dec_nat i) @ '']'' @ '' = '' @ ''0x'' @ setw 16 (hex_text val) @ endl @ rest)))"

definition dump_gpr_file :: "GPRFile \<Rightarrow> string res" where
  "dump_gpr_file gpr_file = dump_regs [0..<GPR_NUMBER] gpr_file"

definition app_report :: "SimStatus \<Rightarrow> Simulator \<Rightarrow> string res" where
  "app_report status sim =
     bindR (dump_gpr_file (m_gpr_file (m_hart sim))) (\<lambda>dump.
     Inr (''icount = '' @ dec_nat (unat (m_icount sim)) @ endl @ ''GPRs:'' @ endl @ dump @
       (if status = OK then ''Success'' @ endl else ''Error: '' @ dec_nat (unat (to_underlying status)) @ endl)))"

text \<open>The exit code, the output and the final state.\<close>

definition sim_app_main :: "nat \<Rightarrow> nat \<Rightarrow> bool \<Rightarrow> mmap_fn \<Rightarrow> nat \<Rightarrow> ElfInput \<Rightarrow> (int \<times> string \<times> Simulator) res option" where
  "sim_app_main load_fuel run_fuel log_enable mm argc elf =
     (if argc \<noteq> 2 then Some (Inl AssertFailed)
      else
        (case app_setup load_fuel log_enable mm elf of
           None \<Rightarrow> None
         | Some (Inl e) \<Rightarrow> Some (Inl e)
         | Some (Inr (start_pc, sim)) \<Rightarrow>
             (case simulate run_fuel start_pc sim of
                None \<Rightarrow> None
              | Some (Inl e) \<Rightarrow> Some (Inl e)
              | Some (Inr (status, sim)) \<Rightarrow>
                  Some (bindR (app_report status sim) (\<lambda>out. Inr (if status = OK then 0 else - 1, out, sim))))))"

text \<open>The output as a function of the outcome: the registers exist, so printing them does not fail.\<close>

fun report_regs :: "nat list \<Rightarrow> RegValue list \<Rightarrow> string" where
  "report_regs [] regs = []"
| "report_regs (i # is) regs =
     ''['' @ setw 2 (dec_nat i) @ '']'' @ '' = '' @ ''0x'' @ setw 16 (hex_text (regs ! i)) @ endl @ report_regs is regs"

definition report :: "SimStatus \<Rightarrow> 64 word \<Rightarrow> RegValue list \<Rightarrow> string" where
  "report status icount regs =
     ''icount = '' @ dec_nat (unat icount) @ endl @ ''GPRs:'' @ endl @ report_regs [0..<32] regs @
       (if status = OK then ''Success'' @ endl else ''Error: '' @ dec_nat (unat (to_underlying status)) @ endl)"

lemma dump_regs_ok: "list_all (\<lambda>i. i < 32) is \<Longrightarrow> dump_regs is g = Inr (report_regs is (m_gpr g))"
  by (induction "is") (simp_all add: GPRFile_read_ok GPR_NUMBER_def)

lemma app_report_ok: "app_report status sim = Inr (report status (m_icount sim) (m_gpr (m_gpr_file (m_hart sim))))"
proof -
  have "list_all (\<lambda>i. i < 32) [0..<32 :: nat]" by (simp add: list_all_iff)
  from dump_regs_ok [OF this] show ?thesis by (simp add: app_report_def report_def dump_gpr_file_def GPR_NUMBER_def)
qed

section \<open>Starting states\<close>

lemma fresh_inv:
  assumes "gpr_inv (m_gpr_file (m_hart sim))" and "pm_ok (m_phys_memory sim)"
    and "m_read_tlb sim = TLB_new 7" "m_write_tlb sim = TLB_new 7" "m_fetch_tlb sim = TLB_new 7"
    and "m_bb_cache sim = BbCache_new 7"
    and "tables_protected (m_mstatus64 (m_csr_file (m_hart sim))) (m_satp64 (m_csr_file (m_hart sim))) (contents_of sim)"
  shows "sim_inv sim"
  using assms by (simp add: sim_inv_def tlb_sound_new)

lemma Simulator_new_fields:
  assumes "Simulator_new mm log = Inr sim"
  shows "PhysMemory_new mm = Inr (m_phys_memory sim)" "m_hart sim = Hart_new"
    "m_read_tlb sim = TLB_new 7" "m_write_tlb sim = TLB_new 7" "m_fetch_tlb sim = TLB_new 7"
    "m_bb_cache sim = BbCache_new 7" "m_log sim = log"
  using assms by (auto simp: Simulator_new_def res_simps TLB_SIZE_LOG_2_def BB_CACHE_SIZE_LOG_2_def)

text \<open>
  A new simulator satisfies the invariant, and it still does after any RAM pages were added
  and any values were written to its physical memory.
\<close>

theorem new_simulator_inv:
  assumes "Simulator_new mm log = Inr sim" and "pm_inv mm pm"
  shows "sim_inv sim \<and> sim_inv (sim\<lparr>m_phys_memory := pm\<rparr>)"
proof -
  note f = Simulator_new_fields [OF assms(1)]
  have "pm_ok (m_phys_memory sim)" using PhysMemory_new_inv [OF f(1)] pm_inv_ok by blast
  then show ?thesis
    using f pm_inv_ok [OF assms(2)]
    by (auto intro!: fresh_inv simp: Hart_new_def CSRFile_init_def tables_protected_def)
qed

text \<open>What the steps of \<open>main\<close> return when it gets as far as \<open>simulate\<close>.\<close>

lemma app_setup_steps:
  assumes "app_setup load_fuel log_enable mm elf = Some (Inr (start_pc, sim))"
  obtains sim0 l0 pm0 top l1 pm1 g l2 pm2 where
    "Simulator_new mm (if log_enable then Some [] else None) = Inr sim0" "ElfLoader_new mm (m_phys_memory sim0) = Inr (l0, pm0)"
    "mapStack mm l0 pm0 = Inr ((OK, top), l1, pm1)" "GPRFile_write SP top (m_gpr_file (m_hart sim0)) = Inr g"
    "loadElf load_fuel mm elf l1 pm1 = Some (Inr ((OK, start_pc), l2, pm2))"
    "sim = sim0\<lparr>m_hart := (m_hart sim0)\<lparr>m_gpr_file := g,
        m_csr_file := CSRFile_set_satp (SATP64_setMODE SV39 \<lparr>m_mode = BARE, m_asid = 0, m_ppn = 0\<rparr>) (m_csr_file (m_hart sim0))\<rparr>,
        m_phys_memory := pm2\<rparr>"
  using assms
  by (auto simp: app_setup_def Let_def res_simps split: sum.splits option.splits prod.splits)

text \<open>The loader after the stack is mapped: at most \<open>4112\<close> pages are handed out.\<close>

lemma stack_loader_inv:
  assumes mm: "mmap_contract mm" and new: "Simulator_new mm log = Inr sim0"
    and loader: "ElfLoader_new mm (m_phys_memory sim0) = Inr (l0, pm0)"
  shows "loader_inv mm 16 l0 pm0" and "unat (m_stack_size l0) = 4096"
    and "mapStack mm l0 pm0 = Inr (r, l1, pm1) \<Longrightarrow> loader_inv mm 4112 l1 pm1"
proof -
  show inv: "loader_inv mm 16 l0 pm0"
    using ElfLoader_new_inv [OF mm conjunct1 [OF PhysMemory_new_inv [OF Simulator_new_fields(1) [OF new]]] loader] .
  show size: "unat (m_stack_size l0) = 4096"
    using loader by (auto simp: ElfLoader_new_def Let_def res_simps DEFAULT_STACK_SIZE_def)
  show "loader_inv mm 4112 l1 pm1" if "mapStack mm l0 pm0 = Inr (r, l1, pm1)"
    using mapStack_inv [OF mm inv _ that] size by simp
qed

lemma app_setup_inv:
  assumes mm: "mmap_contract mm" and fuel: "load_fuel \<le> 2 ^ 27"
    and start: "app_setup load_fuel log_enable mm elf = Some (Inr (start_pc, sim))"
  shows "sim_inv sim"
proof -
  from start obtain sim0 l0 pm0 top l1 pm1 g l2 pm2 where
    new: "Simulator_new mm (if log_enable then Some [] else None) = Inr sim0" and loader: "ElfLoader_new mm (m_phys_memory sim0) = Inr (l0, pm0)"
    and stack: "mapStack mm l0 pm0 = Inr ((OK, top), l1, pm1)"
    and g: "GPRFile_write SP top (m_gpr_file (m_hart sim0)) = Inr g"
    and load: "loadElf load_fuel mm elf l1 pm1 = Some (Inr ((OK, start_pc), l2, pm2))"
    and sim: "sim = sim0\<lparr>m_hart := (m_hart sim0)\<lparr>m_gpr_file := g,
        m_csr_file := CSRFile_set_satp (SATP64_setMODE SV39 \<lparr>m_mode = BARE, m_asid = 0, m_ppn = 0\<rparr>) (m_csr_file (m_hart sim0))\<rparr>,
        m_phys_memory := pm2\<rparr>"
    by (rule app_setup_steps)
  note f = Simulator_new_fields [OF new]
  have "loader_inv mm 4112 l1 pm1" using stack_loader_inv(3) [OF mm new loader stack] .
  from loadElf_inv [OF mm this _ load] fuel have inv: "loader_inv mm (4112 + 2 ^ 16 * load_fuel) l2 pm2" by simp
  then obtain lv where lv: "mapper_ok (m_mapper l2) lv (pm_contents pm2)" by (auto simp: loader_inv_def)
  let ?satp = "m_satp64 (m_csr_file (m_hart sim))"
  have "mapper_satp (m_mapper l2) ?satp"
    using inv by (simp add: mapper_satp_def loader_inv_def sim CSRFile_set_satp_def SATP64_setMODE_def)
  from mapper_ok_protected [OF lv this] have "tables_protected (m_mstatus64 (m_csr_file (m_hart sim))) ?satp (contents_of sim)"
    by (simp add: sim)
  moreover have "gpr_inv g" using gpr.wr_inv [OF _ g] f(2) by (simp add: Hart_new_def)
  moreover have "pm_ok pm2" using inv pm_inv_ok by (auto simp: loader_inv_def)
  ultimately show ?thesis using f by (intro fresh_inv) (simp_all add: sim)
qed

text \<open>How \<open>main\<close> ends before it calls \<open>simulate\<close>, if it does.\<close>

lemma app_setup_aborts:
  assumes mm: "mmap_contract mm" and fuel: "load_fuel \<le> 2 ^ 27"
    and start: "app_setup load_fuel log_enable mm elf = Some (Inl e)"
  shows "load_abort elf e"
proof (cases "Simulator_new mm (if log_enable then Some [] else None)")
  case (Inl e')
  then have "load_abort elf e'" by (rule load_abortI [OF aborts_Simulator_new])
  then show ?thesis using Inl start by (simp add: app_setup_def)
next
  case new: (Inr sim0)
  show ?thesis
  proof (cases "ElfLoader_new mm (m_phys_memory sim0)")
    case (Inl e')
    then have "load_abort elf e'" by (rule load_abortI [OF aborts_ElfLoader_new])
    then show ?thesis using Inl start new by (simp add: app_setup_def)
  next
    case (Inr lp)
    then obtain l0 pm0 where loader: "ElfLoader_new mm (m_phys_memory sim0) = Inr (l0, pm0)" by (cases lp) auto
    note inv = stack_loader_inv [OF mm new loader]
    show ?thesis
    proof (cases "mapStack mm l0 pm0")
      case (Inl e')
      have "aborts_in load_aborts (mapStack mm l0 pm0)" using mapStack_aborts [OF mm inv(1)] inv(2) by simp
      then have "load_abort elf e'" using Inl by (rule load_abortI)
      then show ?thesis using Inl start new loader by (simp add: app_setup_def)
    next
      case (Inr slp)
      then obtain st top l1 pm1 where stack: "mapStack mm l0 pm0 = Inr ((st, top), l1, pm1)" by (cases slp) auto
      note inv1 = inv(3) [OF stack]
      have "\<exists>g. GPRFile_write SP top (m_gpr_file (m_hart sim0)) = Inr g" by (simp add: GPRFile_write_ok SP_def GPR_NUMBER_def)
      then obtain g where "GPRFile_write SP top (m_gpr_file (m_hart sim0)) = Inr g" ..
      with start new loader stack consider "e = AssertFailed" | "loadElf load_fuel mm elf l1 pm1 = Some (Inl e)"
        by (auto simp: app_setup_def Let_def SIM_ASSERT_def split: option.splits sum.splits if_splits)
      then show ?thesis
      proof cases
        case 1
        then show ?thesis by (simp add: load_abort_def load_aborts_def)
      next
        case 2
        from loadElf_aborts [OF mm inv1 _ 2] fuel show ?thesis by simp
      qed
    qed
  qed
qed

text \<open>
  C31: how any run of the program can end, whatever the command line and the file. If the process stops before
  \<open>main\<close> returns, then by one of the mistakes of the instruction handlers, a failed assertion or memory that the
  system refuses, or by a copy past the end of the file's buffer, and the last only for a file with a
  loadable segment that reaches beyond its end; never by another out-of-bounds access, an unknown
  enumeration value or code marked as unreachable. Where \<open>main\<close> returns, there was one argument, the simulator
  is in a state of the invariant, and the exit code and the report are those of its status and
  registers. The bound allows \<open>2 ^ 27\<close> pages per segment (half a terabyte); \<open>None\<close>, a program that has not ended within
  \<open>run_fuel\<close> rounds, is not claimed about.
\<close>

theorem sim_app_main_inv:
  assumes mm: "mmap_contract mm" and fuel: "load_fuel \<le> 2 ^ 27"
    and run: "sim_app_main load_fuel run_fuel log_enable mm argc elf = Some r"
  shows "case r of
      Inl e \<Rightarrow> e \<in> {NullDeref, NullCall, ShiftUB, SignedOverflow, AssertFailed, BadAlloc} \<or>
        e = OutOfBounds \<and> (\<exists>buf i seg. elf_buf elf = Some buf \<and> load_seg elf i seg \<and>
          length buf < unat (p_offset seg) + unat (p_filesz seg))
    | Inr (code, out, sim') \<Rightarrow> argc = 2 \<and> sim_inv sim' \<and>
        (\<exists>st. st \<noteq> SIM_EXIT \<and> code = (if st = OK then 0 else - 1) \<and>
           out = report st (m_icount sim') (m_gpr (m_gpr_file (m_hart sim'))))"
proof (cases "argc = 2")
  case False
  then show ?thesis using run by (auto simp: sim_app_main_def)
next
  case argc: True
  show ?thesis
  proof (cases "app_setup load_fuel log_enable mm elf")
    case None
    then show ?thesis using run argc by (simp add: sim_app_main_def)
  next
    case (Some start)
    show ?thesis
    proof (cases start)
      case (Inl e)
      then have "r = Inl e" using run argc Some by (simp add: sim_app_main_def)
      moreover have "load_abort elf e" using app_setup_aborts [OF mm fuel] Some Inl by blast
      ultimately show ?thesis unfolding load_abort_def load_aborts_def cut_off_def by auto
    next
      case (Inr pc_sim)
      obtain start_pc sim where pc_sim: "pc_sim = (start_pc, sim)" by (cases pc_sim)
      then have inv: "sim_inv sim" using app_setup_inv [OF mm fuel, of log_enable elf start_pc sim] Some Inr by simp
      obtain r' where r': "simulate run_fuel start_pc sim = Some r'"
        and r: "r = (case r' of Inl e \<Rightarrow> Inl e | Inr (st, sim') \<Rightarrow>
            Inr (if st = OK then 0 else - 1, report st (m_icount sim') (m_gpr (m_gpr_file (m_hart sim'))), sim'))"
        using run Some Inr pc_sim argc by (auto simp: sim_app_main_def app_report_ok split: option.splits sum.splits)
      have "aborts_in program_aborts r' \<and> (\<forall>st sim'. r' = Inr (st, sim') \<longrightarrow> sim_inv sim' \<and> st \<noteq> SIM_EXIT)"
        using sim_loop_inv [OF start_inv [OF inv] r' [unfolded simulate_def]] .
      then show ?thesis using argc r by (auto simp: aborts_in_def program_aborts_def split: sum.splits)
    qed
  qed
qed

end
