(* ===== verification/DemoMachine.thy ===== *)
theory DemoMachine
  imports SimApp
begin

text \<open>
  Concrete inputs for the properties that have hypotheses: a host that hands out numbered memory
  blocks, a memory with page tables and one mapped page, and simulators on it. All of them are values
  of the model's own operations.
\<close>

section \<open>Concrete machines\<close>

text \<open>A host whose \<open>mmap\<close> always succeeds, with a new block each time.\<close>

definition demo_mm :: mmap_fn where
  "demo_mm n len = (if len = 0 then None else Some n)"

lemma demo_mm_contract: "mmap_contract demo_mm"
  by (auto simp: mmap_contract_def demo_mm_def split: if_splits)

lemma Inr_projr: "\<not> isl r \<Longrightarrow> r = Inr (projr r)"
  by (cases r) simp_all

lemma Inr_projr_2: "\<not> isl r \<Longrightarrow> fst (projr r) = a \<Longrightarrow> r = Inr (a, snd (projr r))"
  by (cases r) auto

lemma Inr_projr_3: "\<not> isl r \<Longrightarrow> fst (projr r) = a \<Longrightarrow> r = Inr (a, fst (snd (projr r)), snd (snd (projr r)))"
  by (cases r) auto

definition demo_pm :: PhysMemory where
  "demo_pm = projr (PhysMemory_new demo_mm)"

definition demo_tables :: "SimpleMemoryMapper \<times> PhysMemory" where
  "demo_tables = projr (SimpleMemoryMapper_new demo_mm SV39 0 3 demo_pm)"

definition demo_page :: "bool \<times> PhysMemory" where
  "demo_page = projr (addRAMPage demo_mm 0x100000 (snd demo_tables))"

definition demo_mapped :: "SimStatus \<times> SimpleMemoryMapper \<times> PhysMemory" where
  "demo_mapped = projr (mapper_map (MemoryMapping_new 0x1E 0x12345 0x100) (fst demo_tables) (snd demo_page))"

definition demo_again :: "SimStatus \<times> SimpleMemoryMapper \<times> PhysMemory" where
  "demo_again = projr (mapper_map (MemoryMapping_new 0x1E 0x12346 0x101) (fst (snd demo_mapped)) (snd (snd demo_mapped)))"

definition demo_satp :: SATP64 where "demo_satp = \<lparr>m_mode = SV39, m_asid = 0, m_ppn = 0\<rparr>"

definition demo_ms :: MSTATUS64 where "demo_ms = \<lparr>m_sum = 0, m_mxr = 0\<rparr>"

definition demo_sim0 :: Simulator where
  "demo_sim0 = projr (Simulator_new demo_mm None)"

text \<open>A simulator with the page tables, at the first address of the mapped page, with a pointer to it in \<open>x5\<close>.\<close>

definition demo_sim :: Simulator where
  "demo_sim = demo_sim0\<lparr>m_phys_memory := snd (snd demo_mapped),
     m_hart := (m_hart demo_sim0)\<lparr>m_pc := 0x12345000, m_gpr_file := \<lparr>m_gpr = (replicate 32 0)[5 := 0x12345010, 6 := 0x77]\<rparr>,
       m_csr_file := (m_csr_file (m_hart demo_sim0))\<lparr>m_satp64 := demo_satp\<rparr>\<rparr>\<rparr>"

lemma demo_pm_new: "PhysMemory_new demo_mm = Inr demo_pm"
  unfolding demo_pm_def by (rule Inr_projr) code_simp

lemma demo_sim0_new: "Simulator_new demo_mm None = Inr demo_sim0"
  unfolding demo_sim0_def by (rule Inr_projr) code_simp

lemma demo_tables_new: "SimpleMemoryMapper_new demo_mm SV39 0 3 demo_pm = Inr (fst demo_tables, snd demo_tables)"
  unfolding demo_tables_def by (rule Inr_projr_2 [OF _ refl]) code_simp

lemma demo_page_new: "addRAMPage demo_mm 0x100000 (snd demo_tables) = Inr (True, snd demo_page)"
  unfolding demo_page_def by (rule Inr_projr_2) code_simp+

lemma demo_mapped_new:
  "mapper_map (MemoryMapping_new 0x1E 0x12345 0x100) (fst demo_tables) (snd demo_page) =
     Inr (OK, fst (snd demo_mapped), snd (snd demo_mapped))"
  unfolding demo_mapped_def by (rule Inr_projr_3) code_simp+

lemma demo_again_new:
  "mapper_map (MemoryMapping_new 0x1E 0x12346 0x101) (fst (snd demo_mapped)) (snd (snd demo_mapped)) =
     Inr (OK, fst (snd demo_again), snd (snd demo_again))"
  unfolding demo_again_def by (rule Inr_projr_3) code_simp+

lemma demo_pm_inv: "pm_inv demo_mm demo_pm"
  using PhysMemory_new_inv [OF demo_pm_new] by simp

lemma demo_tables_ok:
  "pm_inv demo_mm (snd demo_tables)" "mapper_ok (fst demo_tables) (\<lambda>_. 2) (pm_contents (snd demo_tables))"
  "fst demo_tables = \<lparr>sm_mode = SV39, sm_table_region_begin = 0, sm_curr_table = 1, sm_table_region_end = 3\<rparr>"
proof -
  have "(3 :: 64 word) \<le> 2 ^ 44" by simp
  note new = SimpleMemoryMapper_new_ok [OF demo_mm_contract demo_pm_inv _ this demo_tables_new]
  show "pm_inv demo_mm (snd demo_tables)" using new by blast
  have "mapper_ok (fst demo_tables) (\<lambda>_. mode_levels SV39 - 1) (pm_contents (snd demo_tables))" using new by blast
  then show "mapper_ok (fst demo_tables) (\<lambda>_. 2) (pm_contents (snd demo_tables))" by simp
  show "fst demo_tables = \<lparr>sm_mode = SV39, sm_table_region_begin = 0, sm_curr_table = 1, sm_table_region_end = 3\<rparr>"
    using new by auto
qed

lemma demo_page_ok: "pm_inv demo_mm (snd demo_page)" "mapper_ok (fst demo_tables) (\<lambda>_. 2) (pm_contents (snd demo_page))"
  using addRAMPage_spec [OF demo_mm_contract demo_tables_ok(1) demo_page_new]
    addRAMPage_mapper_ok [OF demo_mm_contract demo_tables_ok(1,2) demo_page_new] by simp_all

lemma demo_mapped_ok:
  "pm_inv demo_mm (snd (snd demo_mapped))" "\<exists>lv. mapper_ok (fst (snd demo_mapped)) lv (pm_contents (snd (snd demo_mapped)))"
  "mapper_satp (fst (snd demo_mapped)) demo_satp"
proof -
  have "mp_ppn (MemoryMapping_new 0x1E 0x12345 0x100) < 2 ^ 44" by (simp add: MemoryMapping_new_def)
  note spec = mapper_map_spec [OF demo_page_ok(2) pm_inv_ok [OF demo_page_ok(1)] this]
  have "\<not> in_region (fst demo_tables) (mp_ppn (MemoryMapping_new 0x1E 0x12345 0x100))"
    by (simp add: MemoryMapping_new_def in_region_def demo_tables_ok(3))
  with spec demo_mapped_new have
    "map_frame (fst demo_tables) (snd demo_page) (fst (snd demo_mapped)) (snd (snd demo_mapped))"
    "\<exists>lv. mapper_ok (fst (snd demo_mapped)) lv (pm_contents (snd (snd demo_mapped)))"
    by (auto simp: map_post_def)
  with demo_page_ok(1) show "pm_inv demo_mm (snd (snd demo_mapped))"
    "\<exists>lv. mapper_ok (fst (snd demo_mapped)) lv (pm_contents (snd (snd demo_mapped)))"
    "mapper_satp (fst (snd demo_mapped)) demo_satp"
    by (auto simp: map_frame_def mapper_satp_def demo_tables_ok(3) demo_satp_def)
qed

lemma demo_sim_inv: "sim_inv demo_sim"
proof -
  note f = Simulator_new_fields [OF demo_sim0_new]
  obtain lv where lv: "mapper_ok (fst (snd demo_mapped)) lv (pm_contents (snd (snd demo_mapped)))"
    using demo_mapped_ok(2) by blast
  have "tables_protected ms demo_satp (pm_contents (snd (snd demo_mapped)))" for ms
    using mapper_ok_protected [OF lv demo_mapped_ok(3)] .
  moreover have "gpr_inv \<lparr>m_gpr = (replicate 32 0)[5 := 0x12345010, 6 := 0x77]\<rparr>"
    by (simp add: gpr_inv_def GPR_NUMBER_def ZERO_def)
  ultimately show ?thesis
    using f pm_inv_ok [OF demo_mapped_ok(1)] by (intro fresh_inv) (simp_all add: demo_sim_def)
qed

text \<open>The page tables translate the address in \<open>x5\<close>, for every kind of access.\<close>

lemma demo_translate:
  "translate USER acc 0x12345010 demo_ms demo_satp (snd (snd demo_mapped)) = Inr \<lparr>mmu_status = OK, phys_addr = 0x100010\<rparr>"
  by (induction acc) code_simp+

lemma demo_contents: "pm_contents (snd (snd demo_mapped)) 0x100010 \<noteq> None"
  by code_simp

end
