(* ===== verification/IsaMachine.thy ===== *)
theory IsaMachine
  imports SimIsa
begin

text \<open>
  The machine that the simulator promises to simulate: one instruction at a time, fetched from memory and
  decoded afresh, on program counter, registers, CSRs and memory bytes, without TLBs and without
  cached blocks. It keeps a log too: a line for each instruction, followed by lines for what it writes. The steps in which the simulator is known to fail (null pointers, undefined
  operators, see \<open>SimIsa\<close>) are undefined here, and so are stores to the pages of a set \<open>X\<close> and
  fetches from outside of it: cached blocks are never invalidated, so the simulator promises nothing
  to code that changes itself.
\<close>

section \<open>States and steps\<close>

record Arch =
  a_pc :: VirtAddr
  a_regs :: "RegValue list"
  a_csr :: CSRFile
  a_mem :: "64 word \<rightharpoonup> byte"
  a_icount :: "64 word"
  a_log :: "LogLine list option"

datatype isa_out = Goes Arch | Stops SimStatus Arch | Undef

definition a_translate :: "AccessType \<Rightarrow> VirtAddr \<Rightarrow> Arch \<Rightarrow> MMU64_Result res" where
  "a_translate acc va a = translate_c USER acc va (m_mstatus64 (a_csr a)) (m_satp64 (a_csr a)) (a_mem a)"

definition advance :: "VirtAddr \<Rightarrow> Arch \<Rightarrow> Arch" where
  "advance pc a = a\<lparr>a_pc := pc, a_icount := a_icount a + 1\<rparr>"

definition a_emit :: "LogLine list \<Rightarrow> Arch \<Rightarrow> Arch" where
  "a_emit ls a = a\<lparr>a_log := map_option (\<lambda>log. log @ ls) (a_log a)\<rparr>"

definition a_set :: "8 word \<Rightarrow> 64 word \<Rightarrow> Arch \<Rightarrow> Arch" where
  "a_set r v a = a\<lparr>a_regs := (a_regs a)[unat r := v, 0 := 0]\<rparr>"

text \<open>Writing a register and branching, with their log lines.\<close>

definition a_put :: "8 word \<Rightarrow> 64 word \<Rightarrow> Arch \<Rightarrow> Arch" where
  "a_put r v a = a_emit [LogGpr (unat r) (a_regs (a_set r v a) ! unat r)] (a_set r v a)"

definition a_jump :: "VirtAddr \<Rightarrow> Arch \<Rightarrow> Arch" where
  "a_jump target a = a_emit [LogPc target] (advance target a)"

text \<open>A memory access of \<open>n\<close> bytes: what stops it, and what it does at the physical address.\<close>

definition isa_access :: "AccessType \<Rightarrow> nat \<Rightarrow> SimStatus \<Rightarrow> VirtAddr \<Rightarrow> Arch \<Rightarrow> (64 word \<Rightarrow> isa_out) \<Rightarrow> isa_out" where
  "isa_access acc n unaligned va a k =
     (if page_base va = POISON_VA then Undef
      else if uint va mod int n \<noteq> 0 then Stops unaligned a
      else
        (case a_translate acc va a of
           Inl _ \<Rightarrow> Undef
         | Inr r \<Rightarrow>
             if mmu_status r \<noteq> OK then Stops (mmu_status r) a
             else if a_mem a (phys_addr r) = None then Stops PHYS_MEM_ACCESS_FAULT a
             else k (phys_addr r)))"

definition isa_jump :: "VirtAddr \<Rightarrow> Instr \<Rightarrow> Arch \<Rightarrow> isa_out" where
  "isa_jump target instr a =
     (if target AND 3 \<noteq> 0 then Stops SIM_PC_ALIGN_ERROR a
      else Goes (a_jump target (a_put (m_rd instr) (a_pc a + 4) a)))"

definition isa_body :: "(64 word \<Rightarrow> bool) \<Rightarrow> Instr \<Rightarrow> Arch \<Rightarrow> isa_out" where
  "isa_body X instr a =
     (let mn = m_id instr; imm = m_imm instr; pc = a_pc a;
          rs1 = a_regs a ! unat (m_rs1 instr); rs2 = a_regs a ! unat (m_rs2 instr);
          va = rs1 + scast imm
      in case isa_alu mn pc rs1 rs2 imm of
           Some v \<Rightarrow>
             if alu_defined mn rs1 rs2 \<and> (mn = I_AUIPC \<longrightarrow> \<not> bit imm 31)
             then Goes (advance (pc + 4) (a_put (m_rd instr) v a)) else Undef
         | None \<Rightarrow>
      (case isa_load mn of
         Some (n, value) \<Rightarrow>
           isa_access READ n SIM_UNALIGNED_LOAD va a (\<lambda>pa.
             Goes (advance (pc + 4) (a_put (m_rd instr) (value (a_mem a) pa) a)))
       | None \<Rightarrow>
      (case isa_store mn of
         Some (n, put) \<Rightarrow>
           isa_access WRITE n SIM_UNALIGNED_STORE va a (\<lambda>pa.
             if X (page_base pa) then Undef
             else Goes (advance (pc + 4) (a_emit [LogMem va (take_bit (8 * n) rs2)] (a\<lparr>a_mem := put pa rs2 (a_mem a)\<rparr>))))
       | None \<Rightarrow>
      (case isa_branch mn of
         Some cmp \<Rightarrow>
           let target = (if cmp rs1 rs2 then pc + scast imm else pc + 4) in
           if cmp rs1 rs2 \<and> target AND 3 \<noteq> 0 then Stops SIM_PC_ALIGN_ERROR a else Goes (a_jump target a)
       | None \<Rightarrow>
         if mn = I_JAL then isa_jump (pc + scast imm) instr a
         else if mn = I_JALR then
           (if sint (rs1 + scast imm) = sint rs1 + sint imm then isa_jump (va AND NOT 1) instr a else Undef)
         else if mn = I_ECALL then Stops SIM_EXIT (advance (pc + 4) a)
         else Undef))))"

text \<open>The execution of an instruction, after its line in the log.\<close>

definition isa_exec :: "(64 word \<Rightarrow> bool) \<Rightarrow> Instr \<Rightarrow> Arch \<Rightarrow> isa_out" where
  "isa_exec X instr a = isa_body X instr (a_emit [LogInstr (a_pc a) (instr_name (m_id instr))] a)"

text \<open>Fetching: the status and the code at an address.\<close>

definition isa_fetch :: "VirtAddr \<Rightarrow> Arch \<Rightarrow> (SimStatus \<times> InstrCode) res" where
  "isa_fetch va a =
     (if va AND 3 \<noteq> 0 then Inr (SIM_UNALIGNED_LOAD, 0)
      else bindR (a_translate FETCH va a) (\<lambda>r.
        Inr (if mmu_status r \<noteq> OK then (mmu_status r, 0)
             else if a_mem a (phys_addr r) = None then (PHYS_MEM_ACCESS_FAULT, 0)
             else (OK, mem_word (a_mem a) (phys_addr r)))))"

definition code_at :: "(64 word \<Rightarrow> bool) \<Rightarrow> VirtAddr \<Rightarrow> Arch \<Rightarrow> bool" where
  "code_at X va a =
     (case a_translate FETCH va a of Inl _ \<Rightarrow> False | Inr r \<Rightarrow> mmu_status r = OK \<longrightarrow> X (page_base (phys_addr r)))"

text \<open>
  The simulator fetches ahead: no address of the block that may start at the program counter lies in
  the page that the TLBs mistreat or has an entry without accessed and dirty bits.
\<close>

definition window_ok :: "Arch \<Rightarrow> bool" where
  "window_ok a =
     list_all (\<lambda>j. let va = a_pc a + 4 * of_nat j in page_base va \<noteq> POISON_VA \<and> \<not> isl (a_translate FETCH va a)) [0..<15]"

definition isa_step :: "(64 word \<Rightarrow> bool) \<Rightarrow> Arch \<Rightarrow> isa_out" where
  "isa_step X a =
     (if \<not> window_ok a \<or> \<not> code_at X (a_pc a) a then Undef
      else
        (case isa_fetch (a_pc a) a of
           Inl _ \<Rightarrow> Undef
         | Inr (status, code) \<Rightarrow>
             if status \<noteq> OK then Stops status a
             else
               (case decode code of
                  Inl _ \<Rightarrow> Undef
                | Inr instr \<Rightarrow>
                    if m_id instr = SIM_STATUS_INSTR then Stops SIM_NOT_IMPLEMENTED_INSTR a
                    else isa_exec X instr a)))"

text \<open>A run of at most \<open>n\<close> steps that stops: the status and the last state.\<close>

fun isa_run :: "(64 word \<Rightarrow> bool) \<Rightarrow> nat \<Rightarrow> Arch \<Rightarrow> (SimStatus \<times> Arch) option" where
  "isa_run X 0 a = None"
| "isa_run X (Suc n) a =
     (case isa_step X a of
        Goes a' \<Rightarrow> isa_run X n a'
      | Stops status a' \<Rightarrow> Some (status, a')
      | Undef \<Rightarrow> None)"

section \<open>The simulator's handlers\<close>

text \<open>The state of the machine in a simulator.\<close>

definition arch :: "Simulator \<Rightarrow> Arch" where
  "arch sim = \<lparr>a_pc = pc_of sim, a_regs = m_gpr (m_gpr_file (m_hart sim)), a_csr = m_csr_file (m_hart sim),
               a_mem = contents_of sim, a_icount = m_icount sim, a_log = m_log sim\<rparr>"

lemma arch_simps [simp]:
  "a_pc (arch sim) = pc_of sim" "a_regs (arch sim) = m_gpr (m_gpr_file (m_hart sim))"
  "a_csr (arch sim) = m_csr_file (m_hart sim)" "a_mem (arch sim) = contents_of sim" "a_icount (arch sim) = m_icount sim"
  "a_log (arch sim) = m_log sim"
  "a_translate acc va (arch sim) = user_translate acc va sim"
  by (simp_all add: arch_def a_translate_def user_translate_def)

lemma arch_same: "same_arch sim sim' \<Longrightarrow> arch sim' = arch sim"
  by (simp add: same_arch_def arch_def)

lemma arch_incr [simp]: "arch (incr_to pc sim) = advance pc (arch sim)"
  by (simp add: arch_def incr_to_def advance_def)

lemma arch_set_reg [simp]: "arch (set_reg r v sim) = a_set r v (arch sim)"
  by (simp add: arch_def set_reg_def a_set_def)

lemma arch_emit [simp]: "arch (emit ls sim) = a_emit ls (arch sim)"
  by (simp add: arch_def a_emit_def)

lemma reg_set_reg: "reg (set_reg r v sim) r' = a_regs (a_set r v (arch sim)) ! unat r'"
  by (simp add: set_reg_def a_set_def)

lemma arch_put_reg [simp]: "arch (put_reg r v sim) = a_put r v (arch sim)"
  by (simp add: put_reg_def a_put_def reg_set_reg)

lemma arch_jump_to [simp]: "arch (jump_to target sim) = a_jump target (arch sim)"
  by (simp add: jump_to_def a_jump_def logPcWrite_def)

lemma arch_logMemWrite [simp]: "arch (logMemWrite va v sim) = a_emit [LogMem va v] (arch sim)"
  by (simp add: logMemWrite_def)

lemma arch_traced: "arch (traced instr sim) = a_emit [LogInstr (pc_of sim) (instr_name (m_id instr))] (arch sim)"
  by (simp add: traced_def)

text \<open>What a step leaves alone: all translations, and the bytes of the pages in \<open>X\<close>.\<close>

definition xframe :: "(64 word \<Rightarrow> bool) \<Rightarrow> Arch \<Rightarrow> Arch \<Rightarrow> bool" where
  "xframe X a a' \<longleftrightarrow> (\<forall>acc va. a_translate acc va a' = a_translate acc va a) \<and>
     (\<forall>p. X (page_base p) \<longrightarrow> a_mem a' p = a_mem a p)"

lemma xframe_refl [simp]: "xframe X a a"
  by (simp add: xframe_def)

lemma xframe_trans: "xframe X a b \<Longrightarrow> xframe X b c \<Longrightarrow> xframe X a c"
  by (simp add: xframe_def)

lemma xframe_regs [simp]:
  "xframe X b (advance pc a) = xframe X b a" "xframe X b (a_set r v a) = xframe X b a"
  "xframe X b (a_emit ls a) = xframe X b a" "xframe X b (a_put r v a) = xframe X b a" "xframe X b (a_jump pc a) = xframe X b a"
  by (simp_all add: xframe_def advance_def a_set_def a_translate_def a_emit_def a_put_def a_jump_def)

text \<open>What the handler of an instruction returns for each outcome of the step.\<close>

definition sim_out :: "(64 word \<Rightarrow> bool) \<Rightarrow> Instr \<Rightarrow> Simulator \<Rightarrow> isa_out \<Rightarrow> bool" where
  "sim_out X instr sim out \<longleftrightarrow>
     (case out of
        Goes a' \<Rightarrow> \<exists>sim'. call instr sim = Inr (if isBranch (m_id instr) then Return OK else Next, sim') \<and>
                     arch sim' = a' \<and> xframe X (arch sim) a'
      | Stops s a' \<Rightarrow> s \<noteq> OK \<and> (\<exists>sim'. call instr sim = Inr (Return s, sim') \<and> arch sim' = a' \<and> xframe X (arch sim) a')
      | Undef \<Rightarrow> True)"

lemma sim_out_Undef [simp]: "sim_out X instr sim Undef"
  by (simp add: sim_out_def)

lemma uint_mod_0: "uint (va :: 64 word) mod int n = 0 \<longleftrightarrow> unat va mod n = 0"
  by (simp only: uint_nat zmod_int [symmetric] of_nat_eq_0_iff)

text \<open>Loads and stores: the simulator's specification of an access, seen from the machine.\<close>

lemma isa_access_load:
  assumes "va AND addrAlignMask TYPE('a::len) = 0 \<longleftrightarrow> unat va mod n = 0"
    and "isa_access READ n SIM_UNALIGNED_LOAD va (arch sim) k = out" and "out \<noteq> Undef"
  shows "page_base va \<noteq> POISON_VA \<and> (\<exists>st (v :: 'a word). load_ref READ va sim = Inr (st, v) \<and>
    (if st = OK then \<exists>pa. v = mem_word (contents_of sim) pa \<and> out = k pa else out = Stops st (arch sim)))"
proof -
  have page: "page_base va \<noteq> POISON_VA" using assms(2,3) by (auto simp: isa_access_def)
  show ?thesis
  proof (cases "unat va mod n = 0")
    case False
    then show ?thesis using page assms(1) assms(2) [symmetric] by (simp add: isa_access_def load_ref_def uint_mod_0)
  next
    case True
    with page assms(3) obtain r where r: "user_translate READ va sim = Inr r"
      using assms(2) [symmetric] by (auto simp: isa_access_def uint_mod_0 split: sum.splits)
    show ?thesis
      using page True r assms(1) assms(2) [symmetric]
      by (cases "mmu_status r = OK"; cases "contents_of sim (phys_addr r)") (auto simp: isa_access_def load_ref_def uint_mod_0)
  qed
qed

lemma isa_access_store:
  fixes v :: "'a::len word"
  assumes "va AND addrAlignMask TYPE('a) = 0 \<longleftrightarrow> unat va mod n = 0"
    and "isa_access WRITE n SIM_UNALIGNED_STORE va (arch sim) k = out" and "out \<noteq> Undef"
  shows "page_base va \<noteq> POISON_VA \<and> (\<exists>st c'. store_ref va v sim = Inr (st, c') \<and>
    (if st = OK then \<exists>r. user_translate WRITE va sim = Inr r \<and> mmu_status r = OK \<and> va AND addrAlignMask TYPE('a) = 0 \<and>
       c' = mem_put (phys_addr r) v (contents_of sim) \<and> out = k (phys_addr r)
     else c' = contents_of sim \<and> out = Stops st (arch sim)))"
proof -
  have page: "page_base va \<noteq> POISON_VA" using assms(2,3) by (auto simp: isa_access_def)
  show ?thesis
  proof (cases "unat va mod n = 0")
    case False
    then show ?thesis using page assms(1) assms(2) [symmetric] by (simp add: isa_access_def store_ref_def uint_mod_0)
  next
    case True
    with page assms(3) obtain r where r: "user_translate WRITE va sim = Inr r"
      using assms(2) [symmetric] by (auto simp: isa_access_def uint_mod_0 split: sum.splits)
    show ?thesis
      using page True r assms(1) assms(2) [symmetric]
      by (cases "mmu_status r = OK"; cases "contents_of sim (phys_addr r)") (auto simp: isa_access_def store_ref_def uint_mod_0)
  qed
qed

lemma xframe_traced [simp]: "xframe X b (arch (traced instr sim)) = xframe X b (arch sim)"
  by (simp add: arch_traced)

lemma load_refines:
  fixes ext :: "'a::len word \<Rightarrow> RegValue"
  assumes ty: "int_type TYPE('a)" and inv: "sim_inv sim" and ok: "instr_ok instr" and br: "\<not> isBranch (m_id instr)"
    and call: "call instr sim = next_if_OK (simLoadInstr ext instr (traced instr sim))"
    and al: "\<And>va. va AND addrAlignMask TYPE('a) = 0 \<longleftrightarrow> unat va mod n = 0"
  shows "sim_out X instr sim (isa_access READ n SIM_UNALIGNED_LOAD (eff_addr instr sim) (arch (traced instr sim)) (\<lambda>pa.
      Goes (advance (pc_of sim + 4) (a_put (m_rd instr) (ext (mem_word (contents_of sim) pa)) (arch (traced instr sim))))))"
    (is "sim_out X instr sim ?out")
proof (cases "?out = Undef")
  case False
  let ?sim = "traced instr sim"
  from isa_access_load [where 'a = 'a, OF al refl False] obtain st and v :: "'a word" where
    page: "page_base (eff_addr instr ?sim) \<noteq> POISON_VA" and ref: "load_ref READ (eff_addr instr ?sim) ?sim = Inr (st, v)"
    and out: "if st = OK then \<exists>pa. v = mem_word (contents_of sim) pa \<and>
        ?out = Goes (advance (pc_of sim + 4) (a_put (m_rd instr) (ext (mem_word (contents_of sim) pa)) (arch ?sim)))
      else ?out = Stops st (arch ?sim)" unfolding eff_addr_traced traced_simps by blast
  have "sim_inv ?sim" using inv by simp
  from simLoadInstr_ref [OF ty this ok page ref, of ext] obtain sim1 where "same_arch ?sim sim1"
    and res: "next_if_OK (simLoadInstr ext instr ?sim) = Inr (if st \<noteq> OK then (Return st, sim1)
         else (Next, incr_to (pc_of sim + 4) (put_reg (m_rd instr) (ext v) sim1)))" unfolding traced_simps by blast
  then show ?thesis using out arch_same [of ?sim sim1] call br by (auto simp: sim_out_def split: if_splits)
qed simp

lemma store_refines:
  assumes ty: "int_type TYPE('a::len)" and inv: "sim_inv sim" and ok: "instr_ok instr" and br: "\<not> isBranch (m_id instr)"
    and call: "call instr sim = next_if_OK (simStoreInstr TYPE('a) instr (traced instr sim))"
    and al: "\<And>va. va AND addrAlignMask TYPE('a) = 0 \<longleftrightarrow> unat va mod n = 0" and n: "LENGTH('a) = 8 * n"
  shows "sim_out X instr sim (isa_access WRITE n SIM_UNALIGNED_STORE (eff_addr instr sim) (arch (traced instr sim)) (\<lambda>pa.
      if X (page_base pa) then Undef
      else Goes (advance (pc_of sim + 4) (a_emit [LogMem (eff_addr instr sim) (take_bit (8 * n) (reg sim (m_rs2 instr)))]
        ((arch (traced instr sim))\<lparr>a_mem := mem_put pa (ucast (reg sim (m_rs2 instr)) :: 'a word) (contents_of sim)\<rparr>)))))"
    (is "sim_out X instr sim ?out")
proof (cases "?out = Undef")
  case False
  let ?v = "ucast (reg sim (m_rs2 instr)) :: 'a word" and ?sim = "traced instr sim"
  let ?goes = "\<lambda>c. Goes (advance (pc_of sim + 4) (a_emit [LogMem (eff_addr instr sim) (take_bit (8 * n) (reg sim (m_rs2 instr)))]
    ((arch ?sim)\<lparr>a_mem := c\<rparr>)))"
  from isa_access_store [where v = ?v, OF al refl False] obtain st c' where
    page: "page_base (eff_addr instr ?sim) \<noteq> POISON_VA" and ref: "store_ref (eff_addr instr ?sim) (ucast (reg ?sim (m_rs2 instr)) :: 'a word) ?sim = Inr (st, c')"
    and out: "if st = OK then \<exists>r. user_translate WRITE (eff_addr instr sim) sim = Inr r \<and> mmu_status r = OK \<and>
        eff_addr instr sim AND addrAlignMask TYPE('a) = 0 \<and> c' = mem_put (phys_addr r) ?v (contents_of sim) \<and>
        ?out = (if X (page_base (phys_addr r)) then Undef else ?goes (mem_put (phys_addr r) ?v (contents_of sim)))
      else c' = contents_of sim \<and> ?out = Stops st (arch ?sim)" unfolding eff_addr_traced traced_simps by blast
  have "sim_inv ?sim" using inv by simp
  from simStoreInstr_ref [OF ty this ok page ref] obtain sim1 where post: "store_post ?sim c' sim1"
    and res: "next_if_OK (simStoreInstr TYPE('a) instr ?sim) = Inr (if st \<noteq> OK then (Return st, sim1)
      else (Next, incr_to (pc_of sim + 4) (logMemWrite (eff_addr instr sim) (take_bit (8 * n) (reg sim (m_rs2 instr))) sim1)))"
    unfolding eff_addr_traced traced_simps n by blast
  have sim1: "arch sim1 = (arch ?sim)\<lparr>a_mem := c'\<rparr>"
    using post by (simp add: store_post_def same_regs_def arch_def)
  have tr: "a_translate acc va (arch sim1) = a_translate acc va (arch sim)" for acc va
    using post by (simp add: store_post_def)
  show ?thesis
  proof (cases "st = OK")
    case False
    with out have "arch sim1 = arch ?sim" "?out = Stops st (arch ?sim)" by (simp_all add: sim1)
    then show ?thesis using False call res by (auto simp: sim_out_def)
  next
    case True
    with out \<open>?out \<noteq> Undef\<close> obtain r where r: "user_translate WRITE (eff_addr instr sim) sim = Inr r" "mmu_status r = OK"
      "eff_addr instr sim AND addrAlignMask TYPE('a) = 0" "c' = mem_put (phys_addr r) ?v (contents_of sim)"
      "\<not> X (page_base (phys_addr r))" "?out = ?goes c'" by (auto split: if_splits)
    have inp: "in_page (phys_addr r) (LENGTH('a) div 8)" using translated_in_page [OF ty r(3,1,2)] .
    have "c' p = contents_of sim p" if "X (page_base p)" for p
      unfolding r(4) using that r(5) by (intro mem_put_other_page [OF inp]) auto
    then have "xframe X (arch sim) (arch sim1)" using tr by (simp add: xframe_def sim1)
    then show ?thesis
      unfolding r(6) sim_out_def isa_out.case using call res True br by (auto simp: sim1)
  qed
qed simp

text \<open>The groups of instructions.\<close>

lemma alu_refines:
  assumes ok: "instr_ok instr"
    and alu: "isa_alu (m_id instr) (pc_of sim) (reg sim (m_rs1 instr)) (reg sim (m_rs2 instr)) (m_imm instr) = Some v"
    and def: "alu_defined (m_id instr) (reg sim (m_rs1 instr)) (reg sim (m_rs2 instr))"
    and auipc: "m_id instr = I_AUIPC \<longrightarrow> \<not> bit (m_imm instr) 31"
  shows "sim_out X instr sim (Goes (advance (pc_of sim + 4) (a_put (m_rd instr) v (arch (traced instr sim)))))"
proof -
  have "call instr sim = Inr (Next, incr_to (pc_of sim + 4) (put_reg (m_rd instr) v (traced instr sim)))"
  proof (cases "m_id instr = I_AUIPC")
    case True
    then show ?thesis
      using AUIPC_result [OF ok True] alu auipc by (simp add: scast_eq_ucast_iff [symmetric])
  next
    case False
    then show ?thesis using alu_result [OF ok alu] def by simp
  qed
  moreover have "\<not> isBranch (m_id instr)" using alu by (cases "m_id instr") simp_all
  ultimately show ?thesis by (simp add: sim_out_def)
qed

lemma jump_refines:
  assumes ok: "instr_ok instr" and jump: "m_id instr = I_JAL \<or> m_id instr = I_JALR"
    and target: "target = (if m_id instr = I_JAL then pc_of sim + scast (m_imm instr)
                           else (reg sim (m_rs1 instr) + scast (m_imm instr)) AND NOT 1)"
    and "m_id instr = I_JALR \<Longrightarrow> sint (reg sim (m_rs1 instr) + scast (m_imm instr)) =
       sint (reg sim (m_rs1 instr)) + sint (m_imm instr)"
  shows "sim_out X instr sim (isa_jump target instr (arch (traced instr sim)))"
proof -
  have "isBranch (m_id instr)" using jump by auto
  then show ?thesis using call_jump [OF assms] by (simp add: sim_out_def isa_jump_def)
qed

lemma branch_refines:
  assumes "instr_ok instr" and cmp: "isa_branch (m_id instr) = Some cmp"
  shows "sim_out X instr sim
    (let target = (if cmp (reg sim (m_rs1 instr)) (reg sim (m_rs2 instr)) then pc_of sim + scast (m_imm instr) else pc_of sim + 4)
     in if cmp (reg sim (m_rs1 instr)) (reg sim (m_rs2 instr)) \<and> target AND 3 \<noteq> 0
        then Stops SIM_PC_ALIGN_ERROR (arch (traced instr sim)) else Goes (a_jump target (arch (traced instr sim))))"
proof -
  have "isBranch (m_id instr)" using cmp by (cases "m_id instr") simp_all
  then show ?thesis using call_branch [OF assms, of sim] by (simp add: sim_out_def Let_def)
qed

lemma loads_refine:
  assumes inv: "sim_inv sim" and ok: "instr_ok instr" and isa: "isa_load (m_id instr) = Some (n, value)"
  shows "sim_out X instr sim (isa_access READ n SIM_UNALIGNED_LOAD (eff_addr instr sim) (arch (traced instr sim)) (\<lambda>pa.
      Goes (advance (pc_of sim + 4) (a_put (m_rd instr) (value (contents_of sim) pa) (arch (traced instr sim))))))"
proof -
  note l = load_refines [OF _ inv ok, where X = X]
  show ?thesis
    using isa traced_logInstr [of instr sim]
    by (cases "m_id instr")
      (auto intro!: l [where 'a = 8] l [where 'a = 16] l [where 'a = 32] l [where 'a = 64]
        simp: call_def handler_defs aligned_iff)
qed

lemma stores_refine:
  assumes inv: "sim_inv sim" and ok: "instr_ok instr" and isa: "isa_store (m_id instr) = Some (n, put)"
  shows "sim_out X instr sim (isa_access WRITE n SIM_UNALIGNED_STORE (eff_addr instr sim) (arch (traced instr sim)) (\<lambda>pa.
      if X (page_base pa) then Undef
      else Goes (advance (pc_of sim + 4) (a_emit [LogMem (eff_addr instr sim) (take_bit (8 * n) (reg sim (m_rs2 instr)))]
        ((arch (traced instr sim))\<lparr>a_mem := put pa (reg sim (m_rs2 instr)) (contents_of sim)\<rparr>)))))"
proof -
  note s = store_refines [OF _ inv ok, where X = X]
  have s64: "m_id instr = I_SD \<Longrightarrow> ?thesis"
    using isa s [where 'a = 64, of 8] traced_logInstr [of instr sim] by (auto simp: call_def handler_defs aligned_iff cong: if_cong)
  show ?thesis
    using isa s64 traced_logInstr [of instr sim]
    by (cases "m_id instr")
      (auto intro!: s [where 'a = 8] s [where 'a = 16] s [where 'a = 32] simp: call_def handler_defs aligned_iff)
qed

text \<open>The handler of every instruction does the step of the machine, where that is defined.\<close>

lemma call_refines:
  assumes inv: "sim_inv sim" and ok: "instr_ok instr"
  shows "sim_out X instr sim (isa_exec X instr (arch sim))"
proof -
  have exec: "isa_exec X instr (arch sim) = isa_body X instr (arch (traced instr sim))" by (simp add: isa_exec_def arch_traced)
  note defs = exec isa_body_def Let_def eff_addr_def [symmetric]
  let ?alu = "isa_alu (m_id instr) (pc_of sim) (reg sim (m_rs1 instr)) (reg sim (m_rs2 instr)) (m_imm instr)"
  consider v where "?alu = Some v" | n ext where "?alu = None" "isa_load (m_id instr) = Some (n, ext)"
    | n put where "?alu = None" "isa_load (m_id instr) = None" "isa_store (m_id instr) = Some (n, put)"
    | cmp where "?alu = None" "isa_load (m_id instr) = None" "isa_store (m_id instr) = None" "isa_branch (m_id instr) = Some cmp"
    | "?alu = None" "isa_load (m_id instr) = None" "isa_store (m_id instr) = None" "isa_branch (m_id instr) = None"
    by (metis not_Some_eq surj_pair)
  then show ?thesis
  proof cases
    case 1
    then show ?thesis using alu_refines [OF ok 1] by (simp add: defs)
  next
    case 2
    then show ?thesis using loads_refine [OF inv ok 2(2)] by (simp add: defs)
  next
    case 3
    then show ?thesis using stores_refine [OF inv ok 3(3)] by (simp add: defs cong: if_cong)
  next
    case 4
    then show ?thesis using branch_refines [OF ok 4(4)] by (simp add: defs)
  next
    case 5
    have "sim_out X instr sim (Stops SIM_EXIT (advance (pc_of sim + 4) (arch (traced instr sim))))" if "m_id instr = I_ECALL"
      using that traced_logInstr [of instr sim] by (simp add: sim_out_def call_def simInstr_ECALL_def INSTR_CODE_SIZE_def)
    then show ?thesis
      using 5 jump_refines [OF ok _ refl, of sim X] by (auto simp: defs)
  qed
qed

end
