(* ===== verification/SimRefine.thy ===== *)
theory SimRefine
  imports IsaMachine
begin

text \<open>
  The simulator implements the machine of \<open>IsaMachine\<close>: fetching ahead into blocks, running blocks from
  the cache and the main loop together do what fetching, decoding and executing one instruction after
  the other does, and nothing else. The relation between the two is \<open>coherent\<close>: the cached blocks hold what a fetch would
  read now, as far as their addresses are in the pages of \<open>X\<close>.
\<close>

section \<open>Cached blocks and memory\<close>

definition fetch_instr :: "VirtAddr \<Rightarrow> Arch \<Rightarrow> Instr res" where
  "fetch_instr va a =
     bindR (isa_fetch va a) (\<lambda>(status, code). if status \<noteq> OK then Inr (statusInstr status) else decode code)"

abbreviation nth_va :: "VirtAddr \<Rightarrow> nat \<Rightarrow> VirtAddr" where
  "nth_va va i \<equiv> va + 4 * of_nat i"

text \<open>The instructions from index \<open>i\<close> on are those at the addresses, up to the one that ends the block.\<close>

definition filled :: "(VirtAddr \<Rightarrow> bool) \<Rightarrow> VirtAddr \<Rightarrow> Arch \<Rightarrow> nat \<Rightarrow> Instr list \<Rightarrow> bool" where
  "filled P va a i instrs \<longleftrightarrow>
     (\<forall>j. i \<le> j \<and> j < 15 \<and> (\<forall>k. i \<le> k \<and> k < j \<longrightarrow> \<not> ends_bb (instrs ! k)) \<and> P (nth_va va j) \<longrightarrow>
        fetch_instr (nth_va va j) a = Inr (instrs ! j)) \<and>
     ((\<forall>k. i \<le> k \<and> k < 15 \<longrightarrow> \<not> ends_bb (instrs ! k)) \<longrightarrow> instrs ! 15 = statusInstr OK)"

definition block_coherent :: "(64 word \<Rightarrow> bool) \<Rightarrow> Arch \<Rightarrow> Bb \<Rightarrow> bool" where
  "block_coherent X a bb \<longleftrightarrow>
     (page_base (m_virt_addr bb) \<noteq> POISON_VA \<longrightarrow> filled (\<lambda>va. code_at X va a) (m_virt_addr bb) a 0 (m_instrs bb))"

definition coherent :: "(64 word \<Rightarrow> bool) \<Rightarrow> Simulator \<Rightarrow> bool" where
  "coherent X sim \<longleftrightarrow> list_all (block_coherent X (arch sim)) (m_bbs (m_bb_cache sim))"

lemma Bb_new_coherent: "block_coherent X a Bb_new"
  by (simp add: block_coherent_def Bb_new_def INVALID_VA_def POISON_VA_def PAGE_OFFSET_MASK_def PAGE_SIZE_def)

lemma BbCache_new_coherent: "m_bb_cache sim = BbCache_new k \<Longrightarrow> coherent X sim"
  by (simp add: coherent_def BbCache_new_def list_all_iff Bb_new_coherent)

text \<open>What leaves the pages of \<open>X\<close> alone leaves the code alone.\<close>

lemma isa_fetch_xframe:
  assumes frame: "xframe X a a'" and code: "code_at X va a"
  shows "isa_fetch va a' = isa_fetch va a"
proof (cases "va AND 3 = 0")
  case True
  from code obtain r where r: "a_translate FETCH va a = Inr r" and x: "mmu_status r = OK \<Longrightarrow> X (page_base (phys_addr r))"
    by (auto simp: code_at_def split: sum.splits)
  have r': "a_translate FETCH va a' = Inr r" using frame r by (simp add: xframe_def)
  show ?thesis
  proof (cases "mmu_status r = OK")
    case ok: True
    have "page_offset (phys_addr r) = page_offset va"
      using translate_c_offset [OF r [unfolded a_translate_def] ok] .
    moreover have "va AND addrAlignMask TYPE(32) = 0" using True by (simp add: addrAlignMask_def)
    ultimately have inp: "in_page (phys_addr r) (LENGTH(32) div 8)"
      using aligned_in_page [where 'a = 32, of va] by (simp add: in_page_def)
    have mem: "a_mem a' p = a_mem a p" if "page_base p = page_base (phys_addr r)" for p
      using frame that x [OF ok] by (simp add: xframe_def)
    have "mem_word (a_mem a') (phys_addr r) = (mem_word (a_mem a) (phys_addr r) :: 32 word)"
      using inp mem by (rule mem_word_page_cong)
    then show ?thesis using True r r' mem by (simp add: isa_fetch_def)
  qed (use True r r' in \<open>simp add: isa_fetch_def\<close>)
qed (simp add: isa_fetch_def)

lemma code_at_xframe: "xframe X a a' \<Longrightarrow> code_at X va a' = code_at X va a"
  by (simp add: code_at_def xframe_def)

lemma filled_xframe:
  assumes "xframe X a a'" and "filled (\<lambda>v. code_at X v a) va a i instrs"
  shows "filled (\<lambda>v. code_at X v a') va a' i instrs"
  using assms by (simp add: filled_def code_at_xframe isa_fetch_xframe fetch_instr_def)

lemma block_coherent_xframe: "xframe X a a' \<Longrightarrow> block_coherent X a bb \<Longrightarrow> block_coherent X a' bb"
  by (simp add: block_coherent_def filled_xframe)

section \<open>Fetching a block\<close>

lemma load_ref_fetch: "load_ref FETCH va sim = isa_fetch va (arch sim)"
  by (simp add: load_ref_def isa_fetch_def addrAlignMask_def cong: if_cong)

lemma Fetch_ok:
  assumes inv: "sim_inv sim" and page: "page_base va \<noteq> POISON_VA" and tr: "\<not> isl (user_translate FETCH va sim)"
  shows "\<exists>st code sim'. isa_fetch va (arch sim) = Inr (st, code) \<and> sim_inv sim' \<and> same_arch sim sim' \<and>
    Fetch (sim, va) = Inr (\<lparr>fr_status = st, fr_instr_code = code\<rparr>, (sim', va + 4))"
proof -
  have "\<not> isl (isa_fetch va (arch sim))" using tr by (cases "user_translate FETCH va sim") (auto simp: isa_fetch_def)
  then obtain st code where ref: "isa_fetch va (arch sim) = Inr (st, code)" by (cases "isa_fetch va (arch sim)") auto
  with loadInt_cases [where 'a = 32, OF _ inv, of FETCH va] page obtain sim' where
    "loadInt FETCH va sim = Inr ((st, code), sim')" "sim_inv sim'" "same_arch sim sim'"
    by (auto simp: load_ref_fetch)
  with ref show ?thesis by (auto simp: Fetch_def INSTR_CODE_SIZE_def)
qed

lemma filled_ends: "i < 15 \<Longrightarrow> ends_bb (instrs ! i) \<Longrightarrow> fetch_instr (nth_va va i) a = Inr (instrs ! i) \<Longrightarrow> filled P va a i instrs"
  unfolding filled_def by (metis le_neq_implies_less le_refl)

lemma filled_step:
  assumes "fetch_instr (nth_va va i) a = Inr (instrs ! i)" and "\<not> ends_bb (instrs ! i)" and "filled P va a (Suc i) instrs"
  shows "filled P va a i instrs"
  unfolding filled_def
proof (intro conjI allI impI)
  fix j assume j: "i \<le> j \<and> j < 15 \<and> (\<forall>k. i \<le> k \<and> k < j \<longrightarrow> \<not> ends_bb (instrs ! k)) \<and> P (nth_va va j)"
  show "fetch_instr (nth_va va j) a = Inr (instrs ! j)"
    using assms j by (cases "j = i") (simp_all add: filled_def)
next
  assume "\<forall>k. i \<le> k \<and> k < 15 \<longrightarrow> \<not> ends_bb (instrs ! k)"
  then show "instrs ! 15 = statusInstr OK" using assms(3) by (simp add: filled_def)
qed

lemma Bb_fill_ok:
  assumes "i \<le> 15" and "length instrs = 16" and "sim_inv sim"
    and "\<forall>j. i \<le> j \<and> j < 15 \<longrightarrow> page_base (nth_va va j) \<noteq> POISON_VA \<and> \<not> isl (user_translate FETCH (nth_va va j) sim)"
  shows "\<exists>instrs' sim' va'. Bb_fill Fetch i instrs (sim, nth_va va i) = Inr (instrs', (sim', va')) \<and>
    sim_inv sim' \<and> same_arch sim sim' \<and> (\<forall>j<i. instrs' ! j = instrs ! j) \<and> filled P va (arch sim) i instrs'"
  using assms
proof (induction "15 - i" arbitrary: i instrs sim)
  case 0
  then have "i = 15" by simp
  then show ?case
    using 0 by (auto simp: Bb_fill.simps [of Fetch 15] MAX_SIZE_def filled_def)
next
  case (Suc d)
  then have i: "i < 15" by simp
  from Fetch_ok [OF Suc.prems(3)] Suc.prems(4) i obtain st code sim1 where
    ref: "isa_fetch (nth_va va i) (arch sim) = Inr (st, code)" and s1: "sim_inv sim1" "same_arch sim sim1"
    and fetch: "Fetch (sim, nth_va va i) = Inr (\<lparr>fr_status = st, fr_instr_code = code\<rparr>, (sim1, nth_va va i + 4))" by blast
  obtain instr where dec: "decode code = Inr instr" and iok: "instr_ok instr" using decode_ok by blast
  define new where "new = (if st \<noteq> OK then statusInstr st else instr)"
  have fi: "fetch_instr (nth_va va i) (arch sim) = Inr new" using ref dec by (simp add: fetch_instr_def new_def)
  have va: "nth_va va i + 4 = nth_va va (Suc i)" by (simp add: algebra_simps)
  note arch1 = arch_same [OF s1(2)]
  have fill: "Bb_fill Fetch i instrs (sim, nth_va va i) =
      (if ends_bb new then Inr (instrs[i := new], (sim1, nth_va va (Suc i)))
       else Bb_fill Fetch (Suc i) (instrs[i := new]) (sim1, nth_va va (Suc i)))"
    using i fetch dec by (subst Bb_fill.simps) (auto simp: MAX_SIZE_def new_def ends_bb_def Let_def va algebra_simps statusInstr_def Instr_default_def)
  show ?case
  proof (cases "ends_bb new")
    case True
    have "filled P va (arch sim) i (instrs[i := new])"
      using i True fi Suc.prems(2) by - (rule filled_ends, simp_all)
    then show ?thesis using True fill s1 by auto
  next
    case False
    have d: "d = 15 - Suc i" "Suc i \<le> 15" "length (instrs[i := new]) = 16" using Suc.hyps(2) i Suc.prems(2) by simp_all
    have "\<forall>j. Suc i \<le> j \<and> j < 15 \<longrightarrow> page_base (nth_va va j) \<noteq> POISON_VA \<and> \<not> isl (user_translate FETCH (nth_va va j) sim1)"
      using Suc.prems(4) same_arch_translate [OF s1(2)] by simp
    from Suc.hyps(1) [OF d s1(1) this] obtain instrs' sim' va' where
      rest: "Bb_fill Fetch (Suc i) (instrs[i := new]) (sim1, nth_va va (Suc i)) = Inr (instrs', (sim', va'))"
      and s': "sim_inv sim'" "same_arch sim1 sim'" and keep: "\<forall>j<Suc i. instrs' ! j = instrs[i := new] ! j"
      and filled: "filled P va (arch sim1) (Suc i) instrs'" by (elim exE conjE) (rule that)
    have "instrs' ! i = new" using keep i Suc.prems(2) by simp
    then have "filled P va (arch sim) i instrs'"
      using False fi filled arch1 by - (rule filled_step, simp_all)
    moreover have "same_arch sim sim'" using s1(2) s'(2) by (simp add: same_arch_def)
    moreover have "\<forall>j<i. instrs' ! j = instrs ! j" using keep by simp
    ultimately show ?thesis using False fill rest s'(1) by simp
  qed
qed

lemma window_okD:
  assumes "window_ok (arch sim)" and "j < 15"
  shows "page_base (nth_va (pc_of sim) j) \<noteq> POISON_VA" "\<not> isl (user_translate FETCH (nth_va (pc_of sim) j) sim)"
  using assms by (simp_all add: window_ok_def list_all_iff Let_def)

lemma coherent_bb:
  "coherent X sim \<Longrightarrow> i < length (m_bbs (m_bb_cache sim)) \<Longrightarrow> block_coherent X (arch sim) (m_bbs (m_bb_cache sim) ! i)"
  by (simp add: coherent_def list_all_length)

lemma coherent_update:
  assumes "coherent X sim" and "arch sim' = arch sim" and "m_bbs (m_bb_cache sim') = (m_bbs (m_bb_cache sim))[i := bb]"
    and "block_coherent X (arch sim) bb"
  shows "coherent X sim'"
  using assms by (auto simp: coherent_def list_all_iff dest!: set_update_subset_insert [THEN subsetD])

text \<open>The block at the program counter, from the cache or fetched, holds the code that memory holds now.\<close>

lemma find_bb_refines:
  assumes inv: "sim_inv sim" and coh: "coherent X sim" and window: "window_ok (arch sim)"
  shows "\<exists>bb sim'. find_bb sim = Inr (bb, sim') \<and> arch sim' = arch sim \<and> coherent X sim' \<and>
    filled (\<lambda>va. code_at X va (arch sim)) (pc_of sim) (arch sim) 0 (m_instrs bb)"
proof -
  have cache: "bbc_inv 7 (m_bb_cache sim)" using inv by (simp add: sim_inv_def)
  obtain i where i: "BbCache_find 7 (pc_of sim) (m_bb_cache sim) = Inr i" "i < length (m_bbs (m_bb_cache sim))"
    using BbCache_find_ok [OF cache] by auto
  let ?bb = "m_bbs (m_bb_cache sim) ! i" and ?P = "\<lambda>va. code_at X va (arch sim)"
  have find: "find_bb sim = (if m_virt_addr ?bb \<noteq> pc_of sim then
       bindR (Bb_update Fetch (pc_of sim) ?bb (sim, pc_of sim)) (\<lambda>(bb, (sim, _)).
       Inr (bb, sim\<lparr>m_bb_cache := (m_bb_cache sim)\<lparr>m_bbs := (m_bbs (m_bb_cache sim))[i := bb]\<rparr>\<rparr>))
     else Inr (?bb, sim))"
    using i by (simp add: find_bb_def BB_CACHE_SIZE_LOG_2_def Let_def)
  have page: "page_base (pc_of sim) \<noteq> POISON_VA" using window_okD(1) [OF window, of 0] by simp
  show ?thesis
  proof (cases "m_virt_addr ?bb = pc_of sim")
    case True
    then show ?thesis
      using coherent_bb [OF coh i(2)] page coh by (simp add: find block_coherent_def)
  next
    case False
    have "length (m_instrs ?bb) = 16" using cache i(2) by (simp add: bbc_inv_def list_all_length bb_inv_def MAX_SIZE_def)
    from Bb_fill_ok [OF _ this inv, of 0 "pc_of sim" ?P] window_okD [OF window] obtain instrs sim1 va1 where
      fill: "Bb_fill Fetch 0 (m_instrs ?bb) (sim, pc_of sim) = Inr (instrs, (sim1, va1))"
      and s1: "same_arch sim sim1" and filled: "filled ?P (pc_of sim) (arch sim) 0 instrs" by auto
    let ?new = "?bb\<lparr>m_virt_addr := pc_of sim, m_instrs := instrs\<rparr>"
    let ?sim' = "sim1\<lparr>m_bb_cache := (m_bb_cache sim1)\<lparr>m_bbs := (m_bbs (m_bb_cache sim1))[i := ?new]\<rparr>\<rparr>"
    have "find_bb sim = Inr (?new, ?sim')" using False fill by (simp add: find Bb_update_def)
    moreover have arch: "arch ?sim' = arch sim" using arch_same [OF s1] by (simp add: arch_def)
    moreover have "coherent X ?sim'"
      using coh arch s1 filled
      by (intro coherent_update [of X sim ?sim' i ?new]) (simp_all add: same_arch_def block_coherent_def)
    moreover have "filled ?P (pc_of sim) (arch sim) 0 (m_instrs ?new)" using filled by simp
    ultimately show ?thesis by blast
  qed
qed

section \<open>Running a block\<close>

lemma decode_illegal:
  assumes dec: "decode code = Inr instr" and st: "m_id instr = SIM_STATUS_INSTR"
  shows "instr = statusInstr SIM_NOT_IMPLEMENTED_INSTR"
proof -
  obtain r where r: "HandleNode decodertree code = Inr r"
    and mem: "\<And>inst. r = Some inst \<Longrightarrow> inst \<in> set decoder_instrs"
    using HandleNode_decodertree by blast
  show ?thesis
  proof (cases r)
    case None
    then show ?thesis using r dec by (simp add: decode_def Instr_default_status)
  next
    case (Some inst)
    then have "mnemonic inst \<noteq> SIM_STATUS_INSTR" using shift_instrs mem by (auto simp: list_all_iff)
    then show ?thesis using r dec st Some FieldAssigning_ok [OF mem [OF Some], of code] by (auto simp: decode_def)
  qed
qed

lemma call_status: "call (statusInstr s) sim = Inr (Return s, sim)"
  by (simp add: call_def simInstr_SIM_STATUS_INSTR_def Instr_status_def statusInstr_def Instr_default_def)

lemma isa_access_Goes: "isa_access acc n st va a k = Goes a' \<Longrightarrow> \<exists>pa. k pa = Goes a'"
  by (auto simp: isa_access_def split: if_splits sum.splits)

lemma isa_exec_pc:
  assumes "isa_exec X instr a = Goes a'" and "\<not> isBranch (m_id instr)"
  shows "a_pc a' = a_pc a + 4"
  using assms
  by (cases "m_id instr")
    (auto simp: isa_exec_def isa_body_def Let_def advance_def a_set_def a_put_def a_emit_def dest!: isa_access_Goes split: if_splits)

section \<open>Runs as a step relation\<close>

text \<open>The states after \<open>n\<close> steps, the ones in which the machine stops, and the machines that never do something undefined.\<close>

inductive isa_reaches :: "(64 word \<Rightarrow> bool) \<Rightarrow> nat \<Rightarrow> Arch \<Rightarrow> Arch \<Rightarrow> bool" for X where
  here: "isa_reaches X 0 a a"
| further: "isa_step X a = Goes b \<Longrightarrow> isa_reaches X n b c \<Longrightarrow> isa_reaches X (Suc n) a c"

inductive_simps isa_reaches_simps [simp]: "isa_reaches X 0 a c" "isa_reaches X (Suc n) a c"

definition isa_stops :: "(64 word \<Rightarrow> bool) \<Rightarrow> nat \<Rightarrow> Arch \<Rightarrow> SimStatus \<Rightarrow> Arch \<Rightarrow> bool" where
  "isa_stops X n a s a' \<longleftrightarrow> (\<exists>b. isa_reaches X n a b \<and> isa_step X b = Stops s a')"

definition isa_defined :: "(64 word \<Rightarrow> bool) \<Rightarrow> Arch \<Rightarrow> bool" where
  "isa_defined X a \<longleftrightarrow> (\<forall>n b. isa_reaches X n a b \<longrightarrow> isa_step X b \<noteq> Undef)"

lemma isa_reaches_trans: "isa_reaches X n a b \<Longrightarrow> isa_reaches X m b c \<Longrightarrow> isa_reaches X (n + m) a c"
  by (induction rule: isa_reaches.induct) auto

lemma isa_defined_here: "isa_defined X a \<Longrightarrow> isa_step X a \<noteq> Undef"
  unfolding isa_defined_def by (blast intro: here)

lemma isa_defined_reaches: "isa_defined X a \<Longrightarrow> isa_reaches X n a b \<Longrightarrow> isa_defined X b"
  unfolding isa_defined_def using isa_reaches_trans by blast

lemma isa_run_stops: "isa_run X n a = Some (s, a') \<longleftrightarrow> (\<exists>m<n. isa_stops X m a s a')"
proof (induction n arbitrary: a)
  case (Suc n)
  show ?case
    by (cases "isa_step X a") (auto simp: isa_stops_def Ex_less_Suc2 Suc)
qed simp

lemma isa_run_reaches: "isa_reaches X m a b \<Longrightarrow> isa_run X n a = Some r \<Longrightarrow> m < n \<and> isa_run X (n - m) b = Some r"
proof (induction arbitrary: n rule: isa_reaches.induct)
  case (here a)
  then show ?case by (cases n) auto
next
  case (further a b m c)
  then obtain n' where n: "n = Suc n'" by (cases n) auto
  with further show ?case by auto
qed

lemma isa_run_defined: "isa_run X n a = Some r \<Longrightarrow> isa_defined X a"
  unfolding isa_defined_def
proof (intro allI impI notI)
  fix m b assume "isa_run X n a = Some r" and "isa_reaches X m a b" and undef: "isa_step X b = Undef"
  then have "m < n" "isa_run X (n - m) b = Some r" using isa_run_reaches by blast+
  with undef show False by (cases "n - m") auto
qed

text \<open>What a step does first: fetch the instruction at the program counter, and stop or execute it.\<close>

lemma isa_stepE:
  assumes "isa_step X a \<noteq> Undef"
  obtains instr where "window_ok a" "code_at X (a_pc a) a" "fetch_instr (a_pc a) a = Inr instr"
    "(\<exists>s. isa_step X a = Stops s a \<and> m_id instr = SIM_STATUS_INSTR \<and> instr = statusInstr s \<and> s \<noteq> OK) \<or>
     m_id instr \<noteq> SIM_STATUS_INSTR \<and> instr_ok instr \<and> isa_step X a = isa_exec X instr a"
proof -
  from assms have ok: "window_ok a" "code_at X (a_pc a) a" by (auto simp: isa_step_def split: if_splits)
  from assms ok obtain st code where f: "isa_fetch (a_pc a) a = Inr (st, code)"
    by (auto simp: isa_step_def split: sum.splits)
  obtain instr where dec: "decode code = Inr instr" and iok: "instr_ok instr" using decode_ok by blast
  show thesis
  proof (cases "st = OK")
    case False
    then show thesis
      using that [of "statusInstr st"] ok f
      by (auto simp: isa_step_def fetch_instr_def statusInstr_def Instr_default_def)
  next
    case True
    then have fi: "fetch_instr (a_pc a) a = Inr instr" using f dec by (simp add: fetch_instr_def)
    have step: "isa_step X a = (if m_id instr = SIM_STATUS_INSTR then Stops SIM_NOT_IMPLEMENTED_INSTR a else isa_exec X instr a)"
      using ok f True dec by (simp add: isa_step_def)
    show thesis
    proof (rule that [OF ok fi], cases "m_id instr = SIM_STATUS_INSTR")
      case st: True
      then show "(\<exists>s. isa_step X a = Stops s a \<and> m_id instr = SIM_STATUS_INSTR \<and> instr = statusInstr s \<and> s \<noteq> OK) \<or>
          m_id instr \<noteq> SIM_STATUS_INSTR \<and> instr_ok instr \<and> isa_step X a = isa_exec X instr a"
        using step decode_illegal [OF dec st] by simp
    qed (simp add: step iok)
  qed
qed

lemma exec_drop: "k < length instrs \<Longrightarrow> exec (drop k instrs) sim =
    bindR (call (instrs ! k) sim) (\<lambda>(flow, sim). case flow of Return status \<Rightarrow> Inr (status, sim) | Next \<Rightarrow> exec (drop (Suc k) instrs) sim)"
  by (simp add: Cons_nth_drop_Suc [symmetric])

text \<open>A block executed from its \<open>k\<close>-th instruction on follows the machine: it stops with it or leaves it the rest.\<close>

lemma exec_refines:
  assumes "k \<le> 15" and "length instrs = 16" and "sim_inv sim" and "pc_of sim = nth_va va k"
    and "filled (\<lambda>v. code_at X v (arch sim)) va (arch sim) 0 instrs" and "\<forall>j<k. \<not> ends_bb (instrs ! j)"
    and "isa_defined X (arch sim)"
  shows "\<exists>st sim' n. exec (drop k instrs) sim = Inr (st, sim') \<and> sim_inv sim' \<and> m_bb_cache sim' = m_bb_cache sim \<and>
    xframe X (arch sim) (arch sim') \<and>
    (st \<noteq> OK \<and> isa_stops X n (arch sim) st (arch sim') \<or>
     st = OK \<and> (k < 15 \<longrightarrow> 0 < n) \<and> isa_reaches X n (arch sim) (arch sim'))"
  using assms
proof (induction "15 - k" arbitrary: k sim)
  case 0
  then have k: "k = 15" by simp
  then have "instrs ! 15 = statusInstr OK" using "0.prems"(5,6) by (simp add: filled_def)
  then have "exec (drop k instrs) sim = Inr (OK, sim)" using "0.prems"(2) k by (simp add: exec_drop call_status)
  then show ?case using "0.prems"(3) k by (intro exI [of _ OK] exI [of _ sim] exI [of _ 0]) simp
next
  case (Suc d)
  then have k: "k < 15" by simp
  obtain instr where code: "code_at X (pc_of sim) (arch sim)"
    and f: "fetch_instr (pc_of sim) (arch sim) = Inr instr"
    and cases: "(\<exists>s. isa_step X (arch sim) = Stops s (arch sim) \<and> m_id instr = SIM_STATUS_INSTR \<and> instr = statusInstr s \<and> s \<noteq> OK) \<or>
      m_id instr \<noteq> SIM_STATUS_INSTR \<and> instr_ok instr \<and> isa_step X (arch sim) = isa_exec X instr (arch sim)"
    by (rule isa_stepE [OF isa_defined_here [OF Suc.prems(7)], unfolded arch_simps]) (rule that)
  have "fetch_instr (nth_va va k) (arch sim) = Inr (instrs ! k)"
    using Suc.prems(4,5,6) k code by (auto simp: filled_def)
  then have instr: "instrs ! k = instr" using f Suc.prems(4) by simp
  note ex = exec_drop [of k instrs sim, unfolded instr]
  consider (status) s where "instr = statusInstr s" "s \<noteq> OK" "isa_step X (arch sim) = Stops s (arch sim)"
    | (stops) s a' where "instr_ok instr" "isa_exec X instr (arch sim) = Stops s a'" "isa_step X (arch sim) = Stops s a'"
    | (goes) a1 where "m_id instr \<noteq> SIM_STATUS_INSTR" "instr_ok instr" "isa_exec X instr (arch sim) = Goes a1"
      "isa_step X (arch sim) = Goes a1"
    using cases isa_defined_here [OF Suc.prems(7)] by (cases "isa_exec X instr (arch sim)") auto
  then show ?case
  proof cases
    case status
    then have "exec (drop k instrs) sim = Inr (s, sim)" using ex Suc.prems(2) k by (simp add: call_status)
    then show ?thesis using status Suc.prems(3)
      by (intro exI [of _ s] exI [of _ sim] exI [of _ 0]) (simp add: isa_stops_def)
  next
    case stops
    then obtain sim' where s': "call instr sim = Inr (Return s, sim')" "arch sim' = a'" "xframe X (arch sim) a'" "s \<noteq> OK"
      using call_refines [OF Suc.prems(3) stops(1), of X] by (auto simp: sim_out_def)
    have "exec (drop k instrs) sim = Inr (s, sim')" using ex s'(1) Suc.prems(2) k by simp
    then show ?thesis using call_safe [OF Suc.prems(3), of instr] s' stops(3)
      by (intro exI [of _ s] exI [of _ sim'] exI [of _ 0]) (simp add: isa_stops_def)
  next
    case goes
    then obtain sim1 where s1: "call instr sim = Inr (if isBranch (m_id instr) then Return OK else Next, sim1)"
      "arch sim1 = a1" "xframe X (arch sim) a1"
      using call_refines [OF Suc.prems(3) goes(2), of X] by (auto simp: sim_out_def)
    have inv1: "sim_inv sim1" "m_bb_cache sim1 = m_bb_cache sim"
      using call_safe [OF Suc.prems(3), of instr] s1(1) by simp_all
    have one: "isa_reaches X 1 (arch sim) (arch sim1)" using goes(4) s1(2) by simp
    show ?thesis
    proof (cases "isBranch (m_id instr)")
      case True
      then have "exec (drop k instrs) sim = Inr (OK, sim1)" using ex s1(1) Suc.prems(2) k by simp
      then show ?thesis using s1(2,3) inv1 one by (intro exI [of _ OK] exI [of _ sim1] exI [of _ 1]) simp
    next
      case False
      have pc1: "pc_of sim1 = nth_va va (Suc k)"
        using isa_exec_pc [OF goes(3) False] s1(2) Suc.prems(4) by (auto simp: algebra_simps)
      have "filled (\<lambda>v. code_at X v (arch sim1)) va (arch sim1) 0 instrs"
        using filled_xframe [OF s1(3) Suc.prems(5)] s1(2) by simp
      moreover have "\<forall>j<Suc k. \<not> ends_bb (instrs ! j)"
        using Suc.prems(6) goes(1) False instr by (auto simp: less_Suc_eq ends_bb_def)
      moreover have "d = 15 - Suc k" "Suc k \<le> 15" using Suc.hyps(2) k by simp_all
      moreover have "isa_defined X (arch sim1)" by (rule isa_defined_reaches [OF Suc.prems(7) one])
      ultimately obtain st sim' n where rest: "exec (drop (Suc k) instrs) sim1 = Inr (st, sim')" "sim_inv sim'"
        "m_bb_cache sim' = m_bb_cache sim1" "xframe X (arch sim1) (arch sim')"
        and res: "st \<noteq> OK \<and> isa_stops X n (arch sim1) st (arch sim') \<or> st = OK \<and> isa_reaches X n (arch sim1) (arch sim')"
        using Suc.hyps(1) [of "Suc k" sim1] Suc.prems(2) inv1(1) pc1 by blast
      have "xframe X (arch sim) (arch sim')" using s1(2,3) rest(4) xframe_trans by blast
      moreover have "exec (drop k instrs) sim = Inr (st, sim')" using ex s1(1) False rest(1) Suc.prems(2) k by simp
      moreover have "m_bb_cache sim' = m_bb_cache sim" using rest(3) inv1(2) by simp
      moreover have "st \<noteq> OK \<and> isa_stops X (Suc n) (arch sim) st (arch sim') \<or> st = OK \<and> isa_reaches X (Suc n) (arch sim) (arch sim')"
        using res goes(4) s1(2) by (auto simp: isa_stops_def)
      ultimately show ?thesis using rest(2) by (intro exI [of _ st] exI [of _ sim'] exI [of _ "Suc n"]) simp
    qed
  qed
qed

section \<open>Whole runs\<close>

lemma sim_block_refines:
  assumes inv: "sim_inv sim" and coh: "coherent X sim" and def: "isa_defined X (arch sim)"
  shows "\<exists>st sim' n. sim_block sim = Inr (st, sim') \<and> sim_inv sim' \<and> coherent X sim' \<and>
    (st \<noteq> OK \<and> isa_stops X n (arch sim) st (arch sim') \<or> st = OK \<and> 0 < n \<and> isa_reaches X n (arch sim) (arch sim'))"
proof -
  have "window_ok (arch sim)" by (rule isa_stepE [OF isa_defined_here [OF def]])
  from find_bb_refines [OF inv coh this] obtain bb sim1 where find: "find_bb sim = Inr (bb, sim1)" "arch sim1 = arch sim"
    "coherent X sim1" "filled (\<lambda>va. code_at X va (arch sim)) (pc_of sim) (arch sim) 0 (m_instrs bb)" by blast
  have s1: "sim_inv sim1" "bb_inv bb" using find_bb_spec(2) [OF inv find(1)] by simp_all
  have pc: "pc_of sim1 = pc_of sim" using find(2) by (metis arch_simps(1))
  have "filled (\<lambda>va. code_at X va (arch sim1)) (pc_of sim) (arch sim1) 0 (m_instrs bb)" "isa_defined X (arch sim1)"
    using find(2,4) def by simp_all
  with exec_refines [of 0 "m_instrs bb" sim1 "pc_of sim" X] s1 pc obtain st sim' n where
    "exec (m_instrs bb) sim1 = Inr (st, sim')" "sim_inv sim'" and cache: "m_bb_cache sim' = m_bb_cache sim1"
    and frame: "xframe X (arch sim1) (arch sim')"
    and "st \<noteq> OK \<and> isa_stops X n (arch sim1) st (arch sim') \<or> st = OK \<and> 0 < n \<and> isa_reaches X n (arch sim1) (arch sim')"
    by (auto simp: bb_inv_def MAX_SIZE_def)
  moreover have "coherent X sim'"
    using find(3) cache block_coherent_xframe [OF frame] by (simp add: coherent_def list_all_iff)
  ultimately show ?thesis using find(1,2) by (auto simp: sim_block_def)
qed

text \<open>Forward: where the machine stops, the loop returns. Backward: where the loop returns, the machine stops.\<close>

lemma sim_loop_refines:
  assumes "sim_inv sim" and "coherent X sim" and "isa_run X n (arch sim) = Some (s, a')"
  shows "\<exists>sim'. sim_loop n sim = Some (Inr (if s = SIM_EXIT then OK else s, sim')) \<and> arch sim' = a' \<and> sim_inv sim' \<and> coherent X sim'"
  using assms
proof (induction n arbitrary: sim rule: less_induct)
  case (less n)
  from less.prems(3) obtain n' where n: "n = Suc n'" by (cases n) auto
  from sim_block_refines [OF less.prems(1,2) isa_run_defined [OF less.prems(3)]] obtain st sim1 k where
    block: "sim_block sim = Inr (st, sim1)" "sim_inv sim1" "coherent X sim1" and
    res: "st \<noteq> OK \<and> isa_stops X k (arch sim) st (arch sim1) \<or> st = OK \<and> 0 < k \<and> isa_reaches X k (arch sim) (arch sim1)" by blast
  from res show ?case
  proof
    assume st: "st \<noteq> OK \<and> isa_stops X k (arch sim) st (arch sim1)"
    then obtain b where b: "isa_reaches X k (arch sim) b" "isa_step X b = Stops st (arch sim1)" by (auto simp: isa_stops_def)
    from isa_run_reaches [OF b(1) less.prems(3)] b(2) have "st = s \<and> arch sim1 = a'" by (cases "n - k") auto
    then show ?thesis using block n st by auto
  next
    assume st: "st = OK \<and> 0 < k \<and> isa_reaches X k (arch sim) (arch sim1)"
    then have run: "isa_run X (n - k) (arch sim1) = Some (s, a')" and less: "n - k < n"
      using isa_run_reaches [OF _ less.prems(3)] by auto
    from less.IH [OF less block(2,3) run] obtain sim' where
      "sim_loop (n - k) sim1 = Some (Inr (if s = SIM_EXIT then OK else s, sim'))" "arch sim' = a'" "sim_inv sim'" "coherent X sim'" by blast
    moreover from this have "sim_loop n' sim1 = Some (Inr (if s = SIM_EXIT then OK else s, sim'))"
      using sim_loop_mono [of "n - k" sim1 _ "n' - (n - k)"] less n by simp
    ultimately show ?thesis using block(1) st n by simp
  qed
qed

lemma sim_loop_reflects:
  assumes "sim_inv sim" and "coherent X sim" and "isa_defined X (arch sim)" and "sim_loop fuel sim = Some r"
  shows "\<exists>s sim' n. r = Inr (if s = SIM_EXIT then OK else s, sim') \<and> isa_stops X n (arch sim) s (arch sim')"
  using assms
proof (induction fuel arbitrary: sim)
  case (Suc fuel)
  from sim_block_refines [OF Suc.prems(1-3)] obtain st sim1 k where
    block: "sim_block sim = Inr (st, sim1)" "sim_inv sim1" "coherent X sim1" and
    res: "st \<noteq> OK \<and> isa_stops X k (arch sim) st (arch sim1) \<or> st = OK \<and> isa_reaches X k (arch sim) (arch sim1)" by blast
  from res show ?case
  proof
    assume "st \<noteq> OK \<and> isa_stops X k (arch sim) st (arch sim1)"
    then show ?thesis using block(1) Suc.prems(4) by (intro exI [of _ st] exI [of _ sim1] exI [of _ k]) (auto split: if_splits)
  next
    assume st: "st = OK \<and> isa_reaches X k (arch sim) (arch sim1)"
    then have "isa_defined X (arch sim1)" using isa_defined_reaches [OF Suc.prems(3)] by blast
    with Suc.IH [OF block(2,3)] Suc.prems(4) block(1) st obtain s sim' n where
      "r = Inr (if s = SIM_EXIT then OK else s, sim')" "isa_stops X n (arch sim1) s (arch sim')" by auto
    moreover from this(2) have "isa_stops X (k + n) (arch sim) s (arch sim')"
      using st isa_reaches_trans unfolding isa_stops_def by blast
    ultimately show ?thesis by blast
  qed
qed simp

lemma isa_run_mono: "isa_run X n a = Some r \<Longrightarrow> n \<le> m \<Longrightarrow> isa_run X m a = Some r"
proof (induction n arbitrary: m a)
  case (Suc n)
  then obtain m' where "m = Suc m'" "n \<le> m'" by (cases m) auto
  with Suc show ?case by (auto split: isa_out.splits)
qed simp

text \<open>The state in which \<open>simulate\<close> starts the machine.\<close>

definition start_arch :: "VirtAddr \<Rightarrow> Simulator \<Rightarrow> Arch" where
  "start_arch pc sim = (arch sim)\<lparr>a_pc := pc, a_icount := 0\<rparr>"

lemma start_coherent:
  fixes sim pc
  defines "start \<equiv> sim\<lparr>m_hart := (m_hart sim)\<lparr>m_pc := pc\<rparr>, m_icount := 0\<rparr>"
  assumes "coherent X sim"
  shows "arch start = start_arch pc sim" "coherent X start"
proof -
  show "arch start = start_arch pc sim" by (simp add: start_def arch_def start_arch_def)
  have "xframe X (arch sim) (arch start)" by (simp add: start_def xframe_def user_translate_def)
  then show "coherent X start"
    using assms(2) block_coherent_xframe by (auto simp: start_def coherent_def list_all_iff)
qed

lemma simulate_isa:
  assumes "sim_inv sim" and "coherent X sim" and "isa_run X n (start_arch pc sim) = Some (s, a')"
  shows "\<exists>sim'. simulate n pc sim = Some (Inr (if s = SIM_EXIT then OK else s, sim')) \<and> arch sim' = a' \<and>
    sim_inv sim' \<and> coherent X sim'"
  using sim_loop_refines [OF start_inv [OF assms(1)] start_coherent(2) [OF assms(2)]] assms(3)
    start_coherent(1) [OF assms(2)] by (simp add: simulate_def)

text \<open>
  C2: total correctness of the simulation. If the machine, started in the state of the simulator at the
  given address, stops after at most \<open>n\<close> instructions, then \<open>simulate\<close> returns within \<open>n\<close> rounds, with
  the status of the machine (\<open>OK\<close> for an exit) and in a simulator whose registers, program counter,
  CSRs, memory, instruction count and log are those of the machine.
\<close>

theorem simulate_refines:
  assumes "sim_inv sim" and "coherent X sim" and "isa_run X n (start_arch pc sim) = Some (s, a')"
  shows "\<exists>sim'. simulate n pc sim = Some (Inr (if s = SIM_EXIT then OK else s, sim')) \<and> arch sim' = a' \<and>
    sim_inv sim' \<and> coherent X sim'"
  using assms by (rule simulate_isa)

lemma simulate_isa_stops:
  assumes "sim_inv sim" and "coherent X sim" and "isa_defined X (start_arch pc sim)" and "simulate fuel pc sim = Some r"
  shows "\<exists>s sim' n. r = Inr (if s = SIM_EXIT then OK else s, sim') \<and> isa_run X n (start_arch pc sim) = Some (s, arch sim')"
  using sim_loop_reflects [OF start_inv [OF assms(1)] start_coherent(2) [OF assms(2)] _ assms(4) [unfolded simulate_def]] assms(3)
  unfolding start_coherent(1) [OF assms(2)] isa_run_stops by blast

text \<open>
  C3: the simulation does nothing else. If the machine never meets something undefined, whether it stops or not,
  then \<open>simulate\<close> never aborts, whatever it returns is a state in which the machine stops with the status that the
  machine has there, and it runs forever exactly if the machine does.
\<close>

theorem simulate_reflects:
  assumes "sim_inv sim" and "coherent X sim" and "isa_defined X (start_arch pc sim)"
  shows "(\<forall>fuel r. simulate fuel pc sim = Some r \<longrightarrow>
      (\<exists>s sim' n. r = Inr (if s = SIM_EXIT then OK else s, sim') \<and> isa_run X n (start_arch pc sim) = Some (s, arch sim'))) \<and>
    ((\<forall>n. isa_run X n (start_arch pc sim) = None) \<longleftrightarrow> (\<forall>fuel. simulate fuel pc sim = None))"
proof -
  note reflects = simulate_isa_stops [OF assms]
  have returns: "\<exists>r. simulate n pc sim = Some r" if "isa_run X n (start_arch pc sim) = Some (s, a')" for n s a'
    using simulate_isa [OF assms(1,2) that] by blast
  from reflects returns show ?thesis by (metis not_None_eq surj_pair)
qed

section \<open>Instructions without a handler\<close>

text \<open>The machine stands at an instruction of the description for which there is no handler.\<close>

definition unhandled :: "(64 word \<Rightarrow> bool) \<Rightarrow> Arch \<Rightarrow> bool" where
  "unhandled X a \<longleftrightarrow> window_ok a \<and> code_at X (a_pc a) a \<and> (\<exists>instr mn. fetch_instr (a_pc a) a = Inr instr \<and> m_id instr = NotImpl mn)"

lemma isa_step_Goes:
  assumes "isa_step X a = Goes b"
  obtains instr where "window_ok a" "code_at X (a_pc a) a" "fetch_instr (a_pc a) a = Inr instr"
    "m_id instr \<noteq> SIM_STATUS_INSTR" "instr_ok instr" "isa_exec X instr a = Goes b"
  by (rule isa_stepE [of X a]) (use assms that in auto)

text \<open>A block that meets such an instruction aborts; one that ends before it leaves the machine on its way there.\<close>

lemma exec_unhandled:
  assumes "k \<le> 15" and "length instrs = 16" and "sim_inv sim" and "pc_of sim = nth_va va k"
    and "filled (\<lambda>v. code_at X v (arch sim)) va (arch sim) 0 instrs" and "\<forall>j<k. \<not> ends_bb (instrs ! j)"
    and "isa_reaches X n (arch sim) b" and "unhandled X b"
  shows "exec (drop k instrs) sim = Inl NullCall \<or>
    (\<exists>sim' m. exec (drop k instrs) sim = Inr (OK, sim') \<and> sim_inv sim' \<and> m_bb_cache sim' = m_bb_cache sim \<and>
      xframe X (arch sim) (arch sim') \<and> (k < 15 \<longrightarrow> 0 < m) \<and> m \<le> n \<and> isa_reaches X (n - m) (arch sim') b)"
  using assms
proof (induction "15 - k" arbitrary: k sim n)
  case 0
  then have k: "k = 15" by simp
  then have "instrs ! 15 = statusInstr OK" using "0.prems"(5,6) by (simp add: filled_def)
  then have "exec (drop k instrs) sim = Inr (OK, sim)" using "0.prems"(2) k by (simp add: exec_drop call_status)
  then show ?case using "0.prems"(3,7) k by (intro disjI2 exI [of _ sim] exI [of _ 0]) simp
next
  case (Suc d)
  then have k: "k < 15" by simp
  have at: "instrs ! k = instr" if "code_at X (pc_of sim) (arch sim)" "fetch_instr (pc_of sim) (arch sim) = Inr instr" for instr
  proof -
    have "fetch_instr (nth_va va k) (arch sim) = Inr (instrs ! k)"
      using Suc.prems(4,5,6) k that(1) by (auto simp: filled_def)
    then show ?thesis using that(2) Suc.prems(4) by simp
  qed
  note ex = exec_drop [of k instrs sim]
  show ?case
  proof (cases n)
    case 0
    then have "b = arch sim" using Suc.prems(7) by simp
    with Suc.prems(8) obtain instr mn where "code_at X (pc_of sim) (arch sim)"
      "fetch_instr (pc_of sim) (arch sim) = Inr instr" "m_id instr = NotImpl mn" by (auto simp: unhandled_def)
    then have "call (instrs ! k) sim = Inl NullCall" using at by (simp add: call_def)
    then show ?thesis using ex Suc.prems(2) k by simp
  next
    case (Suc n')
    then obtain a1 where step: "isa_step X (arch sim) = Goes a1" and rest: "isa_reaches X n' a1 b"
      using Suc.prems(7) by auto
    from step obtain instr where code: "code_at X (pc_of sim) (arch sim)" "fetch_instr (pc_of sim) (arch sim) = Inr instr"
      and ok: "m_id instr \<noteq> SIM_STATUS_INSTR" "instr_ok instr" and goes: "isa_exec X instr (arch sim) = Goes a1"
      by (rule isa_step_Goes) (auto intro: that)
    note instr = at [OF code]
    obtain sim1 where s1: "call instr sim = Inr (if isBranch (m_id instr) then Return OK else Next, sim1)"
      "arch sim1 = a1" "xframe X (arch sim) a1"
      using call_refines [OF \<open>sim_inv sim\<close> ok(2), of X] goes by (auto simp: sim_out_def)
    have inv1: "sim_inv sim1" "m_bb_cache sim1 = m_bb_cache sim"
      using call_safe [OF \<open>sim_inv sim\<close>, of instr] s1(1) by simp_all
    show ?thesis
    proof (cases "isBranch (m_id instr)")
      case True
      then have "exec (drop k instrs) sim = Inr (OK, sim1)" using ex s1(1) Suc.prems(2) k instr by simp
      then show ?thesis using s1(2,3) inv1 rest Suc by (intro disjI2 exI [of _ sim1] exI [of _ 1]) simp
    next
      case False
      have pc1: "pc_of sim1 = nth_va va (Suc k)"
        using isa_exec_pc [OF goes False] s1(2) Suc.prems(4) by (auto simp: algebra_simps)
      have filled: "filled (\<lambda>v. code_at X v (arch sim1)) va (arch sim1) 0 instrs"
        using filled_xframe [OF s1(3) Suc.prems(5)] s1(2) by simp
      have ends: "\<forall>j<Suc k. \<not> ends_bb (instrs ! j)"
        using Suc.prems(6) ok(1) False instr by (auto simp: less_Suc_eq ends_bb_def)
      have same: "exec (drop k instrs) sim = exec (drop (Suc k) instrs) sim1" using ex s1(1) False instr Suc.prems(2) k by simp
      have d: "d = 15 - Suc k" "Suc k \<le> 15" using Suc.hyps(2) k by simp_all
      have "isa_reaches X n' (arch sim1) b" using rest s1(2) by simp
      from Suc.hyps(1) [OF d Suc.prems(2) inv1(1) pc1 filled ends this Suc.prems(8)] show ?thesis
      proof
        assume "\<exists>sim' m. exec (drop (Suc k) instrs) sim1 = Inr (OK, sim') \<and> sim_inv sim' \<and> m_bb_cache sim' = m_bb_cache sim1 \<and>
          xframe X (arch sim1) (arch sim') \<and> (Suc k < 15 \<longrightarrow> 0 < m) \<and> m \<le> n' \<and> isa_reaches X (n' - m) (arch sim') b"
        then obtain sim' m where s': "exec (drop (Suc k) instrs) sim1 = Inr (OK, sim')" "sim_inv sim'"
          "m_bb_cache sim' = m_bb_cache sim1" "xframe X (arch sim1) (arch sim')" "m \<le> n'" "isa_reaches X (n' - m) (arch sim') b" by blast
        have "xframe X (arch sim) (arch sim')" using s1(2,3) s'(4) xframe_trans by blast
        then show ?thesis using same s' inv1(2) Suc by (intro disjI2 exI [of _ sim'] exI [of _ "Suc m"]) simp
      qed (simp add: same)
    qed
  qed
qed

lemma reaches_window: "isa_reaches X n a b \<Longrightarrow> unhandled X b \<Longrightarrow> window_ok a"
  by (cases n) (auto simp: unhandled_def elim: isa_step_Goes)

lemma sim_block_unhandled:
  assumes inv: "sim_inv sim" and coh: "coherent X sim" and reach: "isa_reaches X n (arch sim) b" and un: "unhandled X b"
  shows "sim_block sim = Inl NullCall \<or>
    (\<exists>sim' m. sim_block sim = Inr (OK, sim') \<and> sim_inv sim' \<and> coherent X sim' \<and> 0 < m \<and> m \<le> n \<and> isa_reaches X (n - m) (arch sim') b)"
proof -
  from find_bb_refines [OF inv coh reaches_window [OF reach un]] obtain bb sim1 where
    find: "find_bb sim = Inr (bb, sim1)" "arch sim1 = arch sim"
    "coherent X sim1" "filled (\<lambda>va. code_at X va (arch sim)) (pc_of sim) (arch sim) 0 (m_instrs bb)" by blast
  have s1: "sim_inv sim1" "length (m_instrs bb) = 16"
    using find_bb_spec(2) [OF inv find(1)] by (simp_all add: bb_inv_def MAX_SIZE_def)
  have pc: "pc_of sim1 = pc_of sim" using find(2) by (metis arch_simps(1))
  have coh': "coherent X sim'" if "m_bb_cache sim' = m_bb_cache sim1" "xframe X (arch sim1) (arch sim')" for sim'
    using find(3) that(1) block_coherent_xframe [OF that(2)] by (simp add: coherent_def list_all_iff)
  have "exec (m_instrs bb) sim1 = Inl NullCall \<or>
    (\<exists>sim' m. exec (m_instrs bb) sim1 = Inr (OK, sim') \<and> sim_inv sim' \<and> m_bb_cache sim' = m_bb_cache sim1 \<and>
      xframe X (arch sim1) (arch sim') \<and> 0 < m \<and> m \<le> n \<and> isa_reaches X (n - m) (arch sim') b)"
    using exec_unhandled [of 0 "m_instrs bb" sim1 "pc_of sim" X n b] s1 pc find(2,4) reach un by simp
  then show ?thesis using coh' find(1) by (auto simp: sim_block_def)
qed

lemma sim_loop_unhandled:
  assumes "sim_inv sim" and "coherent X sim" and "isa_reaches X n (arch sim) b" and "unhandled X b" and "n < fuel"
  shows "sim_loop fuel sim = Some (Inl NullCall)"
  using assms
proof (induction fuel arbitrary: sim n)
  case (Suc fuel)
  from sim_block_unhandled [OF Suc.prems(1-4)] show ?case
  proof
    assume "\<exists>sim' m. sim_block sim = Inr (OK, sim') \<and> sim_inv sim' \<and> coherent X sim' \<and> 0 < m \<and> m \<le> n \<and> isa_reaches X (n - m) (arch sim') b"
    then obtain sim' m where s': "sim_block sim = Inr (OK, sim')" "sim_inv sim'" "coherent X sim'" "0 < m" "m \<le> n"
      "isa_reaches X (n - m) (arch sim') b" by blast
    from Suc.IH [OF s'(2,3,6) Suc.prems(4)] s'(1,4,5) Suc.prems(5) show ?thesis by simp
  qed simp
qed simp

text \<open>
  C37: an instruction of the description without a handler ends the simulation in a call through a null
  pointer, not in the status \<open>SIM_NOT_IMPLEMENTED_INSTR\<close> that an unknown code gives: whenever the machine,
  started in the state of the simulator, comes after \<open>n\<close> steps to an address whose code has the fixed
  bits of such an instruction, \<open>simulate\<close> aborts.
\<close>

theorem unimplemented_null_call:
  assumes "sim_inv sim" and "coherent X sim" and reach: "isa_reaches X n (start_arch pc sim) b"
    and here: "window_ok b" "code_at X (a_pc b) b" "isa_fetch (a_pc b) b = Inr (OK, code)"
    and inst: "inst \<in> set decoder_instrs" "code AND fixedmask inst = fixedvalue inst" "mnemonic inst = NotImpl mn"
  shows "simulate (Suc n) pc sim = Some (Inl NullCall)"
proof -
  obtain instr where "decode code = Inr instr" "m_id instr = NotImpl mn"
    using HandleNode_complete [OF inst(1,2)] FieldAssigning_ok [OF inst(1), of code] inst(3) by (auto simp: decode_def)
  with here have "unhandled X b" by (auto simp: unhandled_def fetch_instr_def)
  with sim_loop_unhandled [OF start_inv [OF assms(1)] start_coherent(2) [OF assms(2)], where n = n and b = b and fuel = "Suc n"] reach show ?thesis
    by (simp add: simulate_def start_coherent(1) [OF assms(2)])
qed

end
