(* ===== verification/SimLog.thy ===== *)
theory SimLog
  imports SimIsa
begin

text \<open>
  The log of a run. Its lines are a trace from which the run can be replayed: each instruction line
  has the address at which the replay is, and the registers, the program counter and the number of
  instructions that the lines add up to are those of the simulator. And logging is transparent: with
  and without a log the simulator does the same.
\<close>

section \<open>Replaying a log\<close>

text \<open>Program counter, registers and number of instructions.\<close>

type_synonym replay_state = "VirtAddr \<times> RegValue list \<times> 64 word"

fun replay :: "LogLine list \<Rightarrow> replay_state \<Rightarrow> replay_state option" where
  "replay [] s = Some s"
| "replay (LogInstr va mn # ls) (pc, regs, n) = (if va = pc then replay ls (pc + 4, regs, n + 1) else None)"
| "replay (LogGpr i v # ls) (pc, regs, n) = replay ls (pc, regs[i := v], n)"
| "replay (LogPc target # ls) (pc, regs, n) = replay ls (target, regs, n)"
| "replay (LogMem va v # ls) s = replay ls s"

lemma replay_append: "replay (ls @ ls') s = Option.bind (replay ls s) (replay ls')"
  by (induction ls s rule: replay.induct) simp_all

definition progress :: "Simulator \<Rightarrow> replay_state" where
  "progress sim = (pc_of sim, m_gpr (m_gpr_file (m_hart sim)), m_icount sim)"

text \<open>The state of the replay after an instruction that stopped the run: its line is written, but it is not counted.\<close>

definition progress_stopped :: "Simulator \<Rightarrow> replay_state" where
  "progress_stopped sim = (pc_of sim + 4, m_gpr (m_gpr_file (m_hart sim)), m_icount sim + 1)"

text \<open>From \<open>sim\<close> to \<open>sim'\<close> the lines \<open>ls\<close> are written, and they account for the change.\<close>

definition logs :: "LogLine list \<Rightarrow> Simulator \<Rightarrow> bool \<Rightarrow> Simulator \<Rightarrow> bool" where
  "logs ls sim stopped sim' \<longleftrightarrow> list_all one_line ls \<and> m_log sim' = map_option (\<lambda>log. log @ ls) (m_log sim) \<and>
     (replay ls (progress sim) = Some (progress sim') \<or>
      stopped \<and> replay ls (progress sim) = Some (progress_stopped sim'))"

lemma logs_Nil: "m_log sim' = m_log sim \<Longrightarrow> progress sim' = progress sim \<Longrightarrow> logs [] sim b sim'"
  by (simp add: logs_def option.map_ident)

lemma logs_append: "logs ls sim False sim1 \<Longrightarrow> logs ls' sim1 b sim' \<Longrightarrow> logs (ls @ ls') sim b sim'"
  by (auto simp: logs_def replay_append option.map_comp o_def)

section \<open>Instructions\<close>

lemma put_regs:
  assumes "gpr_inv (m_gpr_file (m_hart sim))" and "r < 32"
  shows "m_gpr (m_gpr_file (m_hart (set_reg r v sim))) =
    (m_gpr (m_gpr_file (m_hart sim)))[unat r := reg (set_reg r v sim) r]"
proof -
  let ?regs = "m_gpr (m_gpr_file (m_hart sim))"
  have regs: "length ?regs = 32" "?regs ! 0 = 0" using assms(1) by (simp_all add: gpr_inv_def GPR_NUMBER_def ZERO_def)
  have r: "unat r < 32" using assms(2) by (simp add: word_less_nat_alt)
  show ?thesis
  proof (cases "unat r = 0")
    case True
    then show ?thesis using regs by (simp add: set_reg_def)
  next
    case False
    then have "?regs[unat r := v, 0 := 0] = ?regs[unat r := v]"
      using regs by (metis list_update_id list_update_swap)
    then show ?thesis using regs(1) r by (simp add: set_reg_def)
  qed
qed

lemma instr_name_one_line: "\<nexists>mn. i = NotImpl mn \<Longrightarrow> CHR 0x0A \<notin> set (instr_name i)"
  by (cases i) simp_all

definition instr_line :: "Instr \<Rightarrow> Simulator \<Rightarrow> LogLine" where
  "instr_line instr sim = LogInstr (pc_of sim) (instr_name (m_id instr))"

lemma set_reg_fields [simp]:
  "m_icount (set_reg r v sim) = m_icount sim" "m_log (set_reg r v sim) = m_log sim"
  by (simp_all add: set_reg_def)

lemma same_arch_regs: "same_arch sim sim' \<Longrightarrow> same_regs sim sim'"
  by (simp add: same_arch_def same_regs_def)

abbreviation implemented :: "Instr \<Rightarrow> bool" where
  "implemented instr \<equiv> \<nexists>mn. m_id instr = NotImpl mn"

lemma logs_put:
  assumes "gpr_inv (m_gpr_file (m_hart sim1))" and "instr_ok instr" and "implemented instr"
    and "same_regs (traced instr sim) sim1"
  shows "logs [instr_line instr sim, LogGpr (unat (m_rd instr)) (reg (set_reg (m_rd instr) v sim1) (m_rd instr))] sim b
    (incr_to (pc_of sim + 4) (put_reg (m_rd instr) v sim1))"
proof -
  have "m_rd instr < 32" using assms(2) by (simp add: instr_ok_def)
  from put_regs [OF assms(1) this, of v] show ?thesis
    using assms(3,4) instr_name_one_line [of "m_id instr"]
    by (simp add: logs_def instr_line_def progress_def put_reg_def emit_commute same_regs_def traced_def option.map_comp o_def)
qed

lemma logs_line:
  assumes "implemented instr" and "same_regs (traced instr sim) sim1"
  shows "logs [instr_line instr sim] sim True sim1" "logs [instr_line instr sim] sim b (incr_to (pc_of sim + 4) sim1)"
    "logs [instr_line instr sim, LogPc target] sim b (jump_to target sim1)"
    "logs [instr_line instr sim, LogMem va w] sim b (incr_to (pc_of sim + 4) (logMemWrite va w sim1))"
  using assms instr_name_one_line [of "m_id instr"]
  by (simp_all add: logs_def instr_line_def progress_def progress_stopped_def same_regs_def traced_def
      jump_to_def logPcWrite_def logMemWrite_def option.map_comp o_def)

lemma logs_jump:
  assumes "gpr_inv (m_gpr_file (m_hart sim))" and "instr_ok instr" and "implemented instr"
  shows "logs [instr_line instr sim, LogGpr (unat (m_rd instr)) (reg (set_reg (m_rd instr) v sim) (m_rd instr)), LogPc target] sim b
    (jump_to target (put_reg (m_rd instr) v (traced instr sim)))"
proof -
  have "m_rd instr < 32" using assms(2) by (simp add: instr_ok_def)
  from put_regs [OF assms(1) this, of v] show ?thesis
    using assms(3) instr_name_one_line [of "m_id instr"]
    by (simp add: logs_def instr_line_def progress_def put_reg_def emit_commute traced_def jump_to_def logPcWrite_def
        option.map_comp o_def)
qed

text \<open>The statuses of a failing memory access; none of them is the one of an exit.\<close>

lemma user_translate_status: "user_translate acc va sim = Inr r \<Longrightarrow> mmu_status r \<noteq> SIM_EXIT"
  by (auto simp: user_translate_def translate_c_def res_simps PAGE_FAULT_RES_def dest: walk_c_fail split: if_splits walk_end.splits)

lemma access_status:
  "load_ref acc va sim = Inr (st, v :: 'a::len word) \<Longrightarrow> st \<noteq> SIM_EXIT"
  "store_ref va (w :: 'a word) sim = Inr (st, c') \<Longrightarrow> st \<noteq> SIM_EXIT"
  by (auto simp: load_ref_def store_ref_def res_simps dest: user_translate_status split: if_splits)

definition fails :: "flow \<Rightarrow> bool" where
  "fails f \<longleftrightarrow> (case f of Next \<Rightarrow> False | Return st \<Rightarrow> st \<noteq> OK \<and> st \<noteq> SIM_EXIT)"

lemma fails_simps [simp]: "\<not> fails Next" "fails (Return st) \<longleftrightarrow> st \<noteq> OK \<and> st \<noteq> SIM_EXIT"
  by (simp_all add: fails_def)

lemma logs_load:
  fixes ext :: "'a::len word \<Rightarrow> RegValue"
  assumes ty: "int_type TYPE('a)" and inv: "sim_inv sim" and ok: "instr_ok instr" "implemented instr"
    and run: "next_if_OK (simLoadInstr ext instr (traced instr sim)) = Inr (f, sim')"
  shows "\<exists>ls. logs ls sim (fails f) sim'"
proof -
  let ?sim = "traced instr sim"
  have rs1: "read_gpr (m_rs1 instr) ?sim = Inr (reg sim (m_rs1 instr) :: 64 word)" and rd: "m_rd instr < 32"
    using ok by (simp_all add: instr_ok_def read_gpr_ok)
  from run obtain st v sim1 where load: "loadInt READ (reg sim (m_rs1 instr) + scast (m_imm instr)) ?sim = Inr ((st, v :: 'a word), sim1)"
    and res: "if st \<noteq> OK then f = Return st \<and> sim' = sim1
      else f = Next \<and> sim' = incr_to (pc_of sim1 + 4) (put_reg (m_rd instr) (ext v) sim1)"
    by (auto simp: next_if_OK_def simLoadInstr_def rs1 SIM_NEXT_def rd write_gpr_ok logGprWrite_set INSTR_CODE_SIZE_def res_simps
        split: if_splits)
  from loadInt_Inr [OF ty _ _ load] inv have s1: "same_arch ?sim sim1" "sim_inv sim1" and st: "st \<noteq> SIM_EXIT"
    by (auto dest: access_status)
  then have "pc_of sim1 = pc_of sim" "gpr_inv (m_gpr_file (m_hart sim1))" by (simp_all add: same_arch_def sim_inv_def)
  then show ?thesis
    using res st logs_put [OF _ ok same_arch_regs [OF s1(1)], of "ext v"] logs_line(1) [OF ok(2) same_arch_regs [OF s1(1)]]
    by (auto split: if_splits)
qed

lemma logs_store:
  assumes ty: "int_type TYPE('a::len)" and inv: "sim_inv sim" and ok: "instr_ok instr" "implemented instr"
    and run: "next_if_OK (simStoreInstr TYPE('a) instr (traced instr sim)) = Inr (f, sim')"
  shows "\<exists>ls. logs ls sim (fails f) sim'"
proof -
  let ?sim = "traced instr sim"
  have regs: "read_gpr (m_rs1 instr) ?sim = Inr (reg sim (m_rs1 instr) :: 64 word)"
    "read_gpr (m_rs2 instr) ?sim = Inr (ucast (reg sim (m_rs2 instr)) :: 'a word)"
    using ok by (simp_all add: instr_ok_def read_gpr_ok)
  from run obtain va v st sim1 where store: "storeInt va (v :: 'a word) ?sim = Inr (st, sim1)"
    and res: "if st \<noteq> OK then f = Return st \<and> sim' = sim1
      else f = Next \<and> sim' = incr_to (pc_of (logMemWrite va (ucast v) sim1) + 4) (logMemWrite va (ucast v) sim1)"
    by (auto simp: next_if_OK_def simStoreInstr_def regs SIM_NEXT_def INSTR_CODE_SIZE_def Let_def res_simps split: if_splits)
  from storeInt_Inr [OF ty _ store] inv have s1: "same_regs ?sim sim1" and st: "st \<noteq> SIM_EXIT"
    by (auto simp: store_post_def dest: access_status)
  then have "pc_of (logMemWrite va (ucast v) sim1) = pc_of sim" by (simp add: same_regs_def logMemWrite_def)
  then show ?thesis
    using res st logs_line(1,4) [OF ok(2) s1] by (auto split: if_splits)
qed

lemma logs_exI: "logs ls sim b sim' \<Longrightarrow> \<exists>ls. logs ls sim b sim'"
  by blast

lemma call_logs:
  assumes inv: "sim_inv sim" and ok: "instr_ok instr" and call: "call instr sim = Inr (f, sim')"
  shows "\<exists>ls. logs ls sim (fails f) sim'"
proof -
  have impl: "implemented instr" using call by (auto simp: call_def)
  have gpr: "gpr_inv (m_gpr_file (m_hart sim))" "gpr_inv (m_gpr_file (m_hart (traced instr sim)))"
    using inv by (simp_all add: sim_inv_def)
  note put = logs_put [OF gpr(2) ok impl same_regs_refl] and line = logs_line [OF impl same_regs_refl]
  note tr = traced_logInstr [of instr sim]
  let ?alu = "isa_alu (m_id instr) (pc_of sim) (reg sim (m_rs1 instr)) (reg sim (m_rs2 instr)) (m_imm instr)"
  consider (auipc) "m_id instr = I_AUIPC" | (alu) v where "?alu = Some v" "m_id instr \<noteq> I_AUIPC"
    | (load) n ext where "isa_load (m_id instr) = Some (n, ext)" | (store) n put where "isa_store (m_id instr) = Some (n, put)"
    | (branch) cmp where "isa_branch (m_id instr) = Some cmp" | (jal) "m_id instr = I_JAL" | (jalr) "m_id instr = I_JALR"
    | (ecall) "m_id instr = I_ECALL" | (status) "m_id instr = SIM_STATUS_INSTR"
    using impl by (cases "m_id instr") auto
  then show ?thesis
  proof cases
    case auipc
    then show ?thesis using call AUIPC_result [OF ok auipc, of sim] put by auto
  next
    case alu
    then show ?thesis using call alu_result [OF ok alu] put by (auto split: if_splits)
  next
    case load
    note l = logs_load [OF _ inv ok impl]
    show ?thesis
      using load call tr
      by (cases "m_id instr")
        (auto dest: l [rotated] simp: call_def handler_defs)
  next
    case store
    note s = logs_store [OF _ inv ok impl]
    show ?thesis
      using store call tr
      by (cases "m_id instr")
        (auto dest: s [rotated] simp: call_def handler_defs)
  next
    case branch
    then show ?thesis
      using call call_branch [OF ok branch, of sim]
      by (auto simp: Let_def intro: logs_exI [OF line(1)] logs_exI [OF line(3)] split: if_splits)
  next
    case jal
    then show ?thesis
      using call call_jump [OF ok _ refl, of sim] by (auto intro: logs_exI [OF line(1)] logs_exI [OF logs_jump [OF gpr(1) ok impl]] split: if_splits)
  next
    case jalr
    then show ?thesis
      using call tr ok
      by (auto intro: logs_exI [OF line(1)] logs_exI [OF logs_jump [OF gpr(1) ok impl]] simp: call_def simInstr_JALR_def Let_def instr_ok_def write_gpr_ok jump_log_ok jump_to_def [symmetric] res_simps
          split: if_splits)
  next
    case ecall
    then show ?thesis
      using call tr line(2) by (auto simp: call_def simInstr_ECALL_def INSTR_CODE_SIZE_def)
  next
    case status
    then show ?thesis
      using call logs_Nil [of sim sim] by (auto simp: call_def simInstr_SIM_STATUS_INSTR_def res_simps)
  qed
qed

section \<open>Blocks and runs\<close>

lemma exec_logs:
  "block_ok instrs \<Longrightarrow> sim_inv sim \<Longrightarrow> exec instrs sim = Inr (st, sim') \<Longrightarrow> \<exists>ls. logs ls sim (fails (Return st)) sim'"
proof (induction instrs arbitrary: sim)
  case (Cons instr instrs)
  from Cons.prems(3) obtain f sim1 where call: "call instr sim = Inr (f, sim1)"
    and rest: "(case f of Return status \<Rightarrow> Inr (status, sim1) | Next \<Rightarrow> exec instrs sim1) = Inr (st, sim')"
    by (auto simp: res_simps)
  have "sim_inv sim1" using call_safe [OF Cons.prems(2), of instr] call by simp
  obtain ls where ls: "logs ls sim (fails f) sim1" using call_logs [OF Cons.prems(2) _ call] Cons.prems(1) by auto
  show ?case
  proof (cases f)
    case Next
    then have "block_ok instrs" using Cons.prems(1) call_ends [OF _ call] by auto
    with Cons.IH [OF _ \<open>sim_inv sim1\<close>] rest Next obtain ls' where "logs ls' sim1 (fails (Return st)) sim'" by auto
    with ls Next show ?thesis by (auto intro: logs_append)
  next
    case (Return status)
    with rest ls show ?thesis by auto
  qed
qed simp

lemma find_bb_quiet:
  assumes inv: "sim_inv sim" and found: "find_bb sim = Inr (bb, sim')"
  shows "m_log sim' = m_log sim \<and> progress sim' = progress sim"
proof -
  let ?P = "\<lambda>s. sim_inv (fst s) \<and> same_arch sim (fst s)"
  have step: "?P s'" if "?P s" and "Fetch s = Inr (r, s')" for s r s'
  proof -
    obtain sim0 va where s: "s = (sim0, va)" by (cases s)
    from that(2) obtain st v sim1 where "loadInt FETCH va sim0 = Inr ((st, v :: 32 word), sim1)" and "s' = (sim1, va + INSTR_CODE_SIZE)"
      by (auto simp: Fetch_def s res_simps)
    with loadInt_Inr [OF _ _ _ this(1)] that(1) show ?thesis by (simp add: s same_arch_def)
  qed
  have P: "?P (sim, pc_of sim)" using inv by simp
  from found consider "sim' = sim"
    | bb0 sim1 va1 c where "Bb_update Fetch (pc_of sim) bb0 (sim, pc_of sim) = Inr (bb, (sim1, va1))" "sim' = sim1\<lparr>m_bb_cache := c\<rparr>"
    by (auto simp: find_bb_def Let_def res_simps split: if_splits)
  then show ?thesis
  proof cases
    case 2
    from 2(1) obtain instrs where "Bb_fill Fetch 0 (m_instrs bb0) (sim, pc_of sim) = Inr (instrs, (sim1, va1))"
      by (auto simp: Bb_update_def Let_def res_simps)
    from Bb_fill_state [where P = ?P, OF step this P] show ?thesis by (simp add: 2(2) same_arch_def progress_def)
  qed simp
qed

lemma sim_block_logs:
  assumes inv: "sim_inv sim" and block: "sim_block sim = Inr (st, sim')"
  shows "\<exists>ls. logs ls sim (fails (Return st)) sim'"
proof -
  from block obtain bb sim1 where bb: "find_bb sim = Inr (bb, sim1)" and exec: "exec (m_instrs bb) sim1 = Inr (st, sim')"
    by (auto simp: sim_block_def res_simps)
  from find_bb_spec(2) [OF inv bb] have "sim_inv sim1" "block_ok (m_instrs bb)" by (simp_all add: bb_inv_def)
  with exec_logs exec obtain ls where "logs ls sim1 (fails (Return st)) sim'" by blast
  moreover have "logs [] sim False sim1" using find_bb_quiet [OF inv bb] by (simp add: logs_Nil)
  ultimately show ?thesis using logs_append by fastforce
qed

lemma sim_loop_logs:
  "sim_inv sim \<Longrightarrow> sim_loop fuel sim = Some (Inr (st, sim')) \<Longrightarrow> \<exists>ls. logs ls sim (st \<noteq> OK) sim'"
proof (induction fuel arbitrary: sim)
  case (Suc fuel)
  from Suc.prems(2) obtain s sim1 where block: "sim_block sim = Inr (s, sim1)" by (auto split: sum.splits)
  obtain ls where ls: "logs ls sim (fails (Return s)) sim1" using sim_block_logs [OF Suc.prems(1) block] by blast
  show ?case
  proof (cases "s = OK")
    case True
    with Suc.prems block have "sim_inv sim1" "sim_loop fuel sim1 = Some (Inr (st, sim'))"
      using sim_block_inv(2) [OF Suc.prems(1)] by simp_all
    from Suc.IH [OF this] obtain ls' where "logs ls' sim1 (st \<noteq> OK) sim'" by blast
    with ls True show ?thesis by (auto intro: logs_append)
  next
    case False
    with Suc.prems(2) block ls show ?thesis by (auto split: if_splits)
  qed
qed simp

text \<open>
  C18: the log of a run. Whatever the program does, the lines that \<open>simulate\<close> writes are a faithful trace,
  and their text determines them: every instruction line carries the program counter that the lines
  before it lead to, and replaying the lines gives the registers, the program counter and the
  instruction count of the simulator at the end; only an instruction that stops the run with an error
  has a line without being counted.
\<close>

theorem simulate_log_replays:
  assumes "sim_inv sim" and "m_log sim = Some log" and "simulate fuel pc sim = Some (Inr (st, sim'))"
  shows "\<exists>ls. m_log sim' = Some (log @ ls) \<and> read_log (log_text ls) = ls \<and>
    (replay ls (pc, m_gpr (m_gpr_file (m_hart sim)), 0) = Some (progress sim') \<or>
     st \<noteq> OK \<and> replay ls (pc, m_gpr (m_gpr_file (m_hart sim)), 0) = Some (progress_stopped sim'))"
proof -
  let ?sim = "sim\<lparr>m_hart := (m_hart sim)\<lparr>m_pc := pc\<rparr>, m_icount := 0\<rparr>"
  from sim_loop_logs [OF start_inv [OF assms(1)] assms(3) [unfolded simulate_def]]
  obtain ls where ls: "logs ls ?sim (st \<noteq> OK) sim'" by blast
  then have "read_log (log_text ls) = ls" by (simp add: logs_def read_log_text)
  with ls show ?thesis using assms(2) by (auto simp: logs_def progress_def)
qed

section \<open>Transparency\<close>

definition mute :: "Simulator \<Rightarrow> Simulator" where
  "mute sim = sim\<lparr>m_log := None\<rparr>"

lemma mute_fields [simp]:
  "m_phys_memory (mute sim) = m_phys_memory sim" "m_hart (mute sim) = m_hart sim"
  "m_read_tlb (mute sim) = m_read_tlb sim" "m_write_tlb (mute sim) = m_write_tlb sim"
  "m_fetch_tlb (mute sim) = m_fetch_tlb sim" "m_bb_cache (mute sim) = m_bb_cache sim"
  "m_icount (mute sim) = m_icount sim"
  by (simp_all add: mute_def)

lemma mute_update [simp]:
  "(mute sim)\<lparr>m_bb_cache := c\<rparr> = mute (sim\<lparr>m_bb_cache := c\<rparr>)" "(mute sim)\<lparr>m_phys_memory := pm\<rparr> = mute (sim\<lparr>m_phys_memory := pm\<rparr>)"
  "(mute sim)\<lparr>m_write_tlb := t\<rparr> = mute (sim\<lparr>m_write_tlb := t\<rparr>)" "setReadTLB acc t (mute sim) = mute (setReadTLB acc t sim)"
  "incr_to pc (mute sim) = mute (incr_to pc sim)" "set_reg r v (mute sim) = mute (set_reg r v sim)"
  "emit ls (mute sim) = mute sim" "mute (emit ls sim) = mute sim"
  by (simp_all add: mute_def setReadTLB_def incr_to_def set_reg_def emit_def)

lemma mute_log [simp]:
  "traced instr (mute sim) = mute (traced instr sim)" "logInstr mn (mute sim) = mute (logInstr mn sim)"
  "logMemWrite va v (mute sim) = mute (logMemWrite va v sim)" "jump_to pc (mute sim) = mute (jump_to pc sim)"
  "put_reg r v (mute sim) = mute (put_reg r v sim)" "eff_addr instr (mute sim) = eff_addr instr sim"
  by (simp_all add: traced_def logInstr_def logMemWrite_def jump_to_def logPcWrite_def put_reg_def eff_addr_def)

lemma mute_reads [simp]:
  "read_gpr idx (mute sim) = read_gpr idx sim" "translateVa acc va (mute sim) = translateVa acc va sim"
  "getReadTLB acc (mute sim) = getReadTLB acc sim"
  by (simp_all add: read_gpr_def translateVa_def getReadTLB_def)

lemma loadInt_mute: "loadInt acc va (mute sim) = mapR mute (loadInt acc va sim)"
  by (simp add: loadInt_def mapR_bind case_prod_unfold if_distrib [of "mapR mute"] option.case_distrib [of "mapR mute"]
      cong: if_cong option.case_cong)

lemma storeInt_mute: "storeInt va v (mute sim) = mapR mute (storeInt va v sim)"
  by (simp add: storeInt_def mapR_bind case_prod_unfold if_distrib [of "mapR mute"] option.case_distrib [of "mapR mute"] Let_def
      cong: if_cong option.case_cong)

lemma Fetch_mute: "Fetch (map_prod mute id s) = mapR (map_prod mute id) (Fetch s)"
  by (cases s) (simp add: Fetch_def loadInt_mute bind_mapR mapR_bind case_prod_unfold)

lemma find_bb_mute: "find_bb (mute sim) = mapR mute (find_bb sim)"
proof -
  have fill: "Bb_fill Fetch 0 instrs (mute sim, va) = mapR (map_prod mute id) (Bb_fill Fetch 0 instrs (sim, va))" for instrs va
    using Bb_fill_map [where fetch = Fetch and h = "map_prod mute id" and s = "(sim, va)", OF Fetch_mute] by simp
  show ?thesis
    by (simp add: find_bb_def Bb_update_def Let_def fill bind_mapR mapR_bind bindR_assoc case_prod_unfold
        if_distrib [of "mapR mute"] cong: if_cong)
qed

lemma simLoadInstr_mute:
  fixes ext :: "'a::len word \<Rightarrow> RegValue"
  assumes "instr_ok instr"
  shows "next_if_OK (simLoadInstr ext instr (mute sim)) = mapR mute (next_if_OK (simLoadInstr ext instr sim))"
proof -
  have "m_rs1 instr < 32" "m_rd instr < 32" using assms by (simp_all add: instr_ok_def)
  then show ?thesis
    by (simp add: next_if_OK_def simLoadInstr_def SIM_NEXT_def read_gpr_ok write_gpr_ok logGprWrite_set INSTR_CODE_SIZE_def
        loadInt_mute bind_mapR mapR_bind bindR_assoc bindR_if_distrib case_prod_unfold if_distrib [of "mapR mute"] cong: if_cong)
qed

lemma simStoreInstr_mute:
  assumes "instr_ok instr"
  shows "next_if_OK (simStoreInstr TYPE('a::len) instr (mute sim)) = mapR mute (next_if_OK (simStoreInstr TYPE('a) instr sim))"
proof -
  have "m_rs1 instr < 32" "m_rs2 instr < 32" using assms by (simp_all add: instr_ok_def)
  moreover have "pc_of (logMemWrite va v s) = pc_of s" for va v s by (simp add: logMemWrite_def)
  ultimately show ?thesis
    by (simp add: next_if_OK_def simStoreInstr_def SIM_NEXT_def read_gpr_ok INSTR_CODE_SIZE_def Let_def
        storeInt_mute bind_mapR mapR_bind bindR_assoc bindR_if_distrib case_prod_unfold if_distrib [of "mapR mute"] cong: if_cong)
qed

lemma call_mute:
  assumes ok: "instr_ok instr"
  shows "call instr (mute sim) = mapR mute (call instr sim)"
proof -
  note tr = traced_logInstr [of instr sim] and ld = simLoadInstr_mute [OF ok] and st = simStoreInstr_mute [OF ok]
  let ?alu = "isa_alu (m_id instr) (pc_of sim) (reg sim (m_rs1 instr)) (reg sim (m_rs2 instr)) (m_imm instr)"
  consider (auipc) "m_id instr = I_AUIPC" | (alu) v where "?alu = Some v" "m_id instr \<noteq> I_AUIPC"
    | (load) n ext where "isa_load (m_id instr) = Some (n, ext)" | (store) n put where "isa_store (m_id instr) = Some (n, put)"
    | (branch) cmp where "isa_branch (m_id instr) = Some cmp" | (jal) "m_id instr = I_JAL" | (jalr) "m_id instr = I_JALR"
    | (ecall) "m_id instr = I_ECALL" | (status) "m_id instr = SIM_STATUS_INSTR" | (none) mn where "m_id instr = NotImpl mn"
    by (cases "m_id instr") auto
  then show ?thesis
  proof cases
    case auipc
    then show ?thesis by (simp add: AUIPC_result [OF ok auipc])
  next
    case alu
    then show ?thesis using alu_result [OF ok _ alu(2), of sim v] alu_result [OF ok _ alu(2), of "mute sim" v] by simp
  next
    case load
    then show ?thesis by (cases "m_id instr") (simp_all add: call_def handler_defs ld)
  next
    case store
    then show ?thesis by (cases "m_id instr") (simp_all add: call_def handler_defs st)
  next
    case branch
    show ?thesis by (simp add: call_branch [OF ok branch] Let_def)
  next
    case jal
    then show ?thesis using call_jump [OF ok _ refl, of sim] call_jump [OF ok _ refl, of "mute sim"] by simp
  next
    case jalr
    then show ?thesis
      using ok by (simp add: call_def simInstr_JALR_def Let_def instr_ok_def write_gpr_ok read_gpr_ok jump_log_ok logPcWrite_def
          jump_to_def [symmetric] mapR_bind if_distrib [of "mapR mute"] cong: if_cong)
  next
    case ecall
    then show ?thesis by (simp add: call_def simInstr_ECALL_def Let_def)
  next
    case status
    then show ?thesis by (simp add: call_def simInstr_SIM_STATUS_INSTR_def mapR_bind)
  next
    case none
    then show ?thesis by (simp add: call_def)
  qed
qed

lemma exec_mute: "block_ok instrs \<Longrightarrow> exec instrs (mute sim) = mapR mute (exec instrs sim)"
proof (induction instrs arbitrary: sim)
  case (Cons instr instrs)
  then have ok: "instr_ok instr" by simp
  show ?case
  proof (cases "call instr sim")
    case (Inl e)
    then show ?thesis by (simp add: call_mute [OF ok])
  next
    case (Inr x)
    obtain f sim1 where x: "x = (f, sim1)" by (cases x)
    show ?thesis
    proof (cases f)
      case Next
      then have "block_ok instrs" using Cons.prems call_ends [of instr sim f sim1] Inr x by auto
      with Cons.IH Inr x Next show ?thesis by (simp add: call_mute [OF ok])
    qed (use Inr x in \<open>simp add: call_mute [OF ok]\<close>)
  qed
qed simp

lemma sim_block_mute: "sim_inv sim \<Longrightarrow> sim_block (mute sim) = mapR mute (sim_block sim)"
  using find_bb_spec(2) [of sim]
  by (cases "find_bb sim") (auto simp: sim_block_def find_bb_mute bb_inv_def exec_mute)

lemma sim_loop_mute: "sim_inv sim \<Longrightarrow> sim_loop fuel (mute sim) = map_option (mapR mute) (sim_loop fuel sim)"
proof (induction fuel arbitrary: sim)
  case (Suc fuel)
  show ?case
    using Suc sim_block_inv(2) [OF Suc.prems]
    by (cases "sim_block sim") (auto simp: sim_block_mute)
qed simp

text \<open>
  C19: logging changes nothing but the log. With and without a log, \<open>simulate\<close> takes the same number of
  rounds, ends with the same status or for the same reason, and in the same state up to the log.
\<close>

theorem simulate_log_transparent:
  assumes "sim_inv sim"
  shows "simulate fuel pc (sim\<lparr>m_log := None\<rparr>) =
    map_option (mapR (\<lambda>sim'. sim'\<lparr>m_log := None\<rparr>)) (simulate fuel pc sim)"
proof -
  have "mute (sim\<lparr>m_hart := h, m_icount := n\<rparr>) = (mute sim)\<lparr>m_hart := h, m_icount := n\<rparr>" for h n by (simp add: mute_def)
  with sim_loop_mute [OF start_inv [OF assms, of pc], of fuel] show ?thesis
    by (simp add: simulate_def mute_def [symmetric] mute_def [abs_def, symmetric])
qed

end
