(* ===== verification/SimTests.thy ===== *)
theory SimTests
  imports DemoMachine SimRefine SimLog
begin

text \<open>
  The unit tests of the simulator (\<^verbatim>\<open>simulator/tests/src/test_simulator.cpp\<close>) on the model: whole programs
  in machine code, from the constructor of the simulator to the exit status. The reference machine is
  run on each program by the kernel; that the simulator does the same is the refinement. Beside them, the log
  of one of the programs as text, and a program that does not end.
\<close>

section \<open>The fixture\<close>

definition CODE_SEG_BASE :: PhysAddr where "CODE_SEG_BASE = 0x5000000000"

text \<open>The loop over the pages; \<open>n\<close> rounds are enough for \<open>n\<close> codes.\<close>

fun test_map_code :: "mmap_fn \<Rightarrow> nat \<Rightarrow> PhysAddr \<Rightarrow> PhysAddr \<Rightarrow> PhysMemory \<Rightarrow> PhysMemory res" where
  "test_map_code mm 0 page_pa end_pa pm = Inr pm"
| "test_map_code mm (Suc n) page_pa end_pa pm =
     (if page_pa < end_pa then
        bindR (addRAMPage mm page_pa pm) (\<lambda>(added, pm).
        bindR (SIM_ASSERT added) (\<lambda>_. test_map_code mm n (page_pa + PAGE_SIZE) end_pa pm))
      else Inr pm)"

fun test_write_code :: "PhysAddr \<Rightarrow> InstrCode list \<Rightarrow> PhysMemory \<Rightarrow> PhysMemory res" where
  "test_write_code pa [] pm = Inr pm"
| "test_write_code pa (code # codes) pm =
     bindR (PhysMemory_write pa code pm) (\<lambda>(r, pm).
     bindR (SIM_ASSERT (wr_status r = OK)) (\<lambda>_. test_write_code (pa + INSTR_CODE_SIZE) codes pm))"

definition test_load :: "mmap_fn \<Rightarrow> InstrCode list \<Rightarrow> Simulator \<Rightarrow> Simulator res" where
  "test_load mm code sim =
     bindR (test_map_code mm (length code) CODE_SEG_BASE (of_nat (length code) + CODE_SEG_BASE) (m_phys_memory sim)) (\<lambda>pm.
     bindR (test_write_code CODE_SEG_BASE code pm) (\<lambda>pm. Inr (sim\<lparr>m_phys_memory := pm\<rparr>)))"

definition test_simulate :: "nat \<Rightarrow> mmap_fn \<Rightarrow> InstrCode list \<Rightarrow> Simulator \<Rightarrow> (SimStatus \<times> Simulator) res option" where
  "test_simulate fuel mm code sim =
     (case test_load mm code sim of Inl e \<Rightarrow> Some (Inl e) | Inr sim \<Rightarrow> simulate fuel CODE_SEG_BASE sim)"

text \<open>What the tests look at: the status, the instruction count and the registers.\<close>

definition test_result :: "(SimStatus \<times> Simulator) res option \<Rightarrow> (SimStatus \<times> 64 word \<times> RegValue list) option" where
  "test_result r =
     (case r of Some (Inr (status, sim)) \<Rightarrow> Some (status, m_icount sim, m_gpr (m_gpr_file (m_hart sim))) | _ \<Rightarrow> None)"

definition test_ecall :: "InstrCode list" where "test_ecall = [0x05d0089b, 0x00000073]"

definition test_addSub :: "InstrCode list" where
  "test_addSub = [0x00a0059b, 0x0140051b, 0x00b5053b, 0x40a5853b, 0x05d0089b, 0x00000073]"

definition test_cycle :: "InstrCode list" where
  "test_cycle = [0x0000051b, 0x0000029b, 0x0050031b, 0x0062d863, 0x0055053b, 0x0012829b, 0xff5ff06f, 0x05d0089b, 0x00000073]"

definition test_loadStore :: "InstrCode list" where
  "test_loadStore = [0x1bf0051b, 0x0060059b, 0x02459593, 0x00358593, 0x00a5b2a3, 0x00858593, 0xffd5b603, 0x05d0089b, 0x00000073]"

definition DATA_PAGE_PA :: PhysAddr where "DATA_PAGE_PA = 0x6000000000"

text \<open>The simulator of the last test has a data page.\<close>

definition data_sim :: Simulator where
  "data_sim = demo_sim0\<lparr>m_phys_memory := snd (projr (addRAMPage demo_mm DATA_PAGE_PA (m_phys_memory demo_sim0)))\<rparr>"

section \<open>From the machine to the simulator\<close>

lemma test_map_code_inv:
  "mmap_contract mm \<Longrightarrow> pm_inv mm pm \<Longrightarrow> test_map_code mm n pa e pm = Inr pm' \<Longrightarrow> pm_inv mm pm'"
proof (induction n arbitrary: pa pm)
  case (Suc n)
  show ?case
  proof (cases "pa < e")
    case True
    with Suc.prems(3) obtain pm1 where "addRAMPage mm pa pm = Inr (True, pm1)" and rest: "test_map_code mm n (pa + PAGE_SIZE) e pm1 = Inr pm'"
      by (auto simp: res_simps)
    then have "pm_inv mm pm1" using addRAMPage_spec Suc.prems by blast
    from Suc.IH [OF Suc.prems(1) this rest] show ?thesis .
  qed (use Suc.prems in simp)
qed simp

lemma test_write_code_inv:
  "pm_inv mm pm \<Longrightarrow> test_write_code pa codes pm = Inr pm' \<Longrightarrow> pm_inv mm pm'"
proof (induction codes arbitrary: pa pm)
  case (Cons code codes)
  from Cons.prems(2) obtain r pm1 where w: "PhysMemory_write pa code pm = Inr (r, pm1)"
    and rest: "test_write_code (pa + INSTR_CODE_SIZE) codes pm1 = Inr pm'" by (auto simp: res_simps)
  have "pm_inv mm pm1" using PhysMemory_write_inv [OF Cons.prems(1) _ w] by simp
  from Cons.IH [OF this rest] show ?case .
qed simp

lemma test_load_inv:
  assumes "mmap_contract mm" and "pm_inv mm (m_phys_memory sim)" and "test_load mm code sim = Inr sim'"
  shows "pm_inv mm (m_phys_memory sim')" and "sim' = sim\<lparr>m_phys_memory := m_phys_memory sim'\<rparr>"
  using assms by (auto simp: test_load_def res_simps dest!: test_map_code_inv [rotated 2] test_write_code_inv [rotated])

text \<open>A simulator as it is constructed, apart from its memory.\<close>

definition fresh_sim :: "Simulator \<Rightarrow> bool" where
  "fresh_sim sim \<longleftrightarrow> sim = demo_sim0\<lparr>m_phys_memory := m_phys_memory sim\<rparr> \<and> pm_inv demo_mm (m_phys_memory sim)"

lemma fresh_sim_ok:
  assumes "fresh_sim sim"
  shows "sim_inv sim" and "coherent X sim"
proof -
  note f = Simulator_new_fields [OF demo_sim0_new]
  have sim: "sim = demo_sim0\<lparr>m_phys_memory := m_phys_memory sim\<rparr>" and pm: "pm_ok (m_phys_memory sim)"
    using assms pm_inv_ok by (auto simp: fresh_sim_def)
  have fields: "m_hart sim = Hart_new" "m_read_tlb sim = TLB_new 7" "m_write_tlb sim = TLB_new 7" "m_fetch_tlb sim = TLB_new 7"
    "m_bb_cache sim = BbCache_new 7"
    using f by (subst sim, simp)+
  show "sim_inv sim"
    using fields pm by (intro fresh_inv) (simp_all add: Hart_new_def CSRFile_init_def tables_protected_def)
  show "coherent X sim" using fields(5) by (rule BbCache_new_coherent)
qed

lemma demo_sim0_fresh: "fresh_sim demo_sim0"
  using PhysMemory_new_inv [OF Simulator_new_fields(1) [OF demo_sim0_new]] by (simp add: fresh_sim_def)

lemma test_load_fresh:
  assumes "test_load demo_mm code demo_sim0 = Inr sim"
  shows "fresh_sim sim"
proof -
  have "pm_inv demo_mm (m_phys_memory demo_sim0)" using demo_sim0_fresh by (simp add: fresh_sim_def)
  from test_load_inv [OF demo_mm_contract this assms] show ?thesis by (simp add: fresh_sim_def)
qed

lemma data_sim_fresh: "fresh_sim data_sim"
proof -
  have "\<not> isl (addRAMPage demo_mm DATA_PAGE_PA (m_phys_memory demo_sim0))" by code_simp
  then obtain b pm where add: "addRAMPage demo_mm DATA_PAGE_PA (m_phys_memory demo_sim0) = Inr (b, pm)"
    by (cases "addRAMPage demo_mm DATA_PAGE_PA (m_phys_memory demo_sim0)") auto
  then have "pm_inv demo_mm pm" using addRAMPage_spec [OF demo_mm_contract _ add] demo_sim0_fresh by (simp add: fresh_sim_def)
  then show ?thesis using add by (simp add: fresh_sim_def data_sim_def)
qed

text \<open>The final count and registers of the machine on a loaded program.\<close>

definition isa_result :: "nat \<Rightarrow> InstrCode list \<Rightarrow> Simulator \<Rightarrow> (SimStatus \<times> 64 word \<times> RegValue list) option" where
  "isa_result n code sim =
     (case test_load demo_mm code sim of
        Inl _ \<Rightarrow> None
      | Inr sim \<Rightarrow> map_option (\<lambda>(s, a). (s, a_icount a, a_regs a)) (isa_run (\<lambda>p. p = CODE_SEG_BASE) n (start_arch CODE_SEG_BASE sim)))"

lemma test_simulate_isa:
  assumes fresh: "fresh_sim sim" and isa: "isa_result n code sim = Some (SIM_EXIT, cnt, regs)"
  shows "test_result (test_simulate n demo_mm code sim) = Some (OK, cnt, regs)"
proof -
  from isa obtain sim1 a where load: "test_load demo_mm code sim = Inr sim1"
    and run: "isa_run (\<lambda>p. p = CODE_SEG_BASE) n (start_arch CODE_SEG_BASE sim1) = Some (SIM_EXIT, a)"
    and a: "a_icount a = cnt" "a_regs a = regs"
    by (auto simp: isa_result_def split: sum.splits)
  have sim: "sim = demo_sim0\<lparr>m_phys_memory := m_phys_memory sim\<rparr>" and pm: "pm_inv demo_mm (m_phys_memory sim)"
    using fresh by (auto simp: fresh_sim_def)
  have "fresh_sim sim1"
    using test_load_inv [OF demo_mm_contract pm load] sim unfolding fresh_sim_def by (metis Simulator.surjective Simulator.update_convs(1))
  from simulate_isa [OF fresh_sim_ok [OF this] run] obtain sim' where
    "simulate n CODE_SEG_BASE sim1 = Some (Inr (OK, sim'))" and "arch sim' = a" by auto
  then show ?thesis using load a by (auto simp: test_simulate_def test_result_def)
qed

section \<open>The tests\<close>

lemma isa_ecall: "isa_result 2 test_ecall demo_sim0 = Some (SIM_EXIT, 2, (replicate 32 0)[17 := 93])"
  by code_simp

lemma isa_addSub: "isa_result 6 test_addSub demo_sim0 = Some (SIM_EXIT, 6, (replicate 32 0)[10 := - 20, 11 := 10, 17 := 93])"
  by code_simp

lemma isa_cycle: "isa_result 26 test_cycle demo_sim0 = Some (SIM_EXIT, 26, (replicate 32 0)[5 := 5, 6 := 5, 10 := 10, 17 := 93])"
  by code_simp

lemma isa_loadStore:
  "isa_result 9 test_loadStore data_sim = Some (SIM_EXIT, 9, (replicate 32 0)[10 := 0x1BF, 11 := 0x600000000B, 12 := 0x1BF, 17 := 93])"
  by code_simp

text \<open>
  The four programs of the simulator's unit tests run as the tests expect: exit status, instruction
  count, and all registers at the end.
\<close>

theorem simulator_tests:
  "test_result (test_simulate 2 demo_mm test_ecall demo_sim0) = Some (OK, 2, (replicate 32 0)[17 := 93]) \<and>
   test_result (test_simulate 6 demo_mm test_addSub demo_sim0) = Some (OK, 6, (replicate 32 0)[10 := - 20, 11 := 10, 17 := 93]) \<and>
   test_result (test_simulate 26 demo_mm test_cycle demo_sim0) = Some (OK, 26, (replicate 32 0)[5 := 5, 6 := 5, 10 := 10, 17 := 93]) \<and>
   test_result (test_simulate 9 demo_mm test_loadStore data_sim) =
     Some (OK, 9, (replicate 32 0)[10 := 0x1BF, 11 := 0x600000000B, 12 := 0x1BF, 17 := 93])"
  using test_simulate_isa [OF demo_sim0_fresh isa_ecall] test_simulate_isa [OF demo_sim0_fresh isa_addSub]
    test_simulate_isa [OF demo_sim0_fresh isa_cycle] test_simulate_isa [OF data_sim_fresh isa_loadStore]
  by simp

text \<open>The machine of the second test just before it runs, and its run.\<close>

definition addSub_sim :: Simulator where
  "addSub_sim = projr (test_load demo_mm test_addSub demo_sim0)"

lemma addSub_sim_fresh: "fresh_sim addSub_sim"
proof -
  have "\<not> isl (test_load demo_mm test_addSub demo_sim0)" by code_simp
  then have load: "test_load demo_mm test_addSub demo_sim0 = Inr addSub_sim" unfolding addSub_sim_def by (rule Inr_projr)
  from test_load_fresh [OF load] show ?thesis .
qed

lemma addSub_run:
  "\<exists>a. isa_run (\<lambda>p. p = CODE_SEG_BASE) 6 (start_arch CODE_SEG_BASE addSub_sim) = Some (SIM_EXIT, a) \<and> a_regs a ! 10 = - 20"
proof -
  have "case isa_run (\<lambda>p. p = CODE_SEG_BASE) 6 (start_arch CODE_SEG_BASE addSub_sim) of
      Some (s, a) \<Rightarrow> s = SIM_EXIT \<and> a_regs a ! 10 = - 20 | None \<Rightarrow> False" by code_simp
  then show ?thesis by (auto split: option.splits)
qed

text \<open>The same machine with a log, and the log of its run.\<close>

definition addSub_logged :: Simulator where
  "addSub_logged = addSub_sim\<lparr>m_log := Some []\<rparr>"

definition addSub_log :: "LogLine list" where
  "addSub_log =
     [LogInstr 0x5000000000 ''ADDIW'', LogGpr 11 10, LogInstr 0x5000000004 ''ADDIW'', LogGpr 10 20,
      LogInstr 0x5000000008 ''ADDW'', LogGpr 10 30, LogInstr 0x500000000C ''SUBW'', LogGpr 10 (- 20),
      LogInstr 0x5000000010 ''ADDIW'', LogGpr 17 93, LogInstr 0x5000000014 ''ECALL'']"

lemma addSub_logged_ok: "sim_inv addSub_logged" "coherent X addSub_logged" "m_log addSub_logged = Some []"
proof -
  show "sim_inv addSub_logged" using fresh_sim_ok(1) [OF addSub_sim_fresh] by (simp add: addSub_logged_def)
  have "m_bb_cache addSub_sim = BbCache_new 7"
    using addSub_sim_fresh Simulator_new_fields(6) [OF demo_sim0_new] by (metis fresh_sim_def Simulator.select_convs(6) Simulator.surjective Simulator.update_convs(1))
  then show "coherent X addSub_logged" by (intro BbCache_new_coherent [where k = 7]) (simp add: addSub_logged_def)
  show "m_log addSub_logged = Some []" by (simp add: addSub_logged_def)
qed

lemma addSub_logged_run:
  "\<exists>sim'. simulate 6 CODE_SEG_BASE addSub_logged = Some (Inr (OK, sim')) \<and> m_log sim' = Some addSub_log"
proof -
  have "case isa_run (\<lambda>p. p = CODE_SEG_BASE) 6 (start_arch CODE_SEG_BASE addSub_logged) of
      Some (s, a) \<Rightarrow> s = SIM_EXIT \<and> a_log a = Some addSub_log | None \<Rightarrow> False" by code_simp
  then obtain a where run: "isa_run (\<lambda>p. p = CODE_SEG_BASE) 6 (start_arch CODE_SEG_BASE addSub_logged) = Some (SIM_EXIT, a)"
    and log: "a_log a = Some addSub_log" by (auto split: option.splits)
  from simulate_isa [OF addSub_logged_ok(1,2) run] obtain sim' where
    "simulate 6 CODE_SEG_BASE addSub_logged = Some (Inr (OK, sim'))" "arch sim' = a" by auto
  with log show ?thesis by (metis arch_simps(6))
qed

text \<open>Its text, as \<^verbatim>\<open>log.txt\<close> holds it.\<close>

lemma addSub_log_text:
  "log_text (take 4 addSub_log) =
     ''5000000000: ADDIW'' @ endl @ tab @ ''Reg [0b] <= a'' @ endl @
     ''5000000004: ADDIW'' @ endl @ tab @ ''Reg [0a] <= 14'' @ endl"
  by (simp add: log_text_def addSub_log_def hex_text_def hex_nat.simps hex_digits_def setw_def LOG_REG_ID_FILL_def)

section \<open>A program that does not end\<close>

text \<open>The jump to itself: every step leads back to the same state, but for the instruction count.\<close>

definition test_endless :: "InstrCode list" where "test_endless = [0x0000006f]"

definition endless_sim :: Simulator where
  "endless_sim = projr (test_load demo_mm test_endless demo_sim0)"

abbreviation endless_start :: Arch where
  "endless_start \<equiv> start_arch CODE_SEG_BASE endless_sim"

lemma endless_sim_fresh: "fresh_sim endless_sim"
proof -
  have "\<not> isl (test_load demo_mm test_endless demo_sim0)" by code_simp
  then have load: "test_load demo_mm test_endless demo_sim0 = Inr endless_sim" unfolding endless_sim_def by (rule Inr_projr)
  from test_load_fresh [OF load] show ?thesis .
qed

lemma decode_endless: "decode 0x6f = Inr \<lparr>m_id = I_JAL, m_rd = 0, m_rs1 = 0, m_rs2 = 0, m_imm = 0, m_rm = 0\<rparr>"
  by code_simp

lemma icount_irrelevant [simp]:
  "window_ok (a\<lparr>a_icount := i\<rparr>) = window_ok a" "code_at X va (a\<lparr>a_icount := i\<rparr>) = code_at X va a"
  "isa_fetch va (a\<lparr>a_icount := i\<rparr>) = isa_fetch va a"
  by (simp_all add: window_ok_def code_at_def isa_fetch_def a_translate_def cong: if_cong)

lemma endless_facts:
  "window_ok endless_start" "code_at (\<lambda>p. p = CODE_SEG_BASE) CODE_SEG_BASE endless_start"
  "isa_fetch CODE_SEG_BASE endless_start = Inr (OK, 0x6f)" "a_regs endless_start = replicate 32 0"
  "a_pc endless_start = CODE_SEG_BASE" "a_log endless_start = None" "CODE_SEG_BASE AND 3 = 0"
  by code_simp+

lemma endless_step:
  "isa_step (\<lambda>p. p = CODE_SEG_BASE) (endless_start\<lparr>a_icount := i\<rparr>) = Goes (endless_start\<lparr>a_icount := i + 1\<rparr>)"
proof -
  have regs: "(replicate 32 (0 :: 64 word))[0 := 0] = replicate 32 0" by (simp add: list_update_same_conv)
  have "\<exists>b. isa_step (\<lambda>p. p = CODE_SEG_BASE) (endless_start\<lparr>a_icount := i\<rparr>) = Goes b \<and> b = endless_start\<lparr>a_icount := i + 1\<rparr>"
    by (simp add: isa_step_def endless_facts decode_endless isa_exec_def isa_body_def isa_jump_def a_put_def a_jump_def
        a_emit_def a_set_def advance_def Let_def)
      (rule Arch.equality; simp add: endless_facts regs)
  then show ?thesis by simp
qed

lemma endless_reaches:
  "isa_reaches (\<lambda>p. p = CODE_SEG_BASE) n a b \<Longrightarrow> a = endless_start\<lparr>a_icount := i\<rparr> \<Longrightarrow> \<exists>j. b = endless_start\<lparr>a_icount := j\<rparr>"
proof (induction arbitrary: i rule: isa_reaches.induct)
  case (further a b n c)
  then have "b = endless_start\<lparr>a_icount := i + 1\<rparr>" by (simp add: endless_step)
  with further.IH show ?case by blast
qed blast

lemma endless_defined: "isa_defined (\<lambda>p. p = CODE_SEG_BASE) endless_start"
proof -
  have "endless_start = endless_start\<lparr>a_icount := a_icount endless_start\<rparr>" by simp
  from endless_reaches [OF _ this] show ?thesis unfolding isa_defined_def using endless_step by fastforce
qed

lemma endless_run: "isa_run (\<lambda>p. p = CODE_SEG_BASE) n endless_start = None"
proof -
  have "isa_run (\<lambda>p. p = CODE_SEG_BASE) n (endless_start\<lparr>a_icount := i\<rparr>) = None" for i
    by (induction n arbitrary: i) (simp_all add: endless_step)
  from this [of "a_icount endless_start"] show ?thesis by simp
qed

text \<open>A program whose second instruction is in the description of the decoder but has no handler.\<close>

definition test_mul :: "InstrCode list" where "test_mul = [0x05d0089b, 0x02000033]"

definition mul_sim :: Simulator where
  "mul_sim = projr (test_load demo_mm test_mul demo_sim0)"

lemma mul_sim_fresh: "fresh_sim mul_sim"
proof -
  have "\<not> isl (test_load demo_mm test_mul demo_sim0)" by code_simp
  then have load: "test_load demo_mm test_mul demo_sim0 = Inr mul_sim" unfolding mul_sim_def by (rule Inr_projr)
  from test_load_fresh [OF load] show ?thesis .
qed

lemma mul_reached:
  "\<exists>b. isa_reaches (\<lambda>p. p = CODE_SEG_BASE) 1 (start_arch CODE_SEG_BASE mul_sim) b \<and> window_ok b \<and>
     code_at (\<lambda>p. p = CODE_SEG_BASE) (a_pc b) b \<and> isa_fetch (a_pc b) b = Inr (OK, 0x02000033)"
proof -
  have "case isa_step (\<lambda>p. p = CODE_SEG_BASE) (start_arch CODE_SEG_BASE mul_sim) of
      Goes b \<Rightarrow> window_ok b \<and> code_at (\<lambda>p. p = CODE_SEG_BASE) (a_pc b) b \<and> isa_fetch (a_pc b) b = Inr (OK, 0x02000033)
    | _ \<Rightarrow> False" by code_simp
  then obtain b where b: "isa_step (\<lambda>p. p = CODE_SEG_BASE) (start_arch CODE_SEG_BASE mul_sim) = Goes b"
      "window_ok b" "code_at (\<lambda>p. p = CODE_SEG_BASE) (a_pc b) b" "isa_fetch (a_pc b) b = Inr (OK, 0x02000033)"
    by (auto split: isa_out.splits)
  from b show ?thesis by auto
qed

end
