(* ===== verification/AppSpec.thy ===== *)
theory AppSpec
  imports SimApp SimRefine
begin

text \<open>
  The whole program: \<open>main\<close> builds a machine that holds the segments of the file, a stack of zeros and
  a stack pointer at its end, and runs it. Everything before meets here: that the loader succeeds, what it
  leaves in memory, and that the simulator does what the reference machine does.
\<close>

section \<open>Starting\<close>

text \<open>The image that user code of the simulated machine sees.\<close>

abbreviation sim_sees :: "Simulator \<Rightarrow> VirtAddr \<Rightarrow> byte option \<Rightarrow> bool" where
  "sim_sees sim \<equiv> user_sees (m_mstatus64 (m_csr_file (m_hart sim))) (m_satp64 (m_csr_file (m_hart sim))) (m_phys_memory sim)"

definition on_stack :: "VirtAddr \<Rightarrow> bool" where
  "on_stack a \<longleftrightarrow> DEFAULT_STACK_BASE - DEFAULT_STACK_SIZE \<le> a div PAGE_SIZE \<and> a div PAGE_SIZE < DEFAULT_STACK_BASE"

lemma ElfLoader_new_stack:
  assumes "ElfLoader_new mm pm = Inr (l, pm')"
  shows "m_stack_base l = DEFAULT_STACK_BASE" "m_stack_size l = DEFAULT_STACK_SIZE" "m_vpn_map l = Map.empty"
  using assms by (auto simp: ElfLoader_new_def Let_def res_simps)

lemma app_setup_loaded:
  assumes mm: "mmap_contract mm" and elf: "elf_ok elf" and fuel: "load_fuel \<le> 2 ^ 27"
    and start: "app_setup load_fuel log_enable mm elf = Some (Inr (pc, sim))"
  shows "sim_inv sim \<and> coherent X sim \<and> m_gpr (m_gpr_file (m_hart sim)) = (replicate 32 0)[2 := 2 ^ 40] \<and>
    (\<exists>num buf. elf_ehdr elf = Some (num, pc) \<and> elf_buf elf = Some buf \<and>
       (\<forall>i seg a. i < unat num \<and> load_seg elf i seg \<and> on_seg_page seg a \<longrightarrow> sim_sees sim a (seg_byte buf seg a))) \<and>
    (\<forall>a. on_stack a \<longrightarrow> sim_sees sim a (Some 0))"
proof -
  from start obtain sim0 l0 pm0 top l1 pm1 g l2 pm2 where
    new: "Simulator_new mm (if log_enable then Some [] else None) = Inr sim0" and loader: "ElfLoader_new mm (m_phys_memory sim0) = Inr (l0, pm0)"
    and stack: "mapStack mm l0 pm0 = Inr ((OK, top), l1, pm1)"
    and g: "GPRFile_write SP top (m_gpr_file (m_hart sim0)) = Inr g"
    and load: "loadElf load_fuel mm elf l1 pm1 = Some (Inr ((OK, pc), l2, pm2))"
    and sim: "sim = sim0\<lparr>m_hart := (m_hart sim0)\<lparr>m_gpr_file := g,
        m_csr_file := CSRFile_set_satp (SATP64_setMODE SV39 \<lparr>m_mode = BARE, m_asid = 0, m_ppn = 0\<rparr>) (m_csr_file (m_hart sim0))\<rparr>,
        m_phys_memory := pm2\<rparr>"
    by (rule app_setup_steps)
  note f = Simulator_new_fields [OF new] and st = ElfLoader_new_stack [OF loader]
  have size: "unat (m_stack_size l0) = 4096" "m_stack_size l0 \<le> m_stack_base l0"
    by (simp_all add: st DEFAULT_STACK_SIZE_def DEFAULT_STACK_BASE_def)
  have inv0: "loader_inv mm 16 l0 pm0" using ElfLoader_new_inv [OF mm conjunct1 [OF PhysMemory_new_inv [OF f(1)]] loader] .
  have inv1: "loader_inv mm 4112 l1 pm1" using mapStack_inv [OF mm inv0 _ stack] size by simp
  have inv2: "loader_inv mm (4112 + 2 ^ 16 * load_fuel) l2 pm2" using loadElf_inv [OF mm inv1 _ load] fuel by simp
  have "16 + unat (m_stack_size l0) \<le> 2 ^ 44" using size by simp
  note s = mapStack_loaded [OF mm inv0 this loaded_empty [OF st(3)] size(2) stack, unfolded st]
  have "4112 + 2 ^ 16 * load_fuel \<le> 2 ^ 44" using fuel by simp
  from loadElf_loaded [OF mm elf inv1 this conjunct1 [OF s] load] obtain num buf where
    ld: "loaded l2 pm2" and hdr: "elf_ehdr elf = Some (num, pc)" "elf_buf elf = Some buf"
    and segs: "segs_loaded elf buf (elf_headers elf) (ubyte l1 pm1) (ubyte l2 pm2)" by blast
  have satp: "mapper_satp (m_mapper l2) (m_satp64 (m_csr_file (m_hart sim)))"
    using inv2 by (simp add: mapper_satp_def loader_inv_def sim CSRFile_set_satp_def SATP64_setMODE_def)
  have see: "ubyte l2 pm2 a = Some b \<Longrightarrow> sim_sees sim a (Some b)" for a b
    using loaded_visible [OF ld satp] by (simp add: sim)
  have "sim_sees sim a (seg_byte buf seg a)" if "i < unat num" "load_seg elf i seg" "on_seg_page seg a" for i seg a
  proof -
    have "ubyte l2 pm2 a = seg_byte buf seg a" using segs that hdr unfolding segs_loaded_def elf_headers_def by blast
    moreover obtain b where "seg_byte buf seg a = Some b" using seg_byte_some by blast
    ultimately show ?thesis using see by simp
  qed
  moreover have "sim_sees sim a (Some 0)" if "on_stack a" for a
  proof -
    have "ubyte l1 pm1 a = Some 0" using s that by (simp add: on_stack_def)
    then have "ubyte l2 pm2 a = Some 0" using segs unfolding segs_loaded_def by (metis option.distinct(1))
    then show ?thesis by (rule see)
  qed
  moreover have "m_gpr (m_gpr_file (m_hart sim)) = (replicate 32 0)[2 := 2 ^ 40]"
  proof -
    have "top = 2 ^ 40"
      using s by (simp add: DEFAULT_STACK_BASE_def PAGE_SIZE_def)
    then have "g = \<lparr>m_gpr = (replicate 32 0)[2 := 2 ^ 40, 0 := 0]\<rparr>"
      using g f(2) by (simp add: Hart_new_def GPRFile_init_def GPRFile_write_ok SP_def GPR_NUMBER_def)
    moreover have "(replicate 32 (0 :: RegValue))[2 := 2 ^ 40, 0 := 0] = (replicate 32 0)[2 := 2 ^ 40]"
      by (simp add: list_eq_iff_nth_eq nth_list_update)
    ultimately show ?thesis by (simp add: sim)
  qed
  moreover have "coherent X sim" using f(6) by (intro BbCache_new_coherent) (simp add: sim)
  ultimately show ?thesis using app_setup_inv [OF mm fuel start] hdr by blast
qed

text \<open>The start succeeds.\<close>

lemma Simulator_new_total:
  assumes "memory_for mm n"
  shows "\<exists>sim. Simulator_new mm log = Inr sim \<and> alloc_count (m_page_allocator (m_ram (m_phys_memory sim))) 0"
proof -
  have "mmap_grants mm (4096 * 4096)" using memory_for_mono [OF assms, of 0] by (simp add: memory_for_def)
  from PhysMemory_new_count [OF this] show ?thesis by (auto simp: Simulator_new_def)
qed

text \<open>The pages of the stack modulo \<open>2 ^ 27\<close>.\<close>

definition stack_pages :: "nat set" where
  "stack_pages = {134213632..<134217728}"

definition program_fits :: "mmap_fn \<Rightarrow> nat \<Rightarrow> ElfInput \<Rightarrow> byte list \<Rightarrow> 16 word \<Rightarrow> 64 word \<Rightarrow> bool" where
  "program_fits mm load_fuel elf buf num entry \<longleftrightarrow>
     elf_readable elf buf num entry \<and> segs_fit elf (length buf) 0 (unat num) stack_pages \<and>
     segs_pages elf 0 (unat num) < load_fuel \<and> memory_for mm (4112 + segs_pages elf 0 (unat num))"

lemma app_setup_total:
  assumes fits: "program_fits mm load_fuel elf buf num entry"
  shows "\<exists>sim. app_setup load_fuel log_enable mm elf = Some (Inr (entry, sim))"
proof -
  have mem: "memory_for mm (4112 + segs_pages elf 0 (unat num))" using fits by (simp add: program_fits_def)
  then have m16: "memory_for mm 16" and m4112: "memory_for mm 4112" by (auto intro: memory_for_mono)
  obtain sim0 where new: "Simulator_new mm (if log_enable then Some [] else None) = Inr sim0"
    and cnt: "alloc_count (m_page_allocator (m_ram (m_phys_memory sim0))) 0" using Simulator_new_total [OF mem] by blast
  note f = Simulator_new_fields [OF new]
  obtain l0 pm0 where loader: "ElfLoader_new mm (m_phys_memory sim0) = Inr (l0, pm0)" "ready mm l0 pm0" "pages_of l0 = {}"
      "m_next_map_ppn l0 = 16" "m_stack_base l0 = DEFAULT_STACK_BASE" "m_stack_size l0 = DEFAULT_STACK_SIZE"
    using new_loader_ready [OF m16 f(1) cnt] by blast
  obtain l1 pm1 where stack: "mapStack mm l0 pm0 = Inr ((OK, 2 ^ 40), l1, pm1)" "ready mm l1 pm1"
      "pages_of l1 = stack_pages" "m_next_map_ppn l1 = 4112"
    using mapStack_ready [OF loader(2-6) m4112] unfolding stack_pages_def by blast
  have "unat (m_next_map_ppn l1) = 4112" using stack(4) by simp
  with loadElf_ready [OF stack(2), of elf buf num entry load_fuel] fits stack(3) obtain l2 pm2 where
    load: "loadElf load_fuel mm elf l1 pm1 = Some (Inr ((OK, entry), l2, pm2))" by (auto simp: program_fits_def)
  have "SP < GPR_NUMBER" by (simp add: SP_def GPR_NUMBER_def)
  with new loader(1) stack(1) load show ?thesis by (simp add: app_setup_def GPRFile_write_ok Let_def)
qed

lemma segs_fit_ok: "segs_fit elf len i k D \<Longrightarrow> i \<le> j \<Longrightarrow> j < i + k \<Longrightarrow> load_seg elf j seg \<Longrightarrow> seg_ok seg"
proof (induction k arbitrary: i D)
  case (Suc k)
  then obtain s where s: "elf_phdr elf i = Some s" by (auto split: option.splits)
  show ?case
  proof (cases "j = i")
    case True
    then show ?thesis using Suc.prems s by (simp add: load_seg_def)
  next
    case False
    then show ?thesis using Suc s by (auto split: if_splits)
  qed
qed simp

lemma program_fits_ok: "program_fits mm load_fuel elf buf num entry \<Longrightarrow> elf_ok elf"
  using segs_fit_ok [of elf "length buf" 0 "unat num"]
  by (auto simp: program_fits_def elf_ok_def elf_headers_def elf_readable_def)

section \<open>The whole program\<close>

text \<open>The machine that \<open>main\<close> starts for a file, as the file describes it.\<close>

definition started :: "ElfInput \<Rightarrow> byte list \<Rightarrow> 16 word \<Rightarrow> Simulator \<Rightarrow> bool" where
  "started elf buf num sim \<longleftrightarrow> sim_inv sim \<and>
     m_gpr (m_gpr_file (m_hart sim)) = (replicate 32 0)[2 := 2 ^ 40] \<and>
     (\<forall>i seg a. i < unat num \<and> load_seg elf i seg \<and> on_seg_page seg a \<longrightarrow> sim_sees sim a (seg_byte buf seg a)) \<and>
     (\<forall>a. on_stack a \<longrightarrow> sim_sees sim a (Some 0))"

lemma app_started:
  assumes "program_fits mm load_fuel elf buf num entry" and "load_fuel \<le> 2 ^ 27"
  shows "\<exists>sim. app_setup load_fuel log_enable mm elf = Some (Inr (entry, sim)) \<and> started elf buf num sim \<and> coherent X sim"
proof -
  obtain sim where start: "app_setup load_fuel log_enable mm elf = Some (Inr (entry, sim))" using app_setup_total [OF assms(1)] by blast
  have "mmap_contract mm" "elf_ehdr elf = Some (num, entry)" "elf_buf elf = Some buf"
    using assms(1) by (auto simp: program_fits_def memory_for_def elf_readable_def)
  with app_setup_loaded [OF _ program_fits_ok [OF assms(1)] assms(2) start, of X] show ?thesis
    using start by (auto simp: started_def)
qed

text \<open>What is printed for a stop of the reference machine.\<close>

definition isa_report :: "SimStatus \<Rightarrow> Arch \<Rightarrow> string" where
  "isa_report s a = report (if s = SIM_EXIT then OK else s) (a_icount a) (a_regs a)"

lemma isa_body_stops: "isa_body X instr a = Stops s a' \<Longrightarrow> s \<noteq> OK"
  by (cases "m_id instr")
    (auto simp: isa_body_def isa_access_def isa_jump_def Let_def split: if_splits sum.splits)

lemma isa_run_status: "isa_run X n a = Some (s, a') \<Longrightarrow> s \<noteq> OK"
proof (induction n arbitrary: a)
  case (Suc n)
  have "isa_step X a = Stops st b \<Longrightarrow> st \<noteq> OK" for st b
    by (auto simp: isa_step_def isa_exec_def dest: isa_body_stops split: if_splits sum.splits)
  with Suc show ?case by (auto split: isa_out.splits)
qed simp

lemma sim_app_main_isa:
  assumes start: "app_setup load_fuel log_enable mm elf = Some (Inr (entry, sim))" and "sim_inv sim" and "coherent X sim"
    and run: "isa_run X n (start_arch entry sim) = Some (s, a')"
  shows "\<exists>sim'. sim_app_main load_fuel n log_enable mm 2 elf = Some (Inr (if s = SIM_EXIT then 0 else - 1, isa_report s a', sim')) \<and> arch sim' = a'"
proof -
  from simulate_isa [OF assms(2,3) run] obtain sim' where
    sim: "simulate n entry sim = Some (Inr (if s = SIM_EXIT then OK else s, sim'))" and a': "arch sim' = a'" by blast
  have "m_icount sim' = a_icount a'" "m_gpr (m_gpr_file (m_hart sim')) = a_regs a'" by (simp_all flip: a')
  then show ?thesis
    using start sim a' isa_run_status [OF run] by (simp add: sim_app_main_def app_report_ok isa_report_def)
qed

text \<open>
  C1: the whole program. For a file that fits, \<open>main\<close> starts a machine at the entry point whose memory
  holds the segments of the file and a stack of zeros and whose registers are zero but for the stack
  pointer; and whenever the reference machine, started in that state, stops, \<open>main\<close> ends too, in the
  reference machine's last state, with exit code 0 exactly if the machine stopped by an exit, and prints
  the registers and the instruction count of that state. If the machine runs forever without anything
  undefined, so does \<open>main\<close>.
\<close>

theorem sim_app_correct:
  assumes "program_fits mm load_fuel elf buf num entry" and "load_fuel \<le> 2 ^ 27"
  shows "\<exists>sim. app_setup load_fuel log_enable mm elf = Some (Inr (entry, sim)) \<and> started elf buf num sim \<and>
    (\<forall>n s a'. isa_run X n (start_arch entry sim) = Some (s, a') \<longrightarrow>
       (\<exists>sim'. sim_app_main load_fuel n log_enable mm 2 elf = Some (Inr (if s = SIM_EXIT then 0 else - 1, isa_report s a', sim')) \<and> arch sim' = a')) \<and>
    (isa_defined X (start_arch entry sim) \<and> (\<forall>n. isa_run X n (start_arch entry sim) = None) \<longrightarrow>
       (\<forall>n. sim_app_main load_fuel n log_enable mm 2 elf = None))"
proof -
  obtain sim where sim: "app_setup load_fuel log_enable mm elf = Some (Inr (entry, sim))" "started elf buf num sim" "coherent X sim"
    using app_started [OF assms] by blast
  have inv: "sim_inv sim" using sim(2) by (simp add: started_def)
  have "simulate n entry sim = None" if "isa_defined X (start_arch entry sim)" "\<forall>n. isa_run X n (start_arch entry sim) = None" for n
    using simulate_isa_stops [OF inv sim(3) that(1)] that(2) by (cases "simulate n entry sim") fastforce+
  then show ?thesis
    using sim sim_app_main_isa [OF sim(1) inv sim(3)] by (intro exI [of _ sim]) (simp add: sim_app_main_def)
qed

end
