(* ===== verification/DemoElf.thy ===== *)
theory DemoElf
  imports DemoMachine AppSpec
begin

text \<open>
  A concrete file for the properties of the loader and of the whole program: one segment at
  \<open>0x10000\<close> that holds the instruction \<^verbatim>\<open>ecall\<close>.
\<close>

definition demo_seg :: GElf_Phdr where
  "demo_seg = \<lparr>p_type = PT_LOAD, p_vaddr = 0x10000, p_memsz = 8, p_offset = 0, p_filesz = 4\<rparr>"

definition demo_buf :: "byte list" where
  "demo_buf = [0x73, 0, 0, 0]"

definition demo_elf :: ElfInput where
  "demo_elf = \<lparr>elf_version_ok = True, elf_open_ok = True, elf_buf = Some demo_buf, elf_begin_ok = True, elf_class = 2,
     elf_ehdr = Some (1, 0x10000), elf_phdr = [0 \<mapsto> demo_seg]\<rparr>"

lemma demo_grants: "memory_for demo_mm n" if "n < 2 ^ 44"
  using that demo_mm_contract by (auto simp: memory_for_def mmap_grants_def demo_mm_def)

lemma demo_span: "seg_span demo_seg = {16}"
proof -
  have "page_base 0x10000 = (0x10000 :: 64 word)" by (simp add: PAGE_OFFSET_MASK_def PAGE_SIZE_def)
  then have "seg_span demo_seg = {v. 16 \<le> v \<and> v * 4096 < 65544}" by (simp add: seg_span_def span_def demo_seg_def)
  also have "\<dots> = {16}" by auto
  finally show ?thesis .
qed

lemma demo_seg_ok: "seg_ok demo_seg"
  by (simp add: seg_ok_def demo_seg_def)

lemma demo_fits: "fits stack_pages {16}" "fits {} {16}"
proof -
  have "(\<lambda>d. d div 512) ` insert 16 stack_pages \<subseteq> insert 0 {262136..<262144}"
    "(\<lambda>d. d div 262144) ` insert 16 stack_pages \<subseteq> {0, 511}" by (auto simp: stack_pages_def)
  then have "card ((\<lambda>d. d div 512) ` insert 16 stack_pages) \<le> card (insert 0 {262136..<262144 :: nat})"
    "card ((\<lambda>d. d div 262144) ` insert 16 stack_pages) \<le> card {0, 511 :: nat}"
    by (intro card_mono; simp)+
  then have "tables_for 3 (insert 16 stack_pages) \<le> 12" by (simp add: tables_for_3)
  then show "fits stack_pages {16}" by (simp add: fits_def stack_pages_def)
  show "fits {} {16}" by (simp add: fits_def tables_for_3)
qed

lemma demo_elf_simps:
  "elf_readable demo_elf demo_buf 1 0x10000" "segs_fit demo_elf (length demo_buf) 0 1 stack_pages"
  "segs_fit demo_elf (length demo_buf) 0 1 {}" "segs_pages demo_elf 0 1 = 1"
proof -
  have one: "(1 :: nat) = Suc 0" by simp
  show "elf_readable demo_elf demo_buf 1 0x10000" by (simp add: elf_readable_def demo_elf_def ELFCLASSNONE_def ELFCLASS32_def)
  have seg: "elf_phdr demo_elf 0 = Some demo_seg" "p_type demo_seg = PT_LOAD" "unat (p_offset demo_seg) + unat (p_filesz demo_seg) \<le> length demo_buf"
    by (simp_all add: demo_elf_def demo_seg_def demo_buf_def)
  show "segs_fit demo_elf (length demo_buf) 0 1 stack_pages" "segs_fit demo_elf (length demo_buf) 0 1 {}"
    "segs_pages demo_elf 0 1 = 1"
    unfolding one using seg demo_seg_ok demo_fits by (simp_all add: demo_span)
qed

lemma demo_program_fits: "program_fits demo_mm 2 demo_elf demo_buf 1 0x10000"
proof -
  have "unat (1 :: 16 word) = 1" by simp
  then show ?thesis using demo_elf_simps demo_grants [of 4113] by (simp add: program_fits_def)
qed

section \<open>The first step of the program\<close>

lemma demo_load_seg: "load_seg demo_elf i seg \<longleftrightarrow> i = 0 \<and> seg = demo_seg"
  by (auto simp: load_seg_def demo_elf_def demo_seg_def)

lemma demo_on_page: "page_base a = 0x10000 \<Longrightarrow> on_seg_page demo_seg a"
proof -
  have "page_base (0x10000 :: 64 word) = 0x10000" by (simp add: PAGE_OFFSET_MASK_def PAGE_SIZE_def)
  moreover assume a: "page_base a = 0x10000"
  moreover have "0x10000 \<le> a"
  proof -
    have "unat (page_base a) \<le> unat a" by (simp add: unat_page_base)
    then show ?thesis using a by (simp add: word_le_nat_alt)
  qed
  ultimately show ?thesis by (simp add: on_seg_page_def demo_seg_def)
qed

lemma demo_on_page_offset: "n < 4096 \<Longrightarrow> page_base (0x10000 + of_nat n) = (0x10000 :: 64 word)"
proof -
  assume n: "n < 4096"
  have 0: "page_offset (0x10000 :: 64 word) = 0" "page_base (0x10000 :: 64 word) = 0x10000"
    by (simp_all add: PAGE_OFFSET_MASK_def PAGE_SIZE_def)
  then show ?thesis using page_base_add [where a = "0x10000" and i = n] n by simp
qed

text \<open>Neighbours in a page translate to neighbours.\<close>

lemma translate_neighbour:
  assumes tr: "translate priv acc va ms satp pm = Inr \<lparr>mmu_status = OK, phys_addr = pa\<rparr>"
    and tr': "translate priv acc (va + of_nat n) ms satp pm = Inr \<lparr>mmu_status = OK, phys_addr = pa'\<rparr>"
    and n: "unat (page_offset va) + n < 4096"
  shows "pa' = pa + of_nat n"
proof -
  note c = tr [unfolded translate_eq] tr' [unfolded translate_eq]
  have page: "page_base (va + of_nat n) = page_base va" using page_base_add [OF n] .
  have "page_base pa' = page_base pa"
    using translate_c_page [of priv acc va ms satp "pm_contents pm"] translate_c_page [of priv acc "va + of_nat n" ms satp "pm_contents pm"] c page
    by simp
  moreover have off: "page_offset pa = page_offset va" "page_offset pa' = page_offset (va + of_nat n)"
    using translate_c_offset c by fastforce+
  moreover have "page_offset (va + of_nat n) = page_offset va + of_nat n" using page_offset_add [OF n] .
  ultimately show ?thesis
    using page_base_plus_offset [of pa] page_base_plus_offset [of pa'] by (metis add.assoc)
qed

lemma demo_sees:
  assumes "started demo_elf demo_buf 1 sim"
  obtains pa where "\<And>acc n. n < 4096 \<Longrightarrow> a_translate acc (0x10000 + of_nat n) (start_arch pc sim) = Inr \<lparr>mmu_status = OK, phys_addr = pa + of_nat n\<rparr>"
    and "a_mem (start_arch pc sim) pa = Some 0x73" "a_mem (start_arch pc sim) (pa + 1) = Some 0"
      "a_mem (start_arch pc sim) (pa + 2) = Some 0" "a_mem (start_arch pc sim) (pa + 3) = Some 0"
proof -
  let ?ms = "m_mstatus64 (m_csr_file (m_hart sim))" and ?satp = "m_satp64 (m_csr_file (m_hart sim))" and ?pm = "m_phys_memory sim"
  have one: "0 < unat (1 :: 16 word)" by simp
  have sees: "sim_sees sim (0x10000 + of_nat n) (seg_byte demo_buf demo_seg (0x10000 + of_nat n))" if "n < 4096" for n
    using assms one demo_on_page [OF demo_on_page_offset [OF that]] unfolding started_def demo_load_seg by blast
  from sees [of 0] obtain pa where pa: "\<And>acc. translate USER acc 0x10000 ?ms ?satp ?pm = Inr \<lparr>mmu_status = OK, phys_addr = pa\<rparr>"
    by (auto simp: user_sees_def)
  have at: "translate USER acc (0x10000 + of_nat n) ?ms ?satp ?pm = Inr \<lparr>mmu_status = OK, phys_addr = pa + of_nat n\<rparr> \<and>
      pm_contents ?pm (pa + of_nat n) = seg_byte demo_buf demo_seg (0x10000 + of_nat n)" if n: "n < 4096" for acc n
  proof -
    from sees [OF n] obtain pa' where pa': "\<And>acc. translate USER acc (0x10000 + of_nat n) ?ms ?satp ?pm = Inr \<lparr>mmu_status = OK, phys_addr = pa'\<rparr>"
      and c: "pm_contents ?pm pa' = seg_byte demo_buf demo_seg (0x10000 + of_nat n)" by (auto simp: user_sees_def)
    have "unat (page_offset 0x10000) + n < 4096" using n by (simp add: PAGE_OFFSET_MASK_def PAGE_SIZE_def)
    from translate_neighbour [OF pa pa' this] pa' c show ?thesis by simp
  qed
  have byte: "seg_byte demo_buf demo_seg (0x10000 + of_nat n) = Some (demo_buf ! n)" if "n < 4" for n
  proof -
    have "unat (0x10000 + of_nat n :: 64 word) = 65536 + n" using that by (simp add: unat_word_ariths unat_of_nat)
    then show ?thesis using that by (simp add: seg_byte_def image_at_def demo_seg_def word_le_nat_alt)
  qed
  show thesis
  proof (rule that)
    show "a_translate acc (0x10000 + of_nat n) (start_arch pc sim) = Inr \<lparr>mmu_status = OK, phys_addr = pa + of_nat n\<rparr>"
      if "n < 4096" for acc n using at [OF that] by (simp add: start_arch_def a_translate_def arch_def translate_eq)
    show "a_mem (start_arch pc sim) pa = Some 0x73" "a_mem (start_arch pc sim) (pa + 1) = Some 0"
      "a_mem (start_arch pc sim) (pa + 2) = Some 0" "a_mem (start_arch pc sim) (pa + 3) = Some 0"
      using at [of 0] at [of 1] at [of 2] at [of 3] byte [of 0] byte [of 1] byte [of 2] byte [of 3]
      by (simp_all add: start_arch_def arch_def demo_buf_def)
  qed
qed

lemma demo_decode: "\<exists>instr. decode 0x73 = Inr instr \<and> m_id instr = I_ECALL"
proof -
  have "\<not> isl (decode 0x73)" "m_id (projr (decode 0x73)) = I_ECALL" by code_simp+
  then show ?thesis by (metis Inr_projr)
qed

lemma demo_run:
  assumes "started demo_elf demo_buf 1 sim"
  shows "\<exists>a'. isa_run (\<lambda>_. True) 1 (start_arch 0x10000 sim) = Some (SIM_EXIT, a')"
proof -
  let ?a = "start_arch 0x10000 sim"
  obtain pa where tr: "\<And>acc n. n < 4096 \<Longrightarrow> a_translate acc (0x10000 + of_nat n) ?a = Inr \<lparr>mmu_status = OK, phys_addr = pa + of_nat n\<rparr>"
    and mem: "a_mem ?a pa = Some 0x73" "a_mem ?a (pa + 1) = Some 0" "a_mem ?a (pa + 2) = Some 0" "a_mem ?a (pa + 3) = Some 0"
    by (rule demo_sees [OF assms, where pc = "0x10000"]) (rule that)
  have pc: "a_pc ?a = 0x10000" by (simp add: start_arch_def)
  have tr0: "a_translate acc 0x10000 ?a = Inr \<lparr>mmu_status = OK, phys_addr = pa\<rparr>" for acc using tr [of 0] by simp
  have "page_base (0x10000 + 4 * of_nat j) \<noteq> POISON_VA \<and> \<not> isl (a_translate FETCH (0x10000 + 4 * of_nat j) ?a)" if "j < 15" for j
  proof -
    have "0x10000 + 4 * of_nat j = (0x10000 + of_nat (4 * j) :: 64 word)" by simp
    moreover have "4 * j < 4096" using that by simp
    ultimately show ?thesis using tr [of "4 * j"] demo_on_page_offset [of "4 * j"] by (simp add: POISON_VA_def)
  qed
  then have "window_ok ?a" by (simp add: window_ok_def pc list_all_iff Let_def)
  moreover have "code_at (\<lambda>_. True) 0x10000 ?a" by (simp add: code_at_def tr0)
  moreover have "isa_fetch 0x10000 ?a = Inr (OK, 0x73)"
  proof -
    have "[0..<32 div 8] = [0, 1, 2, 3 :: nat]" by (simp add: upt_conv_Cons)
    then have "mem_word (a_mem ?a) pa = (0x73 :: 32 word)" using mem by (simp add: mem_word_def)
    then show ?thesis using tr0 mem by (simp add: isa_fetch_def)
  qed
  moreover from demo_decode obtain instr where "decode 0x73 = Inr instr" "m_id instr = I_ECALL" by blast
  ultimately show ?thesis by (simp add: isa_step_def pc isa_exec_def isa_body_def Let_def)
qed

end
