(* ===== verification/HostMem.thy ===== *)
theory HostMem
  imports PhysMem
begin

text \<open>
  The life of host memory: the destructor and the moves of \<open>MMap\<close> in
  \<^verbatim>\<open>memory/include/sim/memory/phys_memory.hpp\<close>, the \<^verbatim>\<open>std::vector\<close> of the page allocator that moves its
  elements when it grows, and the allocator at the level of these objects, with a list of the calls of
  \<open>mmap\<close> and \<open>munmap\<close>. \<open>PhysMem\<close> models the same allocator without object lifetimes; here it is
  shown that the two agree, that every block is given back exactly once, at the end, and that every
  page handed out lies inside a block.
\<close>

section \<open>Objects that own a block\<close>

text \<open>A moved-from object has a null pointer.\<close>

record MMapObj =
  o_ppn :: PPN
  o_ptr :: HostPtr

text \<open>The calls of \<open>mmap\<close> that returned a block and the calls of \<open>munmap\<close> so far: address and length.\<close>

record HostCalls =
  hc_mmaps :: "(host_addr \<times> 64 word) list"
  hc_munmaps :: "(host_addr \<times> 64 word) list"

text \<open>The members before a constructor runs.\<close>

definition MMapObj_default :: MMapObj where
  "MMapObj_default = \<lparr>o_ppn = 0, o_ptr = None\<rparr>"

text \<open>The parameter \<open>mm\<close> is asked for the call after those so far, so a call too many would show up in the list.\<close>

definition MMapObj_new :: "mmap_fn \<Rightarrow> PPN \<Rightarrow> HostCalls \<Rightarrow> (MMapObj \<times> HostCalls) res" where
  "MMapObj_new mm ppn h =
     bindR (MMap_new mm (length (hc_mmaps h)) ppn) (\<lambda>m.
     Inr (\<lparr>o_ppn = mm_ppn m, o_ptr = Some (mm_ptr m)\<rparr>,
          h\<lparr>hc_mmaps := hc_mmaps h @ [(mm_ptr m, ppn * PAGE_SIZE)]\<rparr>))"

text \<open>Both moves swap the two members, and return the target and the source.\<close>

definition MMap_move_ctor :: "MMapObj \<Rightarrow> MMapObj \<times> MMapObj" where
  "MMap_move_ctor rhs =
     (let this = MMapObj_default;
          (this, rhs) = (this\<lparr>o_ppn := o_ppn rhs\<rparr>, rhs\<lparr>o_ppn := o_ppn this\<rparr>);
          (this, rhs) = (this\<lparr>o_ptr := o_ptr rhs\<rparr>, rhs\<lparr>o_ptr := o_ptr this\<rparr>)
      in (this, rhs))"

definition MMap_move_assign :: "MMapObj \<Rightarrow> MMapObj \<Rightarrow> MMapObj \<times> MMapObj" where
  "MMap_move_assign this rhs =
     (let (this, rhs) = (this\<lparr>o_ppn := o_ppn rhs\<rparr>, rhs\<lparr>o_ppn := o_ppn this\<rparr>);
          (this, rhs) = (this\<lparr>o_ptr := o_ptr rhs\<rparr>, rhs\<lparr>o_ptr := o_ptr this\<rparr>)
      in (this, rhs))"

definition MMap_dtor :: "MMapObj \<Rightarrow> HostCalls \<Rightarrow> HostCalls" where
  "MMap_dtor obj h =
     (case o_ptr obj of None \<Rightarrow> h | Some p \<Rightarrow> h\<lparr>hc_munmaps := hc_munmaps h @ [(p, o_ppn obj * PAGE_SIZE)]\<rparr>)"

text \<open>
  \<open>emplace_back\<close> of a vector with a capacity. A full vector moves its elements to new storage and
  destroys the old ones; how much it grows is up to the library, and \<open>grow\<close> is any choice.
\<close>

record MMapVec =
  vec_cap :: nat
  vec_elems :: "MMapObj list"

definition vec_emplace_back :: "(nat \<Rightarrow> nat) \<Rightarrow> MMapObj \<Rightarrow> MMapVec \<Rightarrow> HostCalls \<Rightarrow> MMapVec \<times> HostCalls" where
  "vec_emplace_back grow x v h =
     (if length (vec_elems v) < vec_cap v then (v\<lparr>vec_elems := vec_elems v @ [x]\<rparr>, h)
      else
        let moved = map MMap_move_ctor (vec_elems v) in
        (\<lparr>vec_cap = length (vec_elems v) + 1 + grow (vec_cap v), vec_elems = map fst moved @ [x]\<rparr>,
         fold MMap_dtor (map snd moved) h))"

definition vec_dtor :: "MMapVec \<Rightarrow> HostCalls \<Rightarrow> HostCalls" where
  "vec_dtor v h = fold MMap_dtor (vec_elems v) h"

section \<open>The allocator with its objects\<close>

record AllocObj =
  ao_mmaps :: MMapVec
  ao_curr_ppn :: PPN

definition AllocObj_new :: "mmap_fn \<Rightarrow> (nat \<Rightarrow> nat) \<Rightarrow> PPN \<Rightarrow> HostCalls \<Rightarrow> (AllocObj \<times> HostCalls) res" where
  "AllocObj_new mm grow ppn h =
     bindR (SIM_ASSERT (ppn \<noteq> 0)) (\<lambda>_.
     bindR (MMapObj_new mm ppn h) (\<lambda>(m, h).
     let (v, h) = vec_emplace_back grow m \<lparr>vec_cap = 0, vec_elems = []\<rparr> h in
     Inr (\<lparr>ao_mmaps = v, ao_curr_ppn = 0\<rparr>, h)))"

text \<open>The new block is a temporary that the vector moves from; the temporary is destroyed after that.\<close>

definition alloc_obj :: "mmap_fn \<Rightarrow> (nat \<Rightarrow> nat) \<Rightarrow> AllocObj \<Rightarrow> HostCalls \<Rightarrow> (HostPtr \<times> AllocObj \<times> HostCalls) res" where
  "alloc_obj mm grow a h =
     (let ALLOC_FACTOR = 2; end_ppn = o_ppn (last (vec_elems (ao_mmaps a))) in
      bindR (if ao_curr_ppn a = end_ppn then
               (let new_ppn = end_ppn * ALLOC_FACTOR in
                bindR (MMapObj_new mm new_ppn h) (\<lambda>(temp, h).
                let (elem, temp) = MMap_move_ctor temp;
                    (v, h) = vec_emplace_back grow elem (ao_mmaps a) h;
                    h = MMap_dtor temp h
                in Inr (a\<lparr>ao_mmaps := v, ao_curr_ppn := 0\<rparr>, h)))
             else Inr (a, h))
        (\<lambda>(a, h).
          case o_ptr (last (vec_elems (ao_mmaps a))) of
            None \<Rightarrow> Inl NullDeref
          | Some p \<Rightarrow> Inr (Some (ptr_add p (ao_curr_ppn a * PAGE_SIZE)), a\<lparr>ao_curr_ppn := ao_curr_ppn a + 1\<rparr>, h)))"

fun alloc_many :: "nat \<Rightarrow> mmap_fn \<Rightarrow> (nat \<Rightarrow> nat) \<Rightarrow> AllocObj \<Rightarrow> HostCalls \<Rightarrow> (HostPtr list \<times> AllocObj \<times> HostCalls) res" where
  "alloc_many 0 mm grow a h = Inr ([], a, h)"
| "alloc_many (Suc k) mm grow a h =
     bindR (alloc_obj mm grow a h) (\<lambda>(p, a, h).
     bindR (alloc_many k mm grow a h) (\<lambda>(ps, a, h). Inr (p # ps, a, h)))"

text \<open>The life of an allocator: its pages, the calls before its destructor runs, and all calls.\<close>

definition alloc_life :: "mmap_fn \<Rightarrow> (nat \<Rightarrow> nat) \<Rightarrow> nat \<Rightarrow> (HostPtr list \<times> HostCalls \<times> HostCalls) res" where
  "alloc_life mm grow k =
     bindR (AllocObj_new mm grow PPN_16MB \<lparr>hc_mmaps = [], hc_munmaps = []\<rparr>) (\<lambda>(a, h).
     bindR (alloc_many k mm grow a h) (\<lambda>(ps, a, h).
     Inr (ps, h, vec_dtor (ao_mmaps a) h)))"

section \<open>Agreement with the model without objects\<close>

lemma MMap_move_ctor_eq [simp]: "MMap_move_ctor obj = (obj, MMapObj_default)"
  by (simp add: MMap_move_ctor_def MMapObj_default_def)

lemma MMap_move_assign_eq [simp]: "MMap_move_assign this rhs = (rhs, this)"
  by (cases this; cases rhs) (simp add: MMap_move_assign_def)

lemma MMap_dtor_default [simp]: "MMap_dtor MMapObj_default h = h"
  by (simp add: MMap_dtor_def MMapObj_default_def)

lemma fold_dtor_default: "fold MMap_dtor (map (\<lambda>_. MMapObj_default) objs) h = h"
  by (induction objs) simp_all

lemma vec_emplace_back_eq:
  obtains v' where "vec_emplace_back grow x v h = (v', h)" "vec_elems v' = vec_elems v @ [x]"
proof -
  have "fold MMap_dtor (map (snd \<circ> MMap_move_ctor) (vec_elems v)) h = h"
    using fold_dtor_default [of "vec_elems v" h] by (simp add: o_def)
  then show thesis
    using that by (cases "length (vec_elems v) < vec_cap v") (simp_all add: vec_emplace_back_def Let_def o_def)
qed

text \<open>
  Objects that own their blocks, as the records of \<open>PhysMem\<close>; the blocks owned are those that \<open>mmap\<close>
  returned, in their order, and none was given back.
\<close>

definition obj_of :: "MMap \<Rightarrow> MMapObj" where
  "obj_of m = \<lparr>o_ppn = mm_ppn m, o_ptr = Some (mm_ptr m)\<rparr>"

definition region_of :: "MMap \<Rightarrow> host_addr \<times> 64 word" where
  "region_of m = (mm_ptr m, mm_ppn m * PAGE_SIZE)"

definition agrees :: "PageAllocator \<Rightarrow> AllocObj \<Rightarrow> HostCalls \<Rightarrow> bool" where
  "agrees a ao h \<longleftrightarrow> m_mmaps a \<noteq> [] \<and> vec_elems (ao_mmaps ao) = map obj_of (m_mmaps a) \<and> ao_curr_ppn ao = m_curr_ppn a \<and>
     hc_mmaps h = map region_of (m_mmaps a) \<and> hc_munmaps h = []"

lemma MMapObj_new_eq: "MMapObj_new mm ppn h = bindR (MMap_new mm (length (hc_mmaps h)) ppn) (\<lambda>m.
    Inr (obj_of m, h\<lparr>hc_mmaps := hc_mmaps h @ [region_of m]\<rparr>))"
  by (cases "ppn = 0") (auto simp: MMapObj_new_def MMap_new_def SIM_ASSERT_def obj_of_def region_of_def Let_def split: option.split)

lemma AllocObj_new_agrees:
  assumes "AllocObj_new mm grow ppn \<lparr>hc_mmaps = [], hc_munmaps = []\<rparr> = Inr (ao, h)"
  shows "\<exists>a. PageAllocator_new mm ppn = Inr a \<and> agrees a ao h"
proof -
  let ?h = "\<lambda>m. \<lparr>hc_mmaps = [region_of m], hc_munmaps = []\<rparr>"
  from assms obtain m where ppn: "ppn \<noteq> 0" and m: "MMap_new mm 0 ppn = Inr m"
    and rest: "(let (v, h) = vec_emplace_back grow (obj_of m) \<lparr>vec_cap = 0, vec_elems = []\<rparr> (?h m)
      in Inr (\<lparr>ao_mmaps = v, ao_curr_ppn = 0\<rparr>, h)) = (Inr (ao, h) :: (AllocObj \<times> HostCalls) res)"
    by (auto simp: AllocObj_new_def MMapObj_new_eq bindR_eq_Inr_iff)
  from rest obtain v where v: "vec_emplace_back grow (obj_of m) \<lparr>vec_cap = 0, vec_elems = []\<rparr> (?h m) = (v, h)"
    and ao: "ao = \<lparr>ao_mmaps = v, ao_curr_ppn = 0\<rparr>"
    by (auto split: prod.splits)
  have "h = ?h m \<and> vec_elems v = [obj_of m]"
    using vec_emplace_back_eq [of grow "obj_of m" "\<lparr>vec_cap = 0, vec_elems = []\<rparr>" "?h m"] v by auto
  then show ?thesis using ppn m ao by (simp add: PageAllocator_new_def agrees_def)
qed

text \<open>An allocation does the same at both levels and gives nothing back.\<close>

lemma alloc_obj_agrees:
  assumes ag: "agrees a ao h"
  shows "alloc_obj mm grow ao h = Inl e \<Longrightarrow> allocPage mm a = Inl e"
    and "alloc_obj mm grow ao h = Inr (p, ao', h') \<Longrightarrow>
      \<exists>q a'. p = Some q \<and> allocPage mm a = Inr (q, a') \<and> agrees a' ao' h'"
proof -
  let ?elems = "vec_elems (ao_mmaps ao)" and ?last = "last (m_mmaps a)"
  have ne: "m_mmaps a \<noteq> []" and elems: "?elems = map obj_of (m_mmaps a)" and curr: "ao_curr_ppn ao = m_curr_ppn a"
    and maps: "hc_mmaps h = map region_of (m_mmaps a)" "hc_munmaps h = []"
    using ag by (simp_all add: agrees_def)
  have lst: "last ?elems = obj_of ?last" using ne by (simp add: elems last_map)
  let ?new = "MMap_new mm (length (m_mmaps a)) (mm_ppn ?last * 2)"
  have "(\<forall>e. alloc_obj mm grow ao h = Inl e \<longrightarrow> allocPage mm a = Inl e) \<and>
    (\<forall>p ao' h'. alloc_obj mm grow ao h = Inr (p, ao', h') \<longrightarrow>
      (\<exists>q a'. p = Some q \<and> allocPage mm a = Inr (q, a') \<and> agrees a' ao' h'))"
  proof (cases "m_curr_ppn a = mm_ppn ?last")
    case False
    then show ?thesis
      using ne elems curr lst maps by (auto simp: alloc_obj_def allocPage_def obj_of_def agrees_def Let_def)
  next
    case True
    show ?thesis
    proof (cases ?new)
      case (Inl e)
      then show ?thesis
        using True lst curr elems maps by (auto simp: alloc_obj_def allocPage_def MMapObj_new_eq obj_of_def Let_def)
    next
      case (Inr m)
      let ?h = "h\<lparr>hc_mmaps := map region_of (m_mmaps a) @ [region_of m]\<rparr>"
      obtain v where v: "vec_emplace_back grow (obj_of m) (ao_mmaps ao) ?h = (v, ?h)" "vec_elems v = ?elems @ [obj_of m]"
        by (rule vec_emplace_back_eq)
      have "o_ptr (obj_of m) = Some (mm_ptr m)" by (simp add: obj_of_def)
      with Inr True show ?thesis
        using lst curr elems v maps
        by (auto simp: alloc_obj_def allocPage_def MMapObj_new_eq Let_def agrees_def obj_of_def [of ?last])
    qed
  qed
  then show "alloc_obj mm grow ao h = Inl e \<Longrightarrow> allocPage mm a = Inl e"
    and "alloc_obj mm grow ao h = Inr (p, ao', h') \<Longrightarrow>
      \<exists>q a'. p = Some q \<and> allocPage mm a = Inr (q, a') \<and> agrees a' ao' h'" by blast+
qed

text \<open>The sizes of all blocks are powers of two below the size of the address space, so no offset wraps around.\<close>

definition blocks_ok :: "mmap_fn \<Rightarrow> PageAllocator \<Rightarrow> bool" where
  "blocks_ok mm a \<longleftrightarrow> alloc_ok mm a \<and> (\<forall>m\<in>set (m_mmaps a). \<exists>e < 52. mm_ppn m = 2 ^ e)"

lemma allocPage_blocks:
  assumes mm: "mmap_contract mm" and ok: "blocks_ok mm a" and alloc: "allocPage mm a = Inr (p, a')"
  shows "blocks_ok mm a' \<and> \<not> allocated a p \<and> (\<forall>q. allocated a' q \<longleftrightarrow> allocated a q \<or> q = p)"
proof -
  have fresh: "alloc_ok mm a' \<and> \<not> allocated a p \<and> (\<forall>q. allocated a' q \<longleftrightarrow> allocated a q \<or> q = p)"
    using allocPage_fresh [OF mm _ alloc] ok by (simp add: blocks_ok_def)
  moreover have "set (m_mmaps a') \<subseteq> insert (last (m_mmaps a')) (set (m_mmaps a))"
    using alloc by (auto simp: allocPage_def Let_def res_simps split: if_splits)
  ultimately show ?thesis using ok by (auto simp: blocks_ok_def alloc_ok_def)
qed

lemma alloc_many_agrees:
  assumes mm: "mmap_contract mm"
  shows "agrees a ao h \<Longrightarrow> blocks_ok mm a \<Longrightarrow> alloc_many k mm grow ao h = Inr (ps, ao', h') \<Longrightarrow>
    None \<notin> set ps \<and> distinct ps \<and> (\<forall>q. Some q \<in> set ps \<longrightarrow> \<not> allocated a q) \<and>
    (\<exists>a'. agrees a' ao' h' \<and> blocks_ok mm a' \<and> (\<forall>q. allocated a' q \<longleftrightarrow> allocated a q \<or> Some q \<in> set ps))"
proof (induction k arbitrary: a ao ps h)
  case (Suc k)
  from Suc.prems(3) obtain p ao1 h1 ps1 where one: "alloc_obj mm grow ao h = Inr (p, ao1, h1)"
    and many: "alloc_many k mm grow ao1 h1 = Inr (ps1, ao', h')" and ps: "ps = p # ps1"
    by (auto simp: res_simps)
  from alloc_obj_agrees(2) [OF Suc.prems(1) one] obtain q a1 where q: "p = Some q"
    "allocPage mm a = Inr (q, a1)" "agrees a1 ao1 h1" by blast
  from allocPage_blocks [OF mm Suc.prems(2) q(2)] Suc.IH [OF q(3) _ many] show ?case by (auto simp: ps q)
qed auto

lemma alloc_many_length: "alloc_many k mm grow ao h = Inr (ps, ao', h') \<Longrightarrow> length ps = k"
  by (induction k arbitrary: ao h ps) (auto simp: res_simps)

text \<open>A new allocator is well-formed and has handed out nothing.\<close>

lemma PageAllocator_new_ok:
  assumes "PageAllocator_new mm PPN_16MB = Inr a"
  shows "blocks_ok mm a \<and> \<not> allocated a q"
proof -
  have "\<exists>e < 52. (4096 :: 64 word) = 2 ^ e" by (rule exI [of _ 12]) simp
  then show ?thesis
    using assms
    by (auto simp: PageAllocator_new_def PPN_16MB_def res_simps MMap_new_Inr blocks_ok_def alloc_ok_def allocated_def)
qed

lemma vec_dtor_owned:
  "fold MMap_dtor (map obj_of ms) h = h\<lparr>hc_munmaps := hc_munmaps h @ map region_of ms\<rparr>"
  by (induction ms arbitrary: h) (simp_all add: MMap_dtor_def obj_of_def region_of_def)

text \<open>A page with a number below the number of pages of a block ends inside the block.\<close>

lemma page_in_block:
  assumes "ppn = 2 ^ e" and "e < 52" and "j < ppn"
  shows "unat (j * PAGE_SIZE) + 4096 \<le> unat (ppn * PAGE_SIZE)"
proof -
  have "(2 :: nat) ^ e \<le> 2 ^ 51" using assms(2) by (intro power_increasing) auto
  moreover have "unat ppn = 2 ^ e" using assms(1,2) by (simp add: unat_two_power)
  moreover from this assms(3) have "unat j < 2 ^ e" by (simp add: word_less_nat_alt)
  ultimately have "unat (ppn * PAGE_SIZE) = unat ppn * 4096" "unat (j * PAGE_SIZE) = unat j * 4096" "unat j < unat ppn"
    by (simp_all add: PAGE_SIZE_def unat_word_ariths)
  then show ?thesis by simp
qed

lemma allocated_in_block:
  assumes ok: "blocks_ok mm a" and q: "allocated a q"
  shows "\<exists>m\<in>set (m_mmaps a). ha_block q = ha_block (mm_ptr m) \<and> page_offset (ha_off q) = 0 \<and>
    unat (ha_off q) + 4096 \<le> unat (mm_ppn m * PAGE_SIZE)"
proof -
  from q obtain k j where k: "k < length (m_mmaps a)" "ha_block q = ha_block (mm_ptr (m_mmaps a ! k))"
    and j: "ha_off q = j * PAGE_SIZE" "j < (if Suc k = length (m_mmaps a) then m_curr_ppn a else mm_ppn (m_mmaps a ! k))"
    by (auto simp: allocated_def)
  have "last (m_mmaps a) = m_mmaps a ! k" if "Suc k = length (m_mmaps a)"
    using that by (metis diff_Suc_1 last_conv_nth list.size(3) nat.simps(3))
  then have "j < mm_ppn (m_mmaps a ! k)"
    using j(2) ok by (auto simp: blocks_ok_def alloc_ok_def split: if_splits)
  moreover obtain e where "e < 52" "mm_ppn (m_mmaps a ! k) = 2 ^ e"
    using ok nth_mem [OF k(1)] unfolding blocks_ok_def by blast
  ultimately have "unat (ha_off q) + 4096 \<le> unat (mm_ppn (m_mmaps a ! k) * PAGE_SIZE)"
    using page_in_block j(1) by metis
  then show ?thesis using k j(1) by (intro bexI [of _ "m_mmaps a ! k"]) auto
qed

text \<open>
  C28: host memory is given back exactly once. Whatever way the vector grows, nothing is unmapped before the
  destructor runs, so while pages are in use; the destructor calls \<open>munmap\<close> for exactly the blocks that
  the calls of \<open>mmap\<close> returned, each one once and with the length it was mapped with. The blocks are
  different ones, and every page handed out is a whole page that lies inside one of them, with its last
  byte below the length of the block, and is the only one at its address.
\<close>

theorem blocks_unmapped_once:
  assumes mm: "mmap_contract mm" and life: "alloc_life mm grow k = Inr (ps, before, after)"
  shows "hc_munmaps before = [] \<and> hc_mmaps after = hc_mmaps before \<and> hc_munmaps after = hc_mmaps after \<and>
    hc_mmaps after \<noteq> [] \<and> distinct (map (ha_block \<circ> fst) (hc_mmaps after)) \<and>
    (\<forall>i<length (hc_mmaps after). mm i (snd (hc_mmaps after ! i)) = Some (ha_block (fst (hc_mmaps after ! i))) \<and>
       ha_off (fst (hc_mmaps after ! i)) = 0) \<and>
    length ps = k \<and> distinct ps \<and>
    (\<forall>p\<in>set ps. \<exists>q. p = Some q \<and> (\<exists>(start, len)\<in>set (hc_mmaps after).
       ha_block q = ha_block start \<and> page_offset (ha_off q) = 0 \<and> unat (ha_off q) + 4096 \<le> unat len))"
proof -
  from life obtain ao h ao' where new: "AllocObj_new mm grow PPN_16MB \<lparr>hc_mmaps = [], hc_munmaps = []\<rparr> = Inr (ao, h)"
    and many: "alloc_many k mm grow ao h = Inr (ps, ao', before)" and calls: "after = vec_dtor (ao_mmaps ao') before"
    by (auto simp: alloc_life_def res_simps)
  from AllocObj_new_agrees [OF new] obtain a where a: "PageAllocator_new mm PPN_16MB = Inr a" "agrees a ao h" by blast
  have ok: "blocks_ok mm a" "\<not> allocated a q" for q
    using PageAllocator_new_ok [OF a(1)] by simp_all
  from alloc_many_agrees [OF mm a(2) ok(1) many] ok(2) obtain a' where ps: "None \<notin> set ps" "distinct ps"
    and a': "agrees a' ao' before" "blocks_ok mm a'" "\<And>q. allocated a' q \<longleftrightarrow> Some q \<in> set ps" by auto
  let ?ms = "m_mmaps a'"
  have h: "hc_munmaps before = []" "hc_mmaps before = map region_of ?ms" "hc_mmaps after = map region_of ?ms"
      "hc_munmaps after = map region_of ?ms" "?ms \<noteq> []"
    using a'(1) by (simp_all add: calls vec_dtor_def agrees_def vec_dtor_owned)
  have blocks: "mm i (mm_ppn (?ms ! i) * PAGE_SIZE) = Some (ha_block (mm_ptr (?ms ! i)))" "ha_off (mm_ptr (?ms ! i)) = 0"
    if "i < length ?ms" for i using a'(2) that by (auto simp: blocks_ok_def alloc_ok_def Let_def)
  have "distinct (map (ha_block \<circ> mm_ptr) ?ms)"
    unfolding distinct_conv_nth using alloc_ok_block_unique [OF mm, of a'] a'(2) by (auto simp: blocks_ok_def)
  moreover have "\<exists>q. p = Some q \<and> (\<exists>(start, len)\<in>set (hc_mmaps after).
      ha_block q = ha_block start \<and> page_offset (ha_off q) = 0 \<and> unat (ha_off q) + 4096 \<le> unat len)" if p: "p \<in> set ps" for p
  proof -
    obtain q where q: "p = Some q" using ps(1) p by (cases p) auto
    then have "allocated a' q" using a'(3) p by simp
    from allocated_in_block [OF a'(2) this] q show ?thesis by (force simp: h region_of_def)
  qed
  ultimately show ?thesis
    using h blocks ps(2) alloc_many_length [OF many] by (simp add: region_of_def o_def)
qed

end
