(* ===== verification/ModTests.thy ===== *)
theory ModTests
  imports Gpr InstrDecode MemLive "HOL-Library.Multiset"
begin

text \<open>
  The unit tests of the other modules on the model: \<^verbatim>\<open>common/tests/src/test_bit.cpp\<close>,
  \<^verbatim>\<open>gpr/tests/src/test_gpr.cpp\<close>, \<^verbatim>\<open>instr/tests/src/test_instr_decoding.cpp\<close> and
  \<^verbatim>\<open>memory/tests/src/test_phys_memory.cpp\<close>. A test is a computation that returns if it passes. The numbers
  that a test draws from its random engine are arguments, so a test that passes does so for every seed, and
  the loops over an unordered map take its elements in any order.
\<close>

section \<open>Assertions of the test framework\<close>

definition ASSERT_EQ :: "'a \<Rightarrow> 'a \<Rightarrow> unit res" where
  "ASSERT_EQ x y = (if x = y then Inr () else Inl AssertFailed)"

definition ASSERT_TRUE :: "bool \<Rightarrow> unit res" where
  "ASSERT_TRUE b = (if b then Inr () else Inl AssertFailed)"

text \<open>The statement stops the process by an assertion.\<close>

definition ASSERT_DEATH :: "'a res \<Rightarrow> unit res" where
  "ASSERT_DEATH r = (case r of Inl AssertFailed \<Rightarrow> Inr () | _ \<Rightarrow> Inl AssertFailed)"

lemma asserts_pass [simp]:
  "ASSERT_EQ x x = Inr ()" "b \<Longrightarrow> ASSERT_TRUE b = Inr ()" "ASSERT_DEATH (Inl AssertFailed) = Inr ()"
  by (simp_all add: ASSERT_EQ_def ASSERT_TRUE_def ASSERT_DEATH_def)

text \<open>A sequence of assertions that share no state.\<close>

definition run_all :: "unit res list \<Rightarrow> unit res" where
  "run_all ts = foldr (\<lambda>t r. bindR t (\<lambda>_. r)) ts (Inr ())"

lemma run_all_pass: "list_all (\<lambda>t. t = Inr ()) ts \<Longrightarrow> run_all ts = Inr ()"
  by (induction ts) (simp_all add: run_all_def)

section \<open>Bit fields\<close>

definition Bit_onesMask :: "unit res" where
  "Bit_onesMask = run_all
     [ASSERT_EQ (onesMask :: 8 word) 0xFF, ASSERT_EQ (onesMask :: 16 word) 0xFFFF,
      ASSERT_EQ (onesMask :: 32 word) 0xFFFFFFFF, ASSERT_EQ (onesMask :: 64 word) 0xFFFFFFFFFFFFFFFF]"

definition Bit_bitSize :: "unit res" where
  "Bit_bitSize = run_all
     [ASSERT_EQ (bitSize TYPE(8)) 8, ASSERT_EQ (bitSize TYPE(16)) 16,
      ASSERT_EQ (bitSize TYPE(32)) 32, ASSERT_EQ (bitSize TYPE(64)) 64]"

definition Bit_signExtend :: "unit res" where
  "Bit_signExtend = run_all
     [ASSERT_EQ (signExtend 3 (0b1010 :: 32 word)) (Inr 0xFFFFFFFA),
      ASSERT_EQ (signExtend 2 (0b1010 :: 32 word)) (Inr 0x2),
      ASSERT_EQ (signExtend 31 (- 10 :: 32 word)) (Inr (- 10)),
      ASSERT_EQ (signExtend 31 (10 :: 32 word)) (Inr 10),
      ASSERT_EQ (signExtend 7 (0b10101010 :: 64 word)) (Inr 0xFFFFFFFFFFFFFFAA),
      ASSERT_EQ (signExtend 6 (0b10101010 :: 64 word)) (Inr 0x2A),
      ASSERT_EQ (signExtend 63 (- 10 :: 64 word)) (Inr (- 10)),
      ASSERT_EQ (signExtend 63 (10 :: 64 word)) (Inr 10)]"

definition Bit_maskBits :: "unit res" where
  "Bit_maskBits = run_all
     [ASSERT_EQ (maskBits 7 2 (0b10111011 :: 32 word)) (Inr 0b10111000),
      ASSERT_EQ (maskBits 13 11 (0xABBA :: 64 word)) (Inr 0x2800)]"

definition Bit_getBitField :: "unit res" where
  "Bit_getBitField = run_all
     [ASSERT_EQ (getBitField 7 2 (0b10111011 :: 32 word)) (Inr 0b101110),
      ASSERT_EQ (getBitField 13 11 (0xABBA :: 64 word)) (Inr 0b101)]"

lemma bit_tests:
  "Bit_onesMask = Inr ()" "Bit_bitSize = Inr ()" "Bit_signExtend = Inr ()" "Bit_maskBits = Inr ()" "Bit_getBitField = Inr ()"
  by code_simp+

section \<open>Registers\<close>

definition GPRTest_zero :: "RegValue \<Rightarrow> unit res" where
  "GPRTest_zero test_value =
     bindR (GPRFile_write ZERO test_value GPRFile_init) (\<lambda>gpr_file.
     run_all
       [ASSERT_EQ (GPRFile_read ZERO gpr_file :: 64 word res) (Inr 0), ASSERT_EQ (GPRFile_read ZERO gpr_file :: 32 word res) (Inr 0),
        ASSERT_EQ (GPRFile_read ZERO gpr_file :: 16 word res) (Inr 0), ASSERT_EQ (GPRFile_read ZERO gpr_file :: 8 word res) (Inr 0)])"

text \<open>The two loops over the registers, from \<open>i\<close> on, with the numbers drawn in them.\<close>

fun gpr_write_loop :: "nat \<Rightarrow> RegValue list \<Rightarrow> GPRFile \<Rightarrow> GPRFile res" where
  "gpr_write_loop i [] gpr_file = Inr gpr_file"
| "gpr_write_loop i (v # vs) gpr_file = bindR (GPRFile_write i v gpr_file) (gpr_write_loop (i + 1) vs)"

fun gpr_read_loop :: "nat \<Rightarrow> RegValue list \<Rightarrow> GPRFile \<Rightarrow> unit res" where
  "gpr_read_loop i [] gpr_file = Inr ()"
| "gpr_read_loop i (v # vs) gpr_file =
     bindR (run_all
       [ASSERT_EQ (GPRFile_read i gpr_file :: 64 word res) (Inr v), ASSERT_EQ (GPRFile_read i gpr_file :: 32 word res) (Inr (ucast v)),
        ASSERT_EQ (GPRFile_read i gpr_file :: 16 word res) (Inr (ucast v)), ASSERT_EQ (GPRFile_read i gpr_file :: 8 word res) (Inr (ucast v))])
       (\<lambda>_. gpr_read_loop (i + 1) vs gpr_file)"

definition GPRTest_readWrite :: "RegValue list \<Rightarrow> unit res" where
  "GPRTest_readWrite values =
     bindR (gpr_write_loop 1 values GPRFile_init) (\<lambda>gpr_file. gpr_read_loop 1 values gpr_file)"

definition GPRTest_outOfRangeRead :: "unit res" where
  "GPRTest_outOfRangeRead = run_all
     [ASSERT_DEATH (GPRFile_read GPR_NUMBER GPRFile_init :: 64 word res), ASSERT_DEATH (GPRFile_read GPR_NUMBER GPRFile_init :: 32 word res),
      ASSERT_DEATH (GPRFile_read GPR_NUMBER GPRFile_init :: 16 word res), ASSERT_DEATH (GPRFile_read GPR_NUMBER GPRFile_init :: 8 word res)]"

definition GPRTest_outOfRangeWrite :: "RegValue \<Rightarrow> unit res" where
  "GPRTest_outOfRangeWrite value = ASSERT_DEATH (GPRFile_write GPR_NUMBER value GPRFile_init)"

lemma gpr_write_loop_ok:
  "gpr_inv g \<Longrightarrow> 0 < i \<Longrightarrow> i + length vs = GPR_NUMBER \<Longrightarrow>
    \<exists>g'. gpr_write_loop i vs g = Inr g' \<and> gpr_inv g' \<and> (\<forall>j<i. m_gpr g' ! j = m_gpr g ! j) \<and>
      (\<forall>j<length vs. m_gpr g' ! (i + j) = vs ! j)"
proof (induction vs arbitrary: i g)
  case (Cons v vs)
  then obtain g1 where g1: "GPRFile_write i v g = Inr g1" using gpr.wr_total [of g i v] by auto
  have inv: "gpr_inv g1" using gpr.wr_inv [OF Cons.prems(1) g1] .
  have regs: "m_gpr g1 = (m_gpr g)[i := v, 0 := 0]" using g1 by (simp add: GPRFile_write_Inr_iff)
  have len: "length (m_gpr g) = GPR_NUMBER" "m_gpr g ! 0 = 0" using Cons.prems(1) by (simp_all add: gpr_inv_def ZERO_def)
  from Cons.IH [OF inv, of "i + 1"] Cons.prems obtain g' where g': "gpr_write_loop (i + 1) vs g1 = Inr g'" "gpr_inv g'"
    "\<forall>j<i + 1. m_gpr g' ! j = m_gpr g1 ! j" "\<forall>j<length vs. m_gpr g' ! (i + 1 + j) = vs ! j" by auto
  have "m_gpr g' ! (i + j) = (v # vs) ! j" if "j < length (v # vs)" for j
    using g'(3,4) that Cons.prems regs len by (cases j) (auto simp: nth_list_update)
  moreover have "m_gpr g' ! j = m_gpr g ! j" if "j < i" for j
    using g'(3) that regs len Cons.prems by (auto simp: nth_list_update)
  ultimately show ?case using g1 g'(1,2) by auto
qed auto

lemma gpr_read_loop_ok:
  "i + length vs = GPR_NUMBER \<Longrightarrow> \<forall>j<length vs. m_gpr g ! (i + j) = vs ! j \<Longrightarrow> gpr_read_loop i vs g = Inr ()"
proof (induction vs arbitrary: i)
  case (Cons v vs)
  have "m_gpr g ! i = v" using Cons.prems(2) by (auto dest: spec [of _ 0])
  moreover have "\<forall>j<length vs. m_gpr g ! (i + 1 + j) = vs ! j" using Cons.prems(2) by (auto dest: spec [of _ "Suc j" for j])
  ultimately show ?case using Cons by (simp add: GPRFile_read_ok run_all_def)
qed simp

lemma gpr_tests:
  "GPRTest_zero v = Inr ()" "length vs = GPR_NUMBER - 1 \<Longrightarrow> GPRTest_readWrite vs = Inr ()"
  "GPRTest_outOfRangeRead = Inr ()" "GPRTest_outOfRangeWrite v = Inr ()"
proof -
  show "GPRTest_zero v = Inr ()"
    by (simp add: GPRTest_zero_def GPRFile_write_def GPRFile_read_def GPRFile_init_def GPR_NUMBER_def ZERO_def run_all_def)
  show "GPRTest_readWrite vs = Inr ()" if "length vs = GPR_NUMBER - 1"
  proof -
    have len: "1 + length vs = GPR_NUMBER" using that by (simp add: GPR_NUMBER_def)
    from gpr_write_loop_ok [OF gpr_inv_init _ len] gpr_read_loop_ok [OF len] show ?thesis
      by (auto simp: GPRTest_readWrite_def)
  qed
qed (simp_all add: GPRTest_outOfRangeRead_def GPRTest_outOfRangeWrite_def GPRFile_out_of_range run_all_def)

section \<open>Decoding\<close>

text \<open>A test decodes a code and looks at members of the instruction.\<close>

definition Instr_undef :: "unit res" where
  "Instr_undef = bindR (decode 0) (\<lambda>test. run_all
     [ASSERT_EQ (m_id test) SIM_STATUS_INSTR, ASSERT_EQ (Instr_status test) (Inr SIM_NOT_IMPLEMENTED_INSTR)])"

definition Instr_add :: "unit res" where
  "Instr_add = bindR (decode 0x00710a13) (\<lambda>test. run_all
     [ASSERT_EQ (m_id test) I_ADDI, ASSERT_EQ (m_rd test) 20, ASSERT_EQ (m_rs1 test) 2, ASSERT_EQ (m_imm test) 7])"

definition Instr_srli :: "unit res" where
  "Instr_srli = bindR (decode 0x02175113) (\<lambda>test. run_all
     [ASSERT_EQ (m_id test) I_SRLI, ASSERT_EQ (m_rd test) 2, ASSERT_EQ (m_rs1 test) 14, ASSERT_EQ (m_imm test) 33])"

definition Instr_jal :: "unit res" where
  "Instr_jal = bindR (decode 0x02200a6f) (\<lambda>test. run_all
     [ASSERT_EQ (m_id test) I_JAL, ASSERT_EQ (m_rd test) 20, ASSERT_EQ (m_imm test) 34])"

definition Instr_lui :: "unit res" where
  "Instr_lui = bindR (decode 0x0157a2b7) (\<lambda>test. run_all
     [ASSERT_EQ (m_id test) I_LUI, ASSERT_EQ (m_rd test) 5, ASSERT_EQ (m_imm test) (push_bit 12 5498)])"

definition Instr_beq :: "unit res" where
  "Instr_beq = bindR (decode 0x01e18563) (\<lambda>test. run_all
     [ASSERT_EQ (m_id test) I_BEQ, ASSERT_EQ (m_rs1 test) 3, ASSERT_EQ (m_rs2 test) 30, ASSERT_EQ (m_imm test) 10])"

definition Instr_beq_minus :: "unit res" where
  "Instr_beq_minus = bindR (decode 0xffe18fe3) (\<lambda>test. run_all
     [ASSERT_EQ (m_id test) I_BEQ, ASSERT_EQ (m_rs1 test) 3, ASSERT_EQ (m_rs2 test) 30, ASSERT_EQ (m_imm test) (- 2)])"

definition Instr_sraiw :: "unit res" where
  "Instr_sraiw = bindR (decode 0x41e0d31b) (\<lambda>test. run_all
     [ASSERT_EQ (m_id test) I_SRAIW, ASSERT_EQ (m_rd test) 6, ASSERT_EQ (m_rs1 test) 1, ASSERT_EQ (m_imm test) 30])"

text \<open>One round of the loop over all codes.\<close>

definition Instr_garbage :: "InstrCode \<Rightarrow> unit res" where
  "Instr_garbage code = bindR (decode code) (\<lambda>_. Inr ())"

lemma instr_tests:
  "Instr_undef = Inr ()" "Instr_add = Inr ()" "Instr_srli = Inr ()" "Instr_jal = Inr ()"
  "Instr_lui = Inr ()" "Instr_beq = Inr ()" "Instr_beq_minus = Inr ()" "Instr_sraiw = Inr ()" "Instr_garbage code = Inr ()"
proof -
  show "Instr_garbage code = Inr ()" using decode_ok [of code] by (auto simp: Instr_garbage_def)
qed (simp_all add: Instr_undef_def Instr_add_def Instr_srli_def Instr_jal_def Instr_lui_def Instr_beq_def
    Instr_beq_minus_def Instr_sraiw_def decode_tests run_all_def statusInstr_def Instr_status_def
    Instr_default_def SimStatus_of_code_def SimStatus_list_def)

section \<open>Physical memory: the tests\<close>

definition RAM_BASE_PA :: PhysAddr where "RAM_BASE_PA = 0x5000000000"

definition RAM_SIZE_16MB :: "64 word" where "RAM_SIZE_16MB = push_bit 24 1"

definition UNALIGNED_OFFSET :: PhysAddr where "UNALIGNED_OFFSET = 11"

text \<open>The constructor of the fixture; the loop may take \<open>fuel - 1\<close> rounds.\<close>

fun test_add_pages :: "nat \<Rightarrow> mmap_fn \<Rightarrow> PhysAddr \<Rightarrow> PhysAddr \<Rightarrow> PhysMemory \<Rightarrow> PhysMemory res option" where
  "test_add_pages 0 mm page_pa end_pa pm = None"
| "test_add_pages (Suc fuel) mm page_pa end_pa pm =
     (if page_pa = end_pa then Some (Inr pm)
      else
        case bindR (addRAMPage mm page_pa pm) (\<lambda>(added, pm). bindR (SIM_ASSERT added) (\<lambda>_. Inr pm)) of
          Inl e \<Rightarrow> Some (Inl e)
        | Inr pm \<Rightarrow> test_add_pages fuel mm (page_pa + PAGE_SIZE) end_pa pm)"

definition PhysMemoryTest :: "nat \<Rightarrow> mmap_fn \<Rightarrow> PhysMemory res option" where
  "PhysMemoryTest fuel mm =
     (case PhysMemory_new mm of
        Inl e \<Rightarrow> Some (Inl e)
      | Inr pm \<Rightarrow> test_add_pages fuel mm RAM_BASE_PA (RAM_BASE_PA + RAM_SIZE_16MB) pm)"

definition readWrite_pas :: "PhysAddr list" where
  "readWrite_pas =
     [RAM_BASE_PA, RAM_BASE_PA + UNALIGNED_OFFSET, RAM_BASE_PA + PAGE_SIZE, RAM_BASE_PA + PAGE_SIZE + UNALIGNED_OFFSET,
      RAM_BASE_PA + RAM_SIZE_16MB - 8]"

fun test_writes :: "(PhysAddr \<times> 64 word) list \<Rightarrow> PhysMemory \<Rightarrow> PhysMemory res" where
  "test_writes [] pm = Inr pm"
| "test_writes ((pa, value) # cases) pm =
     bindR (PhysMemory_write pa value pm) (\<lambda>(r, pm).
     bindR (ASSERT_EQ (wr_status r) OK) (\<lambda>_. test_writes cases pm))"

text \<open>A read of one width and its two assertions.\<close>

definition test_read :: "PhysAddr \<Rightarrow> 'a::len word \<Rightarrow> PhysMemory \<Rightarrow> unit res" where
  "test_read pa value pm =
     bindR (PhysMemory_read pa 0 pm) (\<lambda>(r, dst).
     bindR (ASSERT_EQ (rd_status r) OK) (\<lambda>_. ASSERT_EQ dst value))"

fun test_reads :: "(PhysAddr \<times> 64 word) list \<Rightarrow> PhysMemory \<Rightarrow> unit res" where
  "test_reads [] pm = Inr ()"
| "test_reads ((pa, value) # cases) pm =
     bindR (run_all
       [test_read pa value pm, test_read pa (ucast value :: 32 word) pm, test_read pa (ucast value :: 16 word) pm,
        test_read pa (ucast value :: 8 word) pm]) (\<lambda>_. test_reads cases pm)"

definition PhysMemoryTest_readWrite :: "(PhysAddr \<times> 64 word) list \<Rightarrow> PhysMemory \<Rightarrow> unit res" where
  "PhysMemoryTest_readWrite test_cases pm = bindR (test_writes test_cases pm) (test_reads test_cases)"

text \<open>The loop of the two tests of failing accesses.\<close>

fun test_fails :: "SimStatus \<Rightarrow> PhysAddr list \<Rightarrow> PhysMemory \<Rightarrow> unit res" where
  "test_fails status [] pm = Inr ()"
| "test_fails status (pa # pas) pm =
     bindR (PhysMemory_read pa (0 :: 64 word) pm) (\<lambda>(r, dst).
     bindR (ASSERT_EQ (rd_status r) status) (\<lambda>_.
     bindR (PhysMemory_write pa (0 :: 64 word) pm) (\<lambda>(r, pm).
     bindR (ASSERT_EQ (wr_status r) status) (\<lambda>_. test_fails status pas pm))))"

definition PhysMemoryTest_rangeError :: "PhysMemory \<Rightarrow> unit res" where
  "PhysMemoryTest_rangeError pm = test_fails PHYS_MEM_ACCESS_FAULT
     [0, RAM_BASE_PA - 8, RAM_BASE_PA + RAM_SIZE_16MB, RAM_BASE_PA + RAM_SIZE_16MB + UNALIGNED_OFFSET] pm"

definition PhysMemoryTest_pageAlignError :: "PhysMemory \<Rightarrow> unit res" where
  "PhysMemoryTest_pageAlignError pm = test_fails PHYS_MEM_PAGE_ALIGN_ERROR
     [RAM_BASE_PA - 4, RAM_BASE_PA + PAGE_SIZE - 4, RAM_BASE_PA + RAM_SIZE_16MB - 4] pm"

text \<open>The element of a host page.\<close>

definition host_at :: "HostPtr \<Rightarrow> 64 word \<Rightarrow> PhysMemory \<Rightarrow> byte res" where
  "host_at ptr i pm = (case ptr of None \<Rightarrow> Inl NullDeref | Some p \<Rightarrow> Inr (host_load (ptr_add p i) (host_mem pm)))"

definition host_set :: "HostPtr \<Rightarrow> 64 word \<Rightarrow> byte \<Rightarrow> PhysMemory \<Rightarrow> PhysMemory res" where
  "host_set ptr i b pm =
     (case ptr of None \<Rightarrow> Inl NullDeref | Some p \<Rightarrow> Inr (pm\<lparr>host_mem := host_write (ptr_add p i) b (host_mem pm)\<rparr>))"

text \<open>A read or write of a byte, and the assertions on the host pointer it returns.\<close>

definition test_read_ptr :: "PhysAddr \<Rightarrow> 64 word \<Rightarrow> PhysMemory \<Rightarrow> HostPtr res" where
  "test_read_ptr pa i pm =
     bindR (PhysMemory_read pa 0 pm) (\<lambda>(r, byte).
     bindR (ASSERT_EQ (rd_status r) OK) (\<lambda>_.
     bindR (ASSERT_TRUE (rd_host_page_ptr r \<noteq> None)) (\<lambda>_.
     bindR (host_at (rd_host_page_ptr r) i pm) (\<lambda>b.
     bindR (ASSERT_EQ b byte) (\<lambda>_. Inr (rd_host_page_ptr r))))))"

definition test_write_ptr :: "PhysAddr \<Rightarrow> 64 word \<Rightarrow> byte \<Rightarrow> PhysMemory \<Rightarrow> (HostPtr \<times> PhysMemory) res" where
  "test_write_ptr pa i byte pm =
     bindR (PhysMemory_write pa byte pm) (\<lambda>(r, pm).
     bindR (ASSERT_EQ (wr_status r) OK) (\<lambda>_.
     bindR (ASSERT_TRUE (wr_host_page_ptr r \<noteq> None)) (\<lambda>_.
     bindR (host_at (wr_host_page_ptr r) i pm) (\<lambda>b.
     bindR (ASSERT_EQ b byte) (\<lambda>_. Inr (wr_host_page_ptr r, pm))))))"

definition PhysMemoryTest_constHostPtr :: "PhysMemory \<Rightarrow> unit res" where
  "PhysMemoryTest_constHostPtr pm =
     (let pa = RAM_BASE_PA + PAGE_SIZE; offset = 0x0ff in
      bindR (test_read_ptr pa 0 pm) (\<lambda>host_page_ptr1.
      bindR (test_read_ptr (pa + offset) offset pm) (\<lambda>host_page_ptr2.
      ASSERT_EQ host_page_ptr1 host_page_ptr2)))"

definition PhysMemoryTest_hostPtr :: "byte \<Rightarrow> byte \<Rightarrow> PhysMemory \<Rightarrow> unit res" where
  "PhysMemoryTest_hostPtr byte1 byte2 pm =
     (let pa = RAM_BASE_PA + PAGE_SIZE; offset = 0x0ff in
      bindR (test_write_ptr pa 0 byte1 pm) (\<lambda>(host_page_ptr1, pm).
      bindR (test_write_ptr (pa + offset) offset byte2 pm) (\<lambda>(host_page_ptr2, pm).
      ASSERT_EQ host_page_ptr1 host_page_ptr2)))"

text \<open>The two loops over the bytes of the page, from index \<open>i\<close> on.\<close>

fun pm_writes_loop :: "PhysAddr \<Rightarrow> HostPtr \<Rightarrow> nat \<Rightarrow> byte list \<Rightarrow> PhysMemory \<Rightarrow> PhysMemory res" where
  "pm_writes_loop pa ptr i [] pm = Inr pm"
| "pm_writes_loop pa ptr i (d # ds) pm =
     bindR (PhysMemory_write (pa + of_nat i) d pm) (\<lambda>(r, pm).
     bindR (ASSERT_EQ (wr_status r) OK) (\<lambda>_.
     bindR (host_at ptr (of_nat i) pm) (\<lambda>b.
     bindR (ASSERT_EQ d b) (\<lambda>_. pm_writes_loop pa ptr (i + 1) ds pm))))"

fun host_writes_loop :: "PhysAddr \<Rightarrow> HostPtr \<Rightarrow> nat \<Rightarrow> byte list \<Rightarrow> PhysMemory \<Rightarrow> unit res" where
  "host_writes_loop pa ptr i [] pm = Inr ()"
| "host_writes_loop pa ptr i (d # ds) pm =
     bindR (host_set ptr (of_nat i) d pm) (\<lambda>pm.
     bindR (PhysMemory_read (pa + of_nat i) 0 pm) (\<lambda>(r, byte).
     bindR (ASSERT_EQ (rd_status r) OK) (\<lambda>_.
     bindR (host_at ptr (of_nat i) pm) (\<lambda>b.
     bindR (ASSERT_EQ byte b) (\<lambda>_. host_writes_loop pa ptr (i + 1) ds pm)))))"

definition PhysMemoryTest_hostPtrCoherency :: "byte \<Rightarrow> byte list \<Rightarrow> byte list \<Rightarrow> PhysMemory \<Rightarrow> unit res" where
  "PhysMemoryTest_hostPtrCoherency byte data1 data2 pm =
     (let pa = RAM_BASE_PA + PAGE_SIZE in
      bindR (test_write_ptr pa 0 byte pm) (\<lambda>(ptr, pm).
      bindR (pm_writes_loop pa ptr 0 data1 pm) (\<lambda>pm.
      host_writes_loop pa ptr 0 data2 pm)))"

section \<open>Physical memory: the fixture\<close>

text \<open>The memory has exactly the pages with numbers from \<open>lo\<close> to below \<open>hi\<close>.\<close>

definition ram_pages :: "nat \<Rightarrow> nat \<Rightarrow> PhysMemory \<Rightarrow> bool" where
  "ram_pages lo hi pm \<longleftrightarrow> (\<forall>a. pm_contents pm a \<noteq> None \<longleftrightarrow> lo \<le> unat a div 4096 \<and> unat a div 4096 < hi)"

definition page_at :: "nat \<Rightarrow> 64 word" where
  "page_at i = of_nat (i * 4096)"

lemma unat_page_at: "i < 2 ^ 52 \<Longrightarrow> unat (page_at i) = i * 4096"
  by (simp add: page_at_def unat_word_ariths unat_of_nat)

lemma page_at_base: "i < 2 ^ 52 \<Longrightarrow> page_base a = page_at i \<longleftrightarrow> unat a div 4096 = i"
  by (simp add: word_unat_eq_iff unat_page_base unat_page_at)

lemma page_at_offset: "i < 2 ^ 52 \<Longrightarrow> page_offset (page_at i) = 0"
  by (simp add: word_unat_eq_iff unat_page_offset unat_page_at)

lemma page_at_Suc: "page_at i + PAGE_SIZE = page_at (Suc i)"
  by (simp add: page_at_def PAGE_SIZE_def algebra_simps)

lemma add_page_step:
  assumes mm: "mmap_contract mm" and inv: "pm_inv mm pm" and ram: "ram_pages lo hi pm" and lo: "lo \<le> hi" "hi < 2 ^ 52"
    and add: "addRAMPage mm (page_at hi) pm = Inr (True, pm')"
  shows "pm_inv mm pm' \<and> ram_pages lo (Suc hi) pm'"
  using addRAMPage_spec [OF mm inv add] ram lo by (auto simp: ram_pages_def page_at_base)

lemma test_add_pages_ok:
  assumes mm: "mmap_contract mm" "mmap_grants mm B" and B: "(P + k + 4096) * 4096 \<le> B" "B < 2 ^ 64"
    and pm: "pm_inv mm pm" "ram_pages lo (lo + P) pm" "alloc_count (m_page_allocator (m_ram pm)) P"
    and fuel: "k < fuel" "lo + P + k < 2 ^ 52"
  shows "\<exists>pm'. test_add_pages fuel mm (page_at (lo + P)) (page_at (lo + P + k)) pm = Some (Inr pm') \<and>
    pm_inv mm pm' \<and> ram_pages lo (lo + P + k) pm'"
  using B pm fuel
proof (induction fuel arbitrary: P k pm)
  case (Suc fuel)
  show ?case
  proof (cases k)
    case 0
    then show ?thesis using Suc.prems by simp
  next
    case (Suc k')
    let ?pa = "page_at (lo + P)"
    have neq: "?pa \<noteq> page_at (lo + P + k)"
      using Suc Suc.prems(7) unat_page_at [of "lo + P"] unat_page_at [of "lo + P + k"] by auto
    have "unat ?pa div 4096 = lo + P" using Suc.prems(7) unat_page_at [of "lo + P"] by simp
    then have "pm_contents pm ?pa = None" using Suc.prems(4) by (force simp: ram_pages_def)
    with addRAMPage_count [OF mm(2) Suc.prems(5), of ?pa] Suc.prems obtain pm1
      where add: "addRAMPage mm ?pa pm = Inr (True, pm1)" and cnt: "alloc_count (m_page_allocator (m_ram pm1)) (Suc P)"
      using page_at_offset [of "lo + P"] by auto
    from add_page_step [OF mm(1) Suc.prems(3,4) _ _ add] Suc.prems(7) have "pm_inv mm pm1" "ram_pages lo (lo + Suc P) pm1" by auto
    with Suc.IH [of "Suc P" k' pm1] Suc.prems Suc cnt add neq show ?thesis by (simp add: page_at_Suc)
  qed
qed simp

abbreviation test_ram :: "PhysMemory \<Rightarrow> bool" where
  "test_ram pm \<equiv> pm_ok pm \<and> ram_pages 0x5000000 0x5001000 pm"

lemma PhysMemoryTest_ok:
  assumes mm: "mmap_contract mm" "mmap_grants mm (8192 * 4096)" and fuel: "4096 < fuel"
  shows "\<exists>pm. PhysMemoryTest fuel mm = Some (Inr pm) \<and> test_ram pm"
proof -
  obtain pm where pm: "PhysMemory_new mm = Inr pm" "alloc_count (m_page_allocator (m_ram pm)) 0"
    using PhysMemory_new_count [OF mm(2)] by auto
  have new: "pm_inv mm pm" "ram_pages 0x5000000 (0x5000000 + 0) pm"
    using PhysMemory_new_inv [OF pm(1)] by (auto simp: ram_pages_def)
  from test_add_pages_ok [OF mm _ _ new pm(2), of 4096 fuel] fuel show ?thesis
    by (auto simp: PhysMemoryTest_def pm(1) page_at_def RAM_BASE_PA_def RAM_SIZE_16MB_def dest: pm_inv_ok)
qed

section \<open>Physical memory: the tests pass\<close>

lemma contents_mapped: "pm_contents pm a = None \<longleftrightarrow> m_mapping (m_ram pm) (page_base a) = None"
  by (simp add: pm_contents_def split: option.split)

lemma ram_pages_mapped:
  assumes "ram_pages lo hi pm"
  shows "m_mapping (m_ram pm) (page_base a) \<noteq> None \<longleftrightarrow> lo \<le> unat a div 4096 \<and> unat a div 4096 < hi"
  using assms unfolding ram_pages_def contents_mapped by blast

lemma host_byte [simp]:
  "host_load p h = h p" "host_write p b h = h(p := b)" for b :: byte
proof -
  show "host_load p h = h p"
    by (rule bit_word_eqI) (simp add: host_load_def ptr_add_def bit_simps)
  show "host_write p b h = h(p := b)"
    by (simp add: host_write_def byte_of_word_def ptr_add_def)
qed

text \<open>Words next to each other: a store to one leaves the bytes of the other.\<close>

definition far :: "64 word \<Rightarrow> 64 word \<Rightarrow> bool" where
  "far a b \<longleftrightarrow> list_all (\<lambda>i. 8 \<le> unat (a + of_nat i - b)) [0..<8]"

definition put_all :: "(PhysAddr \<times> 64 word) list \<Rightarrow> (64 word \<rightharpoonup> byte) \<Rightarrow> (64 word \<rightharpoonup> byte)" where
  "put_all cases c = fold (\<lambda>(pa, v). mem_put pa v) cases c"

lemma farD: "far a b \<Longrightarrow> i < 8 \<Longrightarrow> \<not> unat (a + of_nat i - b) < 8"
proof -
  assume "far a b" and "i < 8"
  from this(1) have "\<forall>i\<in>set [0..<8]. 8 \<le> unat (a + of_nat i - b)" by (simp only: far_def list_all_iff)
  then have "8 \<le> unat (a + of_nat i - b)" by (rule bspec) (simp add: \<open>i < 8\<close>)
  then show ?thesis by simp
qed

lemma put_all_simps [simp]: "put_all [] c = c" "put_all ((b, w) # cases) c = put_all cases (mem_put b w c)"
  by (simp_all add: put_all_def)

lemma put_all_other:
  "i < 8 \<Longrightarrow> \<forall>(b, w)\<in>set cases. far a b \<Longrightarrow> put_all cases c (a + of_nat i) = c (a + of_nat i)"
  by (induction cases arbitrary: c) (auto simp: mem_put_unat dest: farD)

lemma put_all_own:
  assumes "i < 8"
  shows "distinct (map fst cases) \<Longrightarrow> \<forall>x\<in>fst ` set cases. \<forall>y\<in>fst ` set cases. x = y \<or> far x y \<Longrightarrow> (a, v) \<in> set cases \<Longrightarrow>
    put_all cases c (a + of_nat i) = Some (byte_of_word i v)"
proof (induction cases arbitrary: c)
  case (Cons cs cases)
  show ?case
  proof (cases "(a, v) = cs")
    case True
    have "\<forall>(b, w)\<in>set cases. far a b" using Cons.prems(1,2) True by (force simp: image_iff)
    from put_all_other [OF assms this] True assms show ?thesis
      by (auto simp: mem_put_unat unat_of_nat)
  next
    case False
    obtain b w where cs: "cs = (b, w)" by (cases cs)
    from Cons.IH [of "mem_put b w c"] Cons.prems False show ?thesis by (auto simp: cs)
  qed
qed simp

lemma test_writes_ok:
  "pm_ok pm \<Longrightarrow> list_all (\<lambda>(a, v). in_page a 8 \<and> pm_contents pm a \<noteq> None) cases \<Longrightarrow>
    \<exists>pm'. test_writes cases pm = Inr pm' \<and> pm_ok pm' \<and> m_ram pm' = m_ram pm \<and> pm_contents pm' = put_all cases (pm_contents pm)"
proof (induction cases arbitrary: pm)
  case (Cons cs cases)
  obtain a v where cs: "cs = (a, v)" by (cases cs)
  have ty: "int_type TYPE(64)" by simp
  from Cons.prems obtain p where p: "m_mapping (m_ram pm) (page_base a) = Some p" and inp: "in_page a 8"
    by (auto simp: cs pm_contents_def split: option.splits)
  define pm1 where "pm1 = pm\<lparr>host_mem := host_write (ptr_add p (page_offset a)) v (host_mem pm)\<rparr>"
  have c: "pm_contents pm1 = mem_put a v (pm_contents pm)"
    using pm_contents_host_write [OF Cons.prems(1) ty _ p, of v] inp by (simp add: pm1_def)
  have w: "PhysMemory_write a v pm = Inr (\<lparr>wr_status = OK, wr_host_page_ptr = Some p\<rparr>, pm1)"
    using p inp by (simp add: PhysMemory_write_eq [OF ty] pm1_def)
  have "list_all (\<lambda>(a, v). in_page a 8 \<and> pm_contents pm1 a \<noteq> None) cases"
    using Cons.prems(2) by (auto simp: list_all_iff pm_contents_def pm1_def split: option.splits)
  from Cons.IH [OF _ this] Cons.prems(1) show ?case
    by (simp add: cs w c) (simp add: pm1_def)
qed simp

lemma mem_word_bytes:
  fixes v :: "64 word"
  assumes ty: "int_type TYPE('a::len)" and c: "\<And>i. i < 8 \<Longrightarrow> c (a + of_nat i) = Some (byte_of_word i v)"
  shows "(mem_word c a :: 'a word) = ucast v"
proof -
  have le: "LENGTH('a) div 8 \<le> 8" by (rule int_type_bytes_le [OF ty])
  then have "map (\<lambda>i. the (c (a + of_nat i))) [0..<LENGTH('a) div 8] = map (\<lambda>i. byte_of_word i v) [0..<LENGTH('a) div 8]"
    using c by (intro map_cong) auto
  moreover have "word_of_bytes (map (\<lambda>i. byte_of_word i v) [0..<LENGTH('a) div 8]) = (ucast v :: 'a word)"
  proof (rule bit_word_eqI)
    fix k assume k: "k < LENGTH('a)"
    have "8 * (k div 8) + k mod 8 = k" by simp
    with ty k show "bit (word_of_bytes (map (\<lambda>i. byte_of_word i v) [0..<LENGTH('a) div 8]) :: 'a word) k = bit (ucast v :: 'a word) k"
      by (auto simp: bit_simps int_type_def)
  qed
  ultimately show ?thesis by (simp only: mem_word_def)
qed

lemma test_read_ok:
  fixes v :: "64 word"
  assumes ty: "int_type TYPE('a::len)" and "in_page a 8" and "pm_contents pm a \<noteq> None"
    and "\<And>i. i < 8 \<Longrightarrow> pm_contents pm (a + of_nat i) = Some (byte_of_word i v)"
  shows "test_read a (ucast v :: 'a word) pm = Inr ()"
proof -
  have inp: "in_page a (LENGTH('a) div 8)" using assms(2) int_type_bytes_le [OF ty] by (simp add: in_page_def)
  obtain p where p: "m_mapping (m_ram pm) (page_base a) = Some p" using assms(3) by (auto simp: pm_contents_def split: option.splits)
  from host_load_mem_word [OF inp p] mem_word_bytes [OF ty assms(4)] inp p show ?thesis
    by (simp add: test_read_def PhysMemory_read_eq [OF ty])
qed

lemma test_reads_ok:
  "\<forall>(a, v)\<in>set cases. in_page a 8 \<and> pm_contents pm a \<noteq> None \<Longrightarrow>
    \<forall>(a, v)\<in>set cases. \<forall>i<8. pm_contents pm (a + of_nat i) = Some (byte_of_word i v) \<Longrightarrow> test_reads cases pm = Inr ()"
proof (induction cases)
  case (Cons cs cases)
  obtain a v where cs: "cs = (a, v)" by (cases cs)
  note rd = test_read_ok [of a pm v, rotated]
  have "test_read a v pm = Inr ()" using rd [where 'a = 64] Cons.prems by (simp add: cs)
  moreover have "test_read a (ucast v :: 32 word) pm = Inr ()" "test_read a (ucast v :: 16 word) pm = Inr ()"
    "test_read a (ucast v :: 8 word) pm = Inr ()" using Cons.prems by (auto simp: cs intro!: test_read_ok)
  ultimately show ?case using Cons by (simp add: cs run_all_def)
qed simp

text \<open>The five words of the first test lie inside mapped pages and apart from each other.\<close>

lemmas test_consts = RAM_BASE_PA_def RAM_SIZE_16MB_def UNALIGNED_OFFSET_def PAGE_SIZE_def push_bit_eq_mult

lemma readWrite_pas_ok:
  "list_all (\<lambda>a. in_page a 8 \<and> 0x5000000 \<le> unat a div 4096 \<and> unat a div 4096 < 0x5001000) readWrite_pas"
  "list_all (\<lambda>x. list_all (\<lambda>y. x = y \<or> far x y) readWrite_pas) readWrite_pas" "distinct readWrite_pas"
  by (simp_all add: readWrite_pas_def test_consts in_page_def unat_page_offset far_def upt_rec)

lemma readWrite_passes:
  assumes ram: "test_ram pm" and cases: "mset (map fst test_cases) = mset readWrite_pas"
  shows "PhysMemoryTest_readWrite test_cases pm = Inr ()"
proof -
  have pas: "fst ` set test_cases = set readWrite_pas" using arg_cong [OF cases, of set_mset] by simp
  have dist: "distinct (map fst test_cases)"
    using cases readWrite_pas_ok(3) by (metis mset_eq_imp_distinct_iff)
  have apart: "\<forall>x\<in>fst ` set test_cases. \<forall>y\<in>fst ` set test_cases. x = y \<or> far x y"
    using readWrite_pas_ok(2) by (simp add: pas list_all_iff)
  have ok: "in_page a 8 \<and> pm_contents pm a \<noteq> None" if "(a, v) \<in> set test_cases" for a v
    using readWrite_pas_ok(1) ram that pas by (force simp: list_all_iff ram_pages_def)
  have "list_all (\<lambda>(a, v). in_page a 8 \<and> pm_contents pm a \<noteq> None) test_cases"
    using ok by (auto simp: list_all_iff)
  from test_writes_ok [OF _ this] ram obtain pm' where w: "test_writes test_cases pm = Inr pm'" "m_ram pm' = m_ram pm"
    "pm_contents pm' = put_all test_cases (pm_contents pm)" by blast
  have "\<forall>(a, v)\<in>set test_cases. in_page a 8 \<and> pm_contents pm' a \<noteq> None"
    using ok w(2) by (auto simp: contents_mapped)
  moreover have "\<forall>(a, v)\<in>set test_cases. \<forall>i<8. pm_contents pm' (a + of_nat i) = Some (byte_of_word i v)"
    using put_all_own [OF _ dist apart] w(3) by auto
  ultimately show ?thesis using w(1) test_reads_ok [of test_cases pm'] by (auto simp: PhysMemoryTest_readWrite_def)
qed

text \<open>Accesses outside of the pages and across the end of one.\<close>

lemma test_fails_fault:
  assumes ram: "ram_pages lo hi pm"
  shows "list_all (\<lambda>a. in_page a 8 \<and> \<not> (lo \<le> unat a div 4096 \<and> unat a div 4096 < hi)) pas \<Longrightarrow>
    test_fails PHYS_MEM_ACCESS_FAULT pas pm = Inr ()"
proof (induction pas)
  case (Cons a pas)
  then have "m_mapping (m_ram pm) (page_base a) = None" using ram_pages_mapped [OF ram, of a] by auto
  with Cons show ?case by (simp add: PhysMemory_read_eq PhysMemory_write_eq)
qed simp

lemma test_fails_cross:
  "list_all (\<lambda>a. \<not> in_page a 8) pas \<Longrightarrow> test_fails PHYS_MEM_PAGE_ALIGN_ERROR pas pm = Inr ()"
  by (induction pas) (simp_all add: PhysMemory_read_eq PhysMemory_write_eq)

lemma errors_pass: "test_ram pm \<Longrightarrow> PhysMemoryTest_rangeError pm = Inr ()" "PhysMemoryTest_pageAlignError pm = Inr ()"
proof -
  have "list_all (\<lambda>a. in_page a 8 \<and> \<not> (0x5000000 \<le> unat a div 4096 \<and> unat a div 4096 < 0x5001000))
     [0, RAM_BASE_PA - 8, RAM_BASE_PA + RAM_SIZE_16MB, RAM_BASE_PA + RAM_SIZE_16MB + UNALIGNED_OFFSET]"
    by (simp add: test_consts in_page_def unat_page_offset)
  then show "test_ram pm \<Longrightarrow> PhysMemoryTest_rangeError pm = Inr ()"
    unfolding PhysMemoryTest_rangeError_def using test_fails_fault by blast
  have "list_all (\<lambda>a. \<not> in_page a 8) [RAM_BASE_PA - 4, RAM_BASE_PA + PAGE_SIZE - 4, RAM_BASE_PA + RAM_SIZE_16MB - 4]"
    by (simp add: test_consts in_page_def unat_page_offset)
  then show "PhysMemoryTest_pageAlignError pm = Inr ()"
    by (simp only: PhysMemoryTest_pageAlignError_def test_fails_cross)
qed

text \<open>Bytes of a mapped page, through the memory and through the host pointer.\<close>

lemma byte_access:
  assumes "m_mapping (m_ram pm) b = Some p" and "page_offset b = 0" and "i < 4096"
  shows "PhysMemory_read (b + of_nat i) (d :: byte) pm = Inr (\<lparr>rd_status = OK, rd_host_page_ptr = Some p\<rparr>, host_mem pm (ptr_add p (of_nat i)))"
    and "PhysMemory_write (b + of_nat i) (v :: byte) pm =
      Inr (\<lparr>wr_status = OK, wr_host_page_ptr = Some p\<rparr>, pm\<lparr>host_mem := (host_mem pm)(ptr_add p (of_nat i) := v)\<rparr>)"
proof -
  have "unat (of_nat i :: 64 word) = i" using assms(3) by (simp add: unat_of_nat)
  then have "page_base (b + of_nat i) = b" "page_offset (b + of_nat i) = of_nat i" "in_page (b + of_nat i) 1"
    using page_add_offset [OF assms(2), of "of_nat i"] assms(3) by (simp_all add: in_page_def)
  then show "PhysMemory_read (b + of_nat i) d pm = Inr (\<lparr>rd_status = OK, rd_host_page_ptr = Some p\<rparr>, host_mem pm (ptr_add p (of_nat i)))"
    "PhysMemory_write (b + of_nat i) v pm =
      Inr (\<lparr>wr_status = OK, wr_host_page_ptr = Some p\<rparr>, pm\<lparr>host_mem := (host_mem pm)(ptr_add p (of_nat i) := v)\<rparr>)"
    using assms(1) by (simp_all add: PhysMemory_read_eq PhysMemory_write_eq)
qed

lemma pm_writes_loop_ok:
  "m_mapping (m_ram pm) b = Some p \<Longrightarrow> page_offset b = 0 \<Longrightarrow> i + length ds \<le> 4096 \<Longrightarrow>
    \<exists>pm'. pm_writes_loop b (Some p) i ds pm = Inr pm' \<and> m_ram pm' = m_ram pm"
proof (induction ds arbitrary: i pm)
  case (Cons d ds)
  note acc = byte_access(2) [OF Cons.prems(1,2), of i d]
  let ?pm = "pm\<lparr>host_mem := (host_mem pm)(ptr_add p (of_nat i) := d)\<rparr>"
  from Cons.IH [of ?pm "i + 1"] Cons.prems acc show ?case by (simp add: host_at_def)
qed simp

lemma host_writes_loop_ok:
  "m_mapping (m_ram pm) b = Some p \<Longrightarrow> page_offset b = 0 \<Longrightarrow> i + length ds \<le> 4096 \<Longrightarrow>
    host_writes_loop b (Some p) i ds pm = Inr ()"
proof (induction ds arbitrary: i pm)
  case (Cons d ds)
  let ?pm = "pm\<lparr>host_mem := (host_mem pm)(ptr_add p (of_nat i) := d)\<rparr>"
  have "m_mapping (m_ram ?pm) b = Some p" using Cons.prems by simp
  from byte_access(1) [OF this Cons.prems(2), of i] Cons.IH [OF this Cons.prems(2), of "i + 1"] Cons.prems(3)
  show ?case by (simp add: host_set_def host_at_def)
qed simp

lemma pointers_pass:
  assumes ram: "test_ram pm" and len: "length data1 = 4096" "length data2 = 4096"
  shows "PhysMemoryTest_constHostPtr pm = Inr ()" "PhysMemoryTest_hostPtr byte1 byte2 pm = Inr ()"
    "PhysMemoryTest_hostPtrCoherency byte1 data1 data2 pm = Inr ()"
proof -
  let ?b = "RAM_BASE_PA + PAGE_SIZE"
  have b: "page_offset ?b = 0" "page_base ?b = ?b" "unat ?b div 4096 = 0x5000001"
    by (simp_all add: test_consts PAGE_OFFSET_MASK_def)
  have "m_mapping (m_ram pm) (page_base ?b) \<noteq> None" using ram_pages_mapped [where lo = "0x5000000" and hi = "0x5001000" and pm = pm and a = ?b] ram b(3) by simp
  then obtain p where p: "m_mapping (m_ram pm) ?b = Some p" by (auto simp: b(2))
  note rd = byte_access(1) [OF _ b(1), where i = 0] byte_access(1) [OF _ b(1), where i = 255]
  note wr = byte_access(2) [OF _ b(1), where i = 0] byte_access(2) [OF _ b(1), where i = 255]
  show "PhysMemoryTest_constHostPtr pm = Inr ()" "PhysMemoryTest_hostPtr byte1 byte2 pm = Inr ()"
    using p by (simp_all add: PhysMemoryTest_constHostPtr_def PhysMemoryTest_hostPtr_def test_read_ptr_def test_write_ptr_def
        host_at_def rd [simplified] wr [simplified])
  define pm1 where "pm1 = pm\<lparr>host_mem := (host_mem pm)(ptr_add p 0 := byte1)\<rparr>"
  have p1: "m_mapping (m_ram pm1) ?b = Some p" using p by (simp add: pm1_def)
  have w: "test_write_ptr ?b 0 byte1 pm = Inr (Some p, pm1)"
    using p by (simp add: test_write_ptr_def host_at_def wr [simplified] pm1_def)
  from pm_writes_loop_ok [OF p1 b(1), where i = 0 and ds = data1] len obtain pm2
    where w2: "pm_writes_loop ?b (Some p) 0 data1 pm1 = Inr pm2" "m_ram pm2 = m_ram pm1" by auto
  from host_writes_loop_ok [where pm = pm2 and b = ?b and p = p and i = 0 and ds = data2] b(1) len w2 p1 w
  show "PhysMemoryTest_hostPtrCoherency byte1 data1 data2 pm = Inr ()"
    by (simp add: PhysMemoryTest_hostPtrCoherency_def)
qed

section \<open>The tests pass\<close>

text \<open>
  C34: the unit tests of the other modules pass, whatever numbers they draw: the helpers for bit fields, the
  register file and the decoder on their concrete inputs (and the decoder returns on every code); and,
  if \<open>mmap\<close> grants blocks of up to 32 MB, the fixture of the memory tests is built and its tests of reads
  and writes at all widths, of failing accesses and of host pointers pass.
\<close>

theorem module_tests_pass:
  assumes mm: "mmap_contract mm" "mmap_grants mm (8192 * 4096)" and fuel: "4096 < fuel"
    and drawn: "length vs = GPR_NUMBER - 1" "length data1 = 4096" "length data2 = 4096"
    and cases: "mset (map fst test_cases) = mset readWrite_pas"
  shows "run_all [Bit_onesMask, Bit_bitSize, Bit_signExtend, Bit_maskBits, Bit_getBitField] = Inr () \<and>
    run_all [GPRTest_zero v, GPRTest_readWrite vs, GPRTest_outOfRangeRead, GPRTest_outOfRangeWrite v] = Inr () \<and>
    run_all [Instr_undef, Instr_add, Instr_srli, Instr_jal, Instr_lui, Instr_beq, Instr_beq_minus, Instr_sraiw,
      Instr_garbage code] = Inr () \<and>
    (\<exists>pm. PhysMemoryTest fuel mm = Some (Inr pm) \<and>
      run_all [PhysMemoryTest_readWrite test_cases pm, PhysMemoryTest_rangeError pm, PhysMemoryTest_pageAlignError pm,
        PhysMemoryTest_constHostPtr pm, PhysMemoryTest_hostPtr byte1 byte2 pm,
        PhysMemoryTest_hostPtrCoherency byte1 data1 data2 pm] = Inr ())"
proof -
  obtain pm where pm: "PhysMemoryTest fuel mm = Some (Inr pm)" "test_ram pm" using PhysMemoryTest_ok [OF mm fuel] by blast
  have bit: "run_all [Bit_onesMask, Bit_bitSize, Bit_signExtend, Bit_maskBits, Bit_getBitField] = Inr ()"
    by (intro run_all_pass) (simp add: bit_tests)
  have gpr: "run_all [GPRTest_zero v, GPRTest_readWrite vs, GPRTest_outOfRangeRead, GPRTest_outOfRangeWrite v] = Inr ()"
    using drawn(1) by (intro run_all_pass) (simp add: gpr_tests)
  have instr: "run_all [Instr_undef, Instr_add, Instr_srli, Instr_jal, Instr_lui, Instr_beq, Instr_beq_minus, Instr_sraiw,
      Instr_garbage code] = Inr ()" by (intro run_all_pass) (simp add: instr_tests)
  have "run_all [PhysMemoryTest_readWrite test_cases pm, PhysMemoryTest_rangeError pm, PhysMemoryTest_pageAlignError pm,
      PhysMemoryTest_constHostPtr pm, PhysMemoryTest_hostPtr byte1 byte2 pm, PhysMemoryTest_hostPtrCoherency byte1 data1 data2 pm] = Inr ()"
    using pm(2) drawn by (intro run_all_pass) (simp add: pointers_pass readWrite_passes [OF _ cases] errors_pass)
  with pm(1) bit gpr instr show ?thesis by blast
qed

end
