(* ===== verification/Witnesses.thy ===== *)
theory Witnesses
  imports SimTests DemoElf HostMem ModTests
begin

text \<open>
  Instances of the properties that have hypotheses, on the concrete machines.
\<close>

lemmas page_consts = PAGE_OFFSET_MASK_def PAGE_SIZE_def

section \<open>Memory and translation\<close>

theorem phys_write_then_read_witness:
  "\<exists>r pm'. PhysMemory_write 0x100008 (0x1234 :: 16 word) (snd demo_page) = Inr (r, pm') \<and>
     pm_contents pm' = mem_put 0x100008 (0x1234 :: 16 word) (pm_contents (snd demo_page)) \<and>
     (\<exists>p. PhysMemory_read 0x100008 0 pm' = Inr (\<lparr>rd_status = OK, rd_host_page_ptr = Some p\<rparr>, 0x1234 :: 16 word))"
proof -
  have "\<not> isl (PhysMemory_write 0x100008 (0x1234 :: 16 word) (snd demo_page))"
    "wr_status (fst (projr (PhysMemory_write 0x100008 (0x1234 :: 16 word) (snd demo_page)))) = OK" by code_simp+
  then obtain r pm' where w: "PhysMemory_write 0x100008 (0x1234 :: 16 word) (snd demo_page) = Inr (r, pm')" "wr_status r = OK"
    by (metis Inr_projr_2)
  have ty: "int_type TYPE(16)" by simp
  show ?thesis using phys_write_then_read [OF ty pm_inv_ok [OF demo_page_ok(1)] w, of 0] w by blast
qed

theorem ram_page_fresh_witness:
  "addRAMPage demo_mm 0x100000 (snd demo_tables) = Inr (True, snd demo_page) \<and> pm_inv demo_mm (snd demo_page) \<and>
   pm_contents (snd demo_tables) 0x100000 = None \<and> pm_contents (snd demo_page) 0x100008 = Some 0"
proof -
  have "page_base 0x100008 = 0x100000" by (simp add: page_consts)
  then show ?thesis
    using ram_page_fresh [OF demo_mm_contract demo_tables_ok(1) demo_page_new] demo_page_new by simp
qed

theorem translate_by_pages_witness:
  "translate USER READ 0x12345010 demo_ms demo_satp (snd (snd demo_mapped)) = Inr \<lparr>mmu_status = OK, phys_addr = 0x100010\<rparr> \<and>
   translate USER READ 0x12345FFF demo_ms demo_satp (snd (snd demo_mapped)) = Inr \<lparr>mmu_status = OK, phys_addr = 0x100FFF\<rparr>"
proof -
  have "page_base 0x12345FFF = page_base (0x12345010 :: 64 word)" by (simp add: page_consts)
  from translate_by_pages [OF demo_translate this, of READ] demo_translate [of READ] show ?thesis
    by (simp add: page_consts)
qed

theorem translate_ignores_high_bits_witness:
  "translate USER READ 0x8012345010 demo_ms demo_satp (snd (snd demo_mapped)) = Inr \<lparr>mmu_status = OK, phys_addr = 0x100010\<rparr>"
proof -
  have "m_mode demo_satp \<noteq> BARE" "take_bit (12 + 9 * mode_levels (m_mode demo_satp)) 0x8012345010 =
      (take_bit (12 + 9 * mode_levels (m_mode demo_satp)) 0x12345010 :: 64 word)" by (simp_all add: demo_satp_def)
  from translate_ignores_high_bits [OF this, of USER READ] demo_translate [of READ] show ?thesis by simp
qed

theorem map_then_translate_witness:
  "translate USER WRITE 0x12345678 demo_ms demo_satp (snd (snd demo_mapped)) = Inr \<lparr>mmu_status = OK, phys_addr = 0x100678\<rparr>"
proof -
  have "page_base 0x12345678 = 0x12345 * PAGE_SIZE" by (simp add: page_consts)
  moreover have "flag_r 0x1E \<or> (flag_x 0x1E \<and> \<not> flag_w 0x1E)" "access_allowed USER WRITE 0x1E demo_ms" by code_simp+
  moreover have "mapper_satp (fst demo_tables) demo_satp" by (simp add: mapper_satp_def demo_tables_ok(3) demo_satp_def)
  moreover have "(0x100 :: PPN) < 2 ^ 44" by simp
  ultimately show ?thesis
    using map_then_translate [OF demo_page_ok(2) pm_inv_ok [OF demo_page_ok(1)] demo_mapped_new,
        of demo_satp "0x12345678" USER WRITE demo_ms]
    by (simp add: page_consts)
qed

theorem map_keeps_translations_witness:
  "translate USER READ 0x12345010 demo_ms demo_satp (snd (snd demo_again)) = Inr \<lparr>mmu_status = OK, phys_addr = 0x100010\<rparr>"
proof -
  obtain lv where lv: "mapper_ok (fst (snd demo_mapped)) lv (pm_contents (snd (snd demo_mapped)))"
    using demo_mapped_ok(2) by blast
  have "mp_ppn (MemoryMapping_new 0x1E 0x12346 0x101) < 2 ^ 44" by (simp add: MemoryMapping_new_def)
  from map_keeps_translations [OF lv pm_inv_ok [OF demo_mapped_ok(1)] this demo_again_new demo_mapped_ok(3) demo_translate]
  show ?thesis by simp
qed


theorem map_returns_witness:
  "\<exists>s m' pm' lv'. mapper_map (MemoryMapping_new 0x1E 0x12345 0x100) (fst demo_tables) (snd demo_page) = Inr (s, m', pm') \<and>
     mapper_ok m' lv' (pm_contents pm') \<and> pm_ok pm' \<and>
     (s = OK \<or> s = MAPPER_ALREADY_MAPPED \<and> m' = fst demo_tables \<and> pm' = snd demo_page)"
proof -
  let ?mp = "MemoryMapping_new 0x1E 0x12345 0x100"
  have "path_missing (fst demo_tables) (mp_vpn ?mp) (pm_contents (snd demo_page)) \<le> 2"
    using path_missing_le [of "fst demo_tables"] by (simp add: demo_tables_ok(3))
  then have "mp_ppn ?mp < 2 ^ 44" "\<not> in_region (fst demo_tables) (mp_ppn ?mp)"
    "unat (sm_curr_table (fst demo_tables)) + path_missing (fst demo_tables) (mp_vpn ?mp) (pm_contents (snd demo_page)) \<le>
     unat (sm_table_region_end (fst demo_tables))"
    by (simp_all add: MemoryMapping_new_def in_region_def demo_tables_ok(3))
  from map_returns [OF demo_page_ok(2) pm_inv_ok [OF demo_page_ok(1)] this] show ?thesis by blast
qed

lemma demo_tables_set: "maps_set (fst demo_tables) {} (pm_contents (snd demo_page))"
proof (rule maps_set_agree)
  have "(3 :: 64 word) \<le> 2 ^ 44" by simp
  from SimpleMemoryMapper_new_set [OF demo_mm_contract demo_pm_inv _ this demo_tables_new]
  show "maps_set (fst demo_tables) {} (pm_contents (snd demo_tables))" by simp
next
  fix a assume "page_base a \<in> region_pages (fst demo_tables)"
  then have "pm_contents (snd demo_tables) (page_base a) \<noteq> None" by (rule region_page_present [OF demo_tables_ok(2)])
  then show "pm_contents (snd demo_page) a = pm_contents (snd demo_tables) a"
    using addRAMPage_spec [OF demo_mm_contract demo_tables_ok(1) demo_page_new] by auto
qed

theorem map_refines_insert_witness:
  "maps_set (fst (snd demo_mapped)) {0x12345} (pm_contents (snd (snd demo_mapped)))"
proof -
  have "(0x100 :: PPN) < 2 ^ 44" "\<not> in_region (fst demo_tables) 0x100" by (simp_all add: in_region_def demo_tables_ok(3))
  from map_refines_insert [OF demo_tables_set pm_inv_ok [OF demo_page_ok(1)] this, of "0x1E" "0x12345"]
  show ?thesis unfolding demo_mapped_new by (auto simp: page_no_def demo_tables_ok(3))
qed

theorem allocPage_bounds_witness:
  "\<exists>p a'. allocPage demo_mm (m_page_allocator (m_ram demo_pm)) = Inr (p, a') \<and> alloc_count a' 1"
proof -
  have mm: "mmap_grants demo_mm (4096 * 4096)" by (simp add: mmap_grants_def demo_mm_def)
  have "alloc_count (m_page_allocator (m_ram demo_pm)) 0"
    using PhysMemory_new_count [OF mm] demo_pm_new by simp
  from allocPage_bounds [OF mm this] show ?thesis by auto
qed

text \<open>Two pages of a 16 MB block; the vector doubles its capacity when it grows.\<close>

theorem blocks_unmapped_once_witness:
  "\<exists>ps before after. alloc_life demo_mm (\<lambda>cap. cap) 2 = Inr (ps, before, after) \<and> length ps = 2 \<and> distinct ps \<and>
     hc_munmaps before = [] \<and> hc_munmaps after = hc_mmaps after \<and> hc_mmaps after \<noteq> []"
proof -
  have "\<not> isl (alloc_life demo_mm (\<lambda>cap. cap) 2)" by code_simp
  then obtain ps before after where life: "alloc_life demo_mm (\<lambda>cap. cap) 2 = Inr (ps, before, after)"
    by (cases "alloc_life demo_mm (\<lambda>cap. cap) 2") auto
  show ?thesis using blocks_unmapped_once [OF demo_mm_contract life] life by auto
qed

section \<open>The unit tests of the modules\<close>

text \<open>The tests draw zeros, and the loops over the map take its elements in the order of the source.\<close>

theorem module_tests_pass_witness:
  "\<exists>pm. PhysMemoryTest 4097 demo_mm = Some (Inr pm) \<and>
     run_all [PhysMemoryTest_readWrite (map (\<lambda>pa. (pa, 0)) readWrite_pas) pm, PhysMemoryTest_rangeError pm,
       PhysMemoryTest_pageAlignError pm, PhysMemoryTest_constHostPtr pm, PhysMemoryTest_hostPtr 0 0 pm,
       PhysMemoryTest_hostPtrCoherency 0 (replicate 4096 0) (replicate 4096 0) pm] = Inr ()"
proof -
  have grants: "mmap_grants demo_mm (8192 * 4096)" by (simp add: mmap_grants_def demo_mm_def)
  have cases: "mset (map fst (map (\<lambda>pa. (pa, 0 :: 64 word)) readWrite_pas)) = mset readWrite_pas" by (simp add: o_def)
  show ?thesis
    using module_tests_pass [OF demo_mm_contract grants _ _ _ _ cases, of 4097 "replicate 31 0" "replicate 4096 0" "replicate 4096 0"]
    by (auto simp: GPR_NUMBER_def)
qed

section \<open>The loader and the program\<close>

lemma demo_loader: "\<exists>l pm. ready demo_mm l pm \<and> pages_of l = {} \<and> m_next_map_ppn l = 16"
proof -
  have "mmap_grants demo_mm (4096 * 4096)" by (simp add: mmap_grants_def demo_mm_def)
  then have "alloc_count (m_page_allocator (m_ram demo_pm)) 0" using PhysMemory_new_count demo_pm_new by fastforce
  with new_loader_ready [OF demo_grants demo_pm_new] show ?thesis by force
qed

theorem loadElf_succeeds_witness:
  "\<exists>l pm l' pm'. ready demo_mm l pm \<and> loadElf 2 demo_mm demo_elf l pm = Some (Inr ((OK, 0x10000), l', pm'))"
proof -
  obtain l pm where l: "ready demo_mm l pm" "pages_of l = {}" "m_next_map_ppn l = 16" using demo_loader by blast
  have "unat (1 :: 16 word) = 1" by simp
  then show ?thesis
    using loadElf_succeeds [OF l(1) demo_elf_simps(1), of 2] demo_elf_simps(3,4) demo_grants [of 17] l by auto
qed

theorem loadElf_image_witness:
  "\<exists>l pm l' pm'. loadElf 2 demo_mm demo_elf l pm = Some (Inr ((OK, 0x10000), l', pm')) \<and>
     user_sees demo_ms demo_satp pm' 0x10000 (Some 0x73)"
proof -
  obtain l pm where l: "ready demo_mm l pm" "pages_of l = {}" "m_next_map_ppn l = 16" using demo_loader by blast
  have one: "unat (1 :: 16 word) = 1" by simp
  then obtain l' pm' where load: "loadElf 2 demo_mm demo_elf l pm = Some (Inr ((OK, 0x10000), l', pm'))" and r: "ready demo_mm l' pm'"
    using loadElf_ready [OF l(1) demo_elf_simps(1), of 2] demo_elf_simps(3,4) demo_grants [of 17] l by auto
  have inv: "loader_inv demo_mm 16 l pm" "loaded l pm" using l(1,3) by (simp_all add: ready_def)
  have satp: "mapper_satp (m_mapper l') demo_satp" using r by (simp add: ready_def loader_inv_def mapper_satp_def demo_satp_def)
  have n: "16 + 2 ^ 16 * 2 \<le> (2 ^ 44 :: nat)" by simp
  have page: "on_seg_page demo_seg 0x10000" by (rule demo_on_page) (simp add: page_consts)
  have byte: "seg_byte demo_buf demo_seg 0x10000 = Some 0x73" by (simp add: seg_byte_def image_at_def demo_seg_def demo_buf_def)
  have hdr: "elf_ehdr demo_elf = Some (1, 0x10000)" "elf_buf demo_elf = Some demo_buf" by (simp_all add: demo_elf_def)
  from loadElf_image [OF demo_mm_contract program_fits_ok [OF demo_program_fits] inv(1) n inv(2) load satp, of demo_ms] hdr
  have "user_sees demo_ms demo_satp pm' 0x10000 (seg_byte demo_buf demo_seg 0x10000)"
    using page one by (simp add: demo_load_seg)
  with load byte show ?thesis by auto
qed

theorem sim_app_correct_witness:
  "\<exists>out sim'. sim_app_main 2 1 True demo_mm 2 demo_elf = Some (Inr (0, out, sim'))"
proof -
  have "(2 :: nat) \<le> 2 ^ 27" by simp
  from sim_app_correct [OF demo_program_fits this, where X = "\<lambda>_. True" and log_enable = True] obtain sim where st: "started demo_elf demo_buf 1 sim"
    and run: "\<forall>n s a'. isa_run (\<lambda>_. True) n (start_arch 0x10000 sim) = Some (s, a') \<longrightarrow>
      (\<exists>sim'. sim_app_main 2 n True demo_mm 2 demo_elf = Some (Inr (if s = SIM_EXIT then 0 else - 1, isa_report s a', sim')) \<and> arch sim' = a')"
    by blast
  obtain a' where "isa_run (\<lambda>_. True) 1 (start_arch 0x10000 sim) = Some (SIM_EXIT, a')" using demo_run [OF st] by blast
  with run show ?thesis by fastforce
qed

theorem sim_app_main_inv_witness:
  "\<exists>start_pc sim out sim'. app_setup 2 True demo_mm demo_elf = Some (Inr (start_pc, sim)) \<and>
     sim_app_main 2 1 True demo_mm 2 demo_elf = Some (Inr (0, out, sim')) \<and> sim_inv sim'"
proof -
  obtain sim where start: "app_setup 2 True demo_mm demo_elf = Some (Inr (0x10000, sim))" and st: "started demo_elf demo_buf 1 sim"
    and co: "coherent (\<lambda>_. True) sim" using app_started [OF demo_program_fits] by auto
  obtain a' where run: "isa_run (\<lambda>_. True) 1 (start_arch 0x10000 sim) = Some (SIM_EXIT, a')" using demo_run [OF st] by blast
  obtain out sim' where main: "sim_app_main 2 1 True demo_mm 2 demo_elf = Some (Inr (0, out, sim'))"
    using sim_app_main_isa [OF start _ co run] st by (auto simp: started_def)
  from sim_app_main_inv [OF demo_mm_contract _ main] start main show ?thesis by auto
qed

section \<open>Registers, decoder, caches\<close>

theorem gpr_read_after_write_witness:
  "\<exists>g'. GPRFile_write 5 0xABCD \<lparr>m_gpr = replicate 32 0\<rparr> = Inr g' \<and> GPRFile_read 5 g' = Inr (0xCD :: 8 word)"
proof -
  have "gpr_inv \<lparr>m_gpr = replicate 32 0\<rparr>" by (simp add: gpr_inv_def GPR_NUMBER_def ZERO_def)
  from gpr_read_after_write [OF this, of 5 5 "0xABCD", where 'a = 8] show ?thesis by auto
qed

theorem decode_encode_witness:
  "decode (encode (YamlInstr I_ADDI [Y_rd, Y_rs1, Y_imm12] 0x707F 0x13)
      \<lparr>m_id = I_ADDI, m_rd = 10, m_rs1 = 11, m_rs2 = 0, m_imm = - 5, m_rm = 0\<rparr>) =
    Inr \<lparr>m_id = I_ADDI, m_rd = 10, m_rs1 = 11, m_rs2 = 0, m_imm = - 5, m_rm = 0\<rparr>"
proof -
  let ?inst = "YamlInstr I_ADDI [Y_rd, Y_rs1, Y_imm12] 0x707F 0x13"
  let ?i = "\<lparr>m_id = I_ADDI, m_rd = 10, m_rs1 = 11, m_rs2 = 0, m_imm = - 5, m_rm = 0\<rparr> :: Instr"
  have "?inst \<in> set decoder_instrs" by code_simp
  moreover have "instance_of ?i ?inst" by (simp add: instance_of_def KNOWN_IMMS_def)
  ultimately show ?thesis by (rule decode_encode)
qed

theorem decode_complete_witness: "\<exists>i. decode 0x0FF00513 = Inr i \<and> m_id i = I_ADDI"
proof -
  let ?inst = "YamlInstr I_ADDI [Y_rd, Y_rs1, Y_imm12] 0x707F 0x13"
  have "?inst \<in> set decoder_instrs" by code_simp
  moreover have "0x0FF00513 AND fixedmask ?inst = fixedvalue ?inst" by simp
  ultimately show ?thesis using decode_complete [of ?inst "0x0FF00513"] by simp
qed

theorem tlb_find_after_update_witness:
  "\<exists>t'. TLB_update 7 0x12345010 (Some (HostAddr 3 0x2000)) (TLB_new 7) = Inr t' \<and>
     TLB_find 7 0x12345018 t' = Inr (True, Some (HostAddr 3 0x2018))"
proof -
  have "page_base 0x12345018 = page_base (0x12345010 :: 64 word)" by (simp add: page_consts)
  with tlb_find_after_update [OF TLB_new_inv [of 7], of "0x12345010" "Some (HostAddr 3 0x2000)"]
  show ?thesis by (auto simp: ptr_add_def page_consts)
qed

section \<open>The simulator\<close>

lemma demo_user_translate:
  "user_translate acc 0x12345010 demo_sim = Inr \<lparr>mmu_status = OK, phys_addr = 0x100010\<rparr>"
proof -
  have "m_hart demo_sim0 = Hart_new" using Simulator_new_fields(2) [OF demo_sim0_new] .
  then have "m_mstatus64 (m_csr_file (m_hart demo_sim)) = demo_ms"
    by (simp add: demo_sim_def demo_ms_def Hart_new_def CSRFile_init_def)
  then show ?thesis
    using demo_translate [of acc] by (simp add: user_translate_def translate_eq [symmetric] demo_sim_def)
qed

lemma demo_addr: "page_base 0x12345010 \<noteq> POISON_VA"
  by (simp add: page_consts POISON_VA_def)

theorem load_transparent_witness:
  "case load_ref READ 0x12345010 demo_sim of
      Inl e \<Rightarrow> loadInt READ 0x12345010 demo_sim = (Inl e :: ((SimStatus \<times> 32 word) \<times> Simulator) res)
    | Inr (r :: SimStatus \<times> 32 word) \<Rightarrow>
        \<exists>sim'. loadInt READ 0x12345010 demo_sim = Inr (r, sim') \<and> sim_inv sim' \<and> same_arch demo_sim sim'"
proof -
  note exact = load_transparent [OF _ demo_sim_inv, of READ "0x12345010", where 'a = 32]
  with demo_addr show ?thesis by (simp split: if_splits)
qed

theorem store_transparent_witness:
  "case store_ref 0x12345010 (0x55 :: 64 word) demo_sim of
      Inl e \<Rightarrow> storeInt 0x12345010 (0x55 :: 64 word) demo_sim = Inl e
    | Inr (st, c') \<Rightarrow> \<exists>sim'. storeInt 0x12345010 (0x55 :: 64 word) demo_sim = Inr (st, sim') \<and> sim_inv sim' \<and>
        same_regs demo_sim sim' \<and> contents_of sim' = c' \<and>
        (\<forall>acc va. user_translate acc va sim' = user_translate acc va demo_sim)"
proof -
  note exact = store_transparent [OF _ demo_sim_inv, of "0x12345010" "0x55 :: 64 word"]
  with demo_addr show ?thesis by (simp split: if_splits)
qed

theorem poison_page_null_witness:
  "loadInt READ 0x100000000000008 demo_sim0 = (Inl NullDeref :: ((SimStatus \<times> 64 word) \<times> Simulator) res)"
proof -
  have "0x100000000000008 AND addrAlignMask TYPE(64) = 0" by code_simp
  moreover have "page_base 0x100000000000008 = POISON_VA" by (simp add: page_consts POISON_VA_def)
  ultimately show ?thesis by (rule poison_page_null) (rule demo_sim0_new)
qed

theorem new_simulator_inv_witness: "sim_inv (demo_sim0\<lparr>m_phys_memory := snd demo_page\<rparr>)"
  using new_simulator_inv [OF demo_sim0_new demo_page_ok(1)] by blast

text \<open>An instruction for each format, with the registers of the concrete machine.\<close>

definition demo_instr :: "InstrId \<Rightarrow> 32 word \<Rightarrow> Instr" where
  "demo_instr mn imm = \<lparr>m_id = mn, m_rd = 7, m_rs1 = 5, m_rs2 = 6, m_imm = imm, m_rm = 0\<rparr>"

lemma demo_instr_ok: "mn \<notin> {I_SLLI, I_SRLI, I_SRAI, I_SLLIW, I_SRLIW, I_SRAIW, SIM_STATUS_INSTR} \<Longrightarrow> instr_ok (demo_instr mn imm)"
  by (simp add: instr_ok_def demo_instr_def)

lemma demo_instr_fields [simp]:
  "m_id (demo_instr mn imm) = mn" "m_rd (demo_instr mn imm) = 7" "m_rs1 (demo_instr mn imm) = 5"
  "m_rs2 (demo_instr mn imm) = 6" "m_imm (demo_instr mn imm) = imm"
  by (simp_all add: demo_instr_def)

lemma demo_regs [simp]: "m_gpr (m_gpr_file (m_hart demo_sim)) ! 5 = 0x12345010" "m_gpr (m_gpr_file (m_hart demo_sim)) ! 6 = 0x77" "pc_of demo_sim = 0x12345000"
  by (simp_all add: demo_sim_def)

theorem alu_conforms_witness:
  "call (demo_instr I_ADD 0) demo_sim = Inr (Next, incr_to 0x12345004 (put_reg 7 0x12345087 (traced (demo_instr I_ADD 0) demo_sim)))"
proof -
  have "alu_defined I_ADD 0x12345010 0x77" by code_simp
  with alu_conforms [OF demo_instr_ok, of I_ADD 0 demo_sim "0x12345087"] show ?thesis by simp
qed

theorem alu_undefined_witness:
  "call (demo_instr I_SLL 0) demo_sim = Inl ShiftUB"
proof -
  have "\<not> alu_defined I_SLL 0x12345010 0x77" by code_simp
  with alu_undefined [OF demo_instr_ok, of I_SLL 0 demo_sim] show ?thesis by simp
qed

theorem auipc_conforms_iff_witness:
  "call (demo_instr I_AUIPC 0xFFFFF000) demo_sim \<noteq>
     Inr (Next, incr_to 0x12345004 (put_reg 7 0x12344000 (traced (demo_instr I_AUIPC 0xFFFFF000) demo_sim)))"
proof -
  have "bit (0xFFFFF000 :: 32 word) 31" and "0x12345000 + scast (0xFFFFF000 :: 32 word) = (0x12344000 :: 64 word)" by code_simp+
  with auipc_conforms_iff [OF demo_instr_ok _ _ demo_sim_inv, of I_AUIPC "0xFFFFF000"] show ?thesis by simp
qed

lemma demo_eff [simp]: "eff_addr (demo_instr mn 0) demo_sim = 0x12345010"
  by (simp add: eff_addr_def)

lemma demo_present: "contents_of demo_sim 0x100010 \<noteq> None"
  using demo_contents by (simp add: demo_sim_def)

theorem load_conforms_witness:
  "\<exists>sim1. sim_inv sim1 \<and> same_arch (traced (demo_instr I_LD 0) demo_sim) sim1 \<and> call (demo_instr I_LD 0) demo_sim =
    Inr (Next, incr_to 0x12345004 (put_reg 7 (mem_word (contents_of demo_sim) 0x100010) sim1))"
  using load_conforms [OF demo_sim_inv demo_instr_ok _ demo_eff [symmetric], of I_LD 8 "\<lambda>c a. mem_word c a"]
    demo_addr demo_user_translate [of READ] demo_present by (simp split: if_splits)

theorem store_conforms_witness:
  "\<exists>sim1. sim_inv sim1 \<and> same_regs (traced (demo_instr I_SD 0) demo_sim) sim1 \<and>
    contents_of sim1 = mem_put 0x100010 (0x77 :: 64 word) (contents_of demo_sim) \<and>
    (\<forall>acc va. user_translate acc va sim1 = user_translate acc va demo_sim) \<and>
    call (demo_instr I_SD 0) demo_sim = Inr (Next, incr_to 0x12345004 (logMemWrite 0x12345010 0x77 sim1))"
  using store_conforms [OF demo_sim_inv demo_instr_ok _ demo_eff [symmetric], of I_SD 8 "\<lambda>a v. mem_put a v"]
    demo_addr demo_user_translate [of WRITE] demo_present by (simp split: if_splits)

theorem branch_conforms_witness:
  "call (demo_instr I_BNE 8) demo_sim = Inr (Return OK, jump_to 0x12345008 (traced (demo_instr I_BNE 8) demo_sim)) \<and>
   call (demo_instr I_BNE 6) demo_sim = Inr (Return SIM_PC_ALIGN_ERROR, traced (demo_instr I_BNE 6) demo_sim)"
  using branch_conforms [OF demo_instr_ok, of I_BNE 8 _ demo_sim] branch_conforms [OF demo_instr_ok, of I_BNE 6 _ demo_sim]
  by (simp add: Let_def)

theorem jump_conforms_witness:
  "call (demo_instr I_JAL 16) demo_sim = Inr (Return OK, jump_to 0x12345010 (put_reg 7 0x12345004 (traced (demo_instr I_JAL 16) demo_sim)))"
  using jump_conforms [OF demo_instr_ok, of I_JAL 16 _ demo_sim] by simp

text \<open>The second instruction of the program is a multiplication.\<close>

theorem unimplemented_null_call_witness: "simulate 2 CODE_SEG_BASE mul_sim = Some (Inl NullCall)"
proof -
  let ?inst = "YamlInstr (NotImpl ''MUL'') [Y_rd, Y_rs1, Y_rs2] 0xFE00707F 0x2000033"
  obtain b where b: "isa_reaches (\<lambda>p. p = CODE_SEG_BASE) 1 (start_arch CODE_SEG_BASE mul_sim) b"
    "window_ok b" "code_at (\<lambda>p. p = CODE_SEG_BASE) (a_pc b) b" "isa_fetch (a_pc b) b = Inr (OK, 0x02000033)"
    using mul_reached by blast
  have "?inst \<in> set decoder_instrs" "0x02000033 AND fixedmask ?inst = fixedvalue ?inst" by code_simp+
  from unimplemented_null_call [OF fresh_sim_ok [OF mul_sim_fresh] b this] show ?thesis by (simp add: numeral_2_eq_2)
qed

lemma addSub_simulate: "\<exists>sim'. simulate 6 CODE_SEG_BASE addSub_sim = Some (Inr (OK, sim'))"
  using addSub_run simulate_isa [OF fresh_sim_ok [OF addSub_sim_fresh]] by fastforce

theorem simulate_refines_witness:
  "\<exists>sim'. simulate 6 CODE_SEG_BASE addSub_sim = Some (Inr (OK, sim')) \<and> a_regs (arch sim') ! 10 = - 20"
  using addSub_run simulate_refines [OF fresh_sim_ok [OF addSub_sim_fresh]] by fastforce

text \<open>The program that jumps to itself keeps the simulator running forever.\<close>

theorem simulate_reflects_witness: "\<forall>fuel. simulate fuel CODE_SEG_BASE endless_sim = None"
proof -
  note start = fresh_sim_ok [OF endless_sim_fresh]
  from simulate_reflects [OF start endless_defined] endless_run show ?thesis by blast
qed

theorem simulate_inv_witness:
  "\<exists>sim'. simulate 6 CODE_SEG_BASE addSub_sim = Some (Inr (OK, sim')) \<and> sim_inv sim'"
  using addSub_simulate simulate_inv [OF fresh_sim_ok(1) [OF addSub_sim_fresh], of 6 CODE_SEG_BASE] by fastforce

theorem simulate_fuel_witness:
  "\<exists>sim'. simulate 1000000 CODE_SEG_BASE addSub_sim = Some (Inr (OK, sim'))"
proof -
  obtain sim' where "simulate 6 CODE_SEG_BASE addSub_sim = Some (Inr (OK, sim'))" using addSub_simulate by blast
  from simulate_fuel [OF this, of 1000000] show ?thesis by simp
qed

theorem simulate_log_transparent_witness:
  "simulate 6 CODE_SEG_BASE (addSub_logged\<lparr>m_log := None\<rparr>) =
    map_option (mapR (\<lambda>sim'. sim'\<lparr>m_log := None\<rparr>)) (simulate 6 CODE_SEG_BASE addSub_logged)"
  by (rule simulate_log_transparent) (rule addSub_logged_ok(1))

theorem simulate_log_replays_witness:
  "\<exists>sim'. simulate 6 CODE_SEG_BASE addSub_logged = Some (Inr (OK, sim')) \<and> m_log sim' = Some addSub_log \<and>
     replay addSub_log (CODE_SEG_BASE, m_gpr (m_gpr_file (m_hart addSub_logged)), 0) = Some (progress sim')"
proof -
  obtain sim' where run: "simulate 6 CODE_SEG_BASE addSub_logged = Some (Inr (OK, sim'))" and log: "m_log sim' = Some addSub_log"
    using addSub_logged_run by blast
  from simulate_log_replays [OF addSub_logged_ok(1,3) run] run log show ?thesis by auto
qed

theorem bb_update_wf_witness:
  "\<exists>bb'. Bb_update (\<lambda>s :: unit. Inr (\<lparr>fr_status = OK, fr_instr_code = 0x0FF00513\<rparr>, s)) 0x1000 Bb_new () = Inr (bb', ()) \<and>
     bb_inv bb' \<and> m_virt_addr bb' = 0x1000"
proof -
  have "\<not> isl (Bb_update (\<lambda>s :: unit. Inr (\<lparr>fr_status = OK, fr_instr_code = 0x0FF00513\<rparr>, s)) 0x1000 Bb_new ())" by code_simp
  then obtain bb' u where "Bb_update (\<lambda>s :: unit. Inr (\<lparr>fr_status = OK, fr_instr_code = 0x0FF00513\<rparr>, s)) 0x1000 Bb_new () = Inr (bb', u)"
    by (metis Inr_projr_2)
  with bb_update_wf [OF Bb_new_inv this] show ?thesis by simp
qed

end
