(* ===== verification/Spec2Isabelle.thy ===== *)
theory Spec2Isabelle
  imports Witnesses
begin

text \<open>
  Verification of sim2023, a simulator of a 64-bit RISC-V hart written in C++.

  \<^bold>\<open>The program.\<close> \<^verbatim>\<open>sim_app\<close> builds a \<^verbatim>\<open>Simulator\<close>, lets an \<^verbatim>\<open>ElfLoader\<close> map a stack and the segments of
  an ELF file into its memory, and runs it. The loader uses \<^verbatim>\<open>SimpleMemoryMapper\<close> to build page
  tables in \<^verbatim>\<open>PhysMemory\<close>; the simulator translates addresses with \<^verbatim>\<open>MMU64\<close> over the same tables and
  keeps translations in three TLBs. Its main loop finds the basic block at the program counter in a cache of
  decoded blocks (or fetches and decodes it), and runs the handlers of its instructions as a chain
  of tail calls. The decoder is generated from \<^verbatim>\<open>risc-v.yaml\<close>, the CSR classes from \<^verbatim>\<open>csr.yaml\<close>, the
  dispatch table by \<^verbatim>\<open>gen_dispatch.py\<close>.

  \<^bold>\<open>The model.\<close> One theory per part, with the names of the source:
  \<^item> \<open>SimPrelude\<close>: aborts of the process and results (\<open>'a res\<close> is \<open>abort + 'a\<close>: every assertion, \<open>terminate\<close>,
    null pointer, out-of-range access and undefined operator is a value \<open>Inl\<close>), sequencing, shared
    lemmas on words and bit fields.
  \<^item> \<open>Common\<close> (\<^verbatim>\<open>common.hpp\<close>): statuses, assertions, bit fields with the integer promotion of C++.
  \<^item> \<open>Gpr\<close> (\<^verbatim>\<open>gpr.hpp\<close>), \<open>Csr\<close> (\<^verbatim>\<open>csr.hpp\<close>, \<^verbatim>\<open>csr.cpp\<close>, the generated classes): the register files.
  \<^item> \<open>PhysMem\<close> (\<^verbatim>\<open>phys_memory.hpp\<close>): host blocks from \<open>mmap\<close>, the page allocator, RAM pages, reads and writes of
    bytes. \<open>mmap\<close> is a parameter with the contract that it returns fresh blocks; what it promises is
    \<open>mmap_contract\<close>.
  \<^item> \<open>Mmu\<close> (\<^verbatim>\<open>pte.hpp\<close>, \<^verbatim>\<open>mmu64.hpp\<close>, \<^verbatim>\<open>memory.cpp\<close>): page table entries and \<open>translate\<close>.
  \<^item> \<open>Mapper\<close> (\<^verbatim>\<open>simple_mapper.hpp\<close>, \<^verbatim>\<open>memory.cpp\<close>): \<open>SimpleMemoryMapper\<close>.
  \<^item> \<open>InstrDecode\<close> (\<^verbatim>\<open>instr.hpp\<close>, \<^verbatim>\<open>gen_decode.py\<close>, \<^verbatim>\<open>risc-v.yaml\<close>): the decoder, with the whole decoder tree.
  \<^item> \<open>Tlb\<close> (\<^verbatim>\<open>tlb.hpp\<close>), \<open>Bb\<close> (\<^verbatim>\<open>bb.hpp\<close>, \<^verbatim>\<open>bb_cache.hpp\<close>): the caches.
  \<^item> \<open>HostMem\<close> (\<^verbatim>\<open>phys_memory.hpp\<close>): the lifetimes of the host blocks: constructor, moves and destructor of \<^verbatim>\<open>MMap\<close>, the
    vector that moves its elements when it grows, and the allocator over these objects.
  \<^item> \<open>LogText\<close> (\<^verbatim>\<open>simulator.hpp\<close>): integers as text, the lines of the log and their text, and a reader for them.
  \<^item> \<open>Simulator\<close> (\<^verbatim>\<open>hart.hpp\<close>, \<^verbatim>\<open>simulator.hpp\<close>): the state, loads, stores, branches, fetches, the log functions.
  \<^item> \<open>SimInstr\<close> (\<^verbatim>\<open>sim_instr.hpp\<close>, \<^verbatim>\<open>simulator.cpp\<close>, \<^verbatim>\<open>gen_dispatch.py\<close>): the handlers, dispatch, the main loop.
  \<^item> \<open>ElfLoad\<close> (\<^verbatim>\<open>elf_load.hpp\<close>, \<^verbatim>\<open>elf_load.cpp\<close>), \<open>SimApp\<close> (\<^verbatim>\<open>sim_app.cpp\<close>): loader and \<open>main\<close> with
    its output.

  \<^bold>\<open>What is shown.\<close>
  \<^item> Memory: physical memory is an array of bytes, new pages are fresh (\<open>PhysMem\<close>); a translation is
    what the specification of the tables says (\<open>Mmu\<close>, \<open>leaf_at\<close>); what the mapper maps translates,
    what was mapped stays, and no history of maps, added pages and user stores (\<open>mapper_history\<close>) lets user code
    reach the tables (\<open>Mapper\<close>); the tables implement a set of page
    numbers (\<open>MapTree\<close>). The allocator succeeds if \<open>mmap\<close> grants blocks of a bounded size (\<open>MemLive\<close>), and gives every
    block back once: the calls of \<open>mmap\<close> and \<open>munmap\<close> are recorded in \<open>HostCalls\<close> (\<open>HostMem\<close>).
  \<^item> Caches: loads, stores and fetches through the TLBs are those without them, but for the null pointer of a never used
    entry at \<open>POISON_VA\<close>, which the statements name (\<open>SimMemory\<close>), blocks always end (\<open>Bb\<close>).
  \<^item> Instructions: decoding inverts encoding, is total, and equals a search through the list of instructions up to
    the bits that the tree does not test (\<open>InstrDecode\<close>, \<open>untested_bits\<close>); handlers compute what the architecture
    specifies (\<open>SimIsa\<close>), with every exception as a case of the statement: shifts and signed sums that C++ leaves
    undefined, \<open>auipc\<close> with a negative immediate, and every way in which a load or store can fail. An instruction without
    a handler ends a run in a call through a null pointer (\<open>SimRefine\<close>).
  \<^item> Refinement: \<open>IsaMachine\<close> is the machine the simulator promises, one instruction at a time on
    registers, CSRs and memory bytes; \<open>SimRefine\<close> shows that \<open>simulate\<close>, with its TLBs, its prefetching and
    its cache of blocks, returns with what that machine computes whenever it stops, and that it returns nothing
    else: while the machine stays defined the simulator does not abort, and it runs forever only if the machine does.
  \<^item> Loading: user code sees the bytes of the file through the page tables (\<open>ElfSpec\<close>), and a file with well-formed
    segments that fit the tables is loaded (\<open>ElfLive\<close>); \<open>AppSpec\<close> puts loader, machine and output together.
  \<^item> Log: the lines of a run can be replayed to the registers, the program counter and the count at its end,
    and logging changes nothing else (\<open>SimLog\<close>).
  \<^item> Whole runs: the invariant of the simulator holds through every run and bounds the ways in which
    the process can stop (\<open>SimInv\<close>), the load of any file does so too (\<open>LoadAborts\<close>), and together they do for \<open>main\<close>
    with any arguments (\<open>SimApp\<close>).
  \<^item> \<open>DemoMachine\<close>, \<open>DemoElf\<close> and \<open>Witnesses\<close> hold a concrete machine, a concrete file and the instances of the
    properties. \<open>SimTests\<close> and \<open>ModTests\<close> are the unit tests of the repository: the programs of the simulator's tests,
    and the tests of bit fields, registers, decoder and physical memory.

  The interfaces between the parts are the locales \<open>register_file\<close>, \<open>csr_class\<close>, \<open>word_memory\<close> and
  \<open>translation_cache\<close>, each interpreted on the model.

  \<^bold>\<open>Bounds.\<close> Loops are recursive functions with termination proofs, but for two that may not end in the
  source: the main loop (\<open>sim_loop\<close>), and the page loop of the loader (\<open>map_segment\<close>), whose address wraps around
  for a segment that ends in the last page of the address space. Both take a bound on the rounds and return \<open>None\<close>
  when it is used up; more rounds never change a result, a machine that stops after \<open>n\<close> instructions needs
  at most \<open>n\<close> rounds, and a file is loaded if the bound exceeds its number of pages (\<open>segs_pages\<close>). The whole-program property
  takes a bound of at most \<open>2 ^ 27\<close> pages, the size of the Sv39 address space, since page numbers count modulo \<open>2 ^ 27\<close> there;
  of the 16 page tables that the loader sets aside the stack uses 10.

  \<^bold>\<open>Not modelled.\<close> The build, the text of generated files (only what they compute), and the inside of \<open>libelf\<close>, whose
  results are the argument \<open>elf\<close> of \<open>loadElf\<close>. The assertions are those of a build without \<^verbatim>\<open>NDEBUG\<close>; the messages they
  print before they end the process are not kept. Builds with and without \<^verbatim>\<open>SIM_LOG_ENABLE\<close> are covered by the argument
  \<open>log_enable\<close> of \<open>main\<close> and a log that may be absent.
\<close>

end
